(* ===== verification/Mcu_Prelude.thy ===== *)
theory Mcu_Prelude
  imports Main "HOL-Library.Word"
begin

unbundle bit_operations_syntax

text \<open>
  Shared ground of the development: the C integer types, byte strings and C strings, loads from
  a memory object that make an out-of-bounds access a value of the model, the little-endian image
  of a \<open>uint64_t\<close>, and the lemmas on lists and words the components use.
\<close>

section \<open>C integers, bytes and strings\<close>

type_synonym byte = "8 word"
type_synonym u16 = "16 word"
type_synonym u32 = "32 word"
type_synonym u64 = "64 word"

text \<open>
  A \<open>char\<close> of the source is a byte. A string literal is the list of its bytes, without the
  terminating NUL; a C string is modelled the same way, and \<open>cstr\<close> reads the C string that
  starts at the front of a buffer.
\<close>

abbreviation ch :: "char \<Rightarrow> byte" where
  "ch c \<equiv> of_char c"

definition str :: "string \<Rightarrow> byte list" where
  "str s = map of_char s"

definition cstr :: "byte list \<Rightarrow> byte list" where
  "cstr buf = takeWhile (\<lambda>b. b \<noteq> 0) buf"

abbreviation in_range :: "byte \<Rightarrow> char \<Rightarrow> char \<Rightarrow> bool" where
  "in_range c lo hi \<equiv> ch lo \<le> c \<and> c \<le> ch hi"

section \<open>Results of code that reads memory\<close>

text \<open>
  \<open>Oob\<close> is an access outside the memory object (undefined behaviour in C), \<open>Fail e\<close> an error the
  code returns, \<open>Ok v\<close> a result. A theorem that a function never yields \<open>Oob\<close> is memory safety.
\<close>

datatype ('e, 'a) cres = Oob | Fail 'e | Ok 'a

fun cbind :: "('e, 'a) cres \<Rightarrow> ('a \<Rightarrow> ('e, 'b) cres) \<Rightarrow> ('e, 'b) cres" where
  "cbind Oob f = Oob"
| "cbind (Fail e) f = Fail e"
| "cbind (Ok v) f = f v"

fun on_err :: "'e \<Rightarrow> ('d, 'a) cres \<Rightarrow> ('e, 'a) cres" where
  "on_err e Oob = Oob"
| "on_err e (Fail d) = Fail e"
| "on_err e (Ok v) = Ok v"

definition load :: "byte list \<Rightarrow> nat \<Rightarrow> ('e, byte) cres" where
  "load mem a = (if a < length mem then Ok (mem ! a) else Oob)"

definition load_n :: "byte list \<Rightarrow> nat \<Rightarrow> nat \<Rightarrow> ('e, byte list) cres" where
  "load_n mem a n = (if a + n \<le> length mem then Ok (take n (drop a mem)) else Oob)"

section \<open>The memory image of a uint64\_t (little endian, as on the ESP32-S3)\<close>

definition u64_bytes :: "u64 \<Rightarrow> byte list" where
  "u64_bytes v = map (\<lambda>i. ucast (drop_bit (8 * i) v)) [0..<8]"

fun bytes_u64 :: "byte list \<Rightarrow> u64" where
  "bytes_u64 [] = 0"
| "bytes_u64 (b # bs) = ucast b OR push_bit 8 (bytes_u64 bs)"

named_theorems cres_simps \<open>rewriting of monadic results\<close>

lemma cbind_cong [fundef_cong]:
  "r = r' \<Longrightarrow> (\<And>v. r' = Ok v \<Longrightarrow> f v = f' v) \<Longrightarrow> cbind r f = cbind r' f'"
  by (cases r') simp_all

lemma cbind_Ok_iff [cres_simps]: "cbind r f = Ok v \<longleftrightarrow> (\<exists>w. r = Ok w \<and> f w = Ok v)"
  by (cases r) simp_all

lemma Ok_cbind_iff [cres_simps]: "Ok v = cbind r f \<longleftrightarrow> (\<exists>w. r = Ok w \<and> f w = Ok v)"
  by (cases r) auto

lemma cbind_Oob_iff [cres_simps]: "cbind r f = Oob \<longleftrightarrow> r = Oob \<or> (\<exists>w. r = Ok w \<and> f w = Oob)"
  by (cases r) simp_all

lemma cbind_Fail_iff [cres_simps]:
  "cbind r f = Fail e \<longleftrightarrow> r = Fail e \<or> (\<exists>w. r = Ok w \<and> f w = Fail e)"
  by (cases r) simp_all

lemma on_err_Ok_iff [cres_simps]: "on_err e r = Ok v \<longleftrightarrow> r = Ok v"
  by (cases r) simp_all

lemma on_err_Oob_iff [cres_simps]: "on_err e r = Oob \<longleftrightarrow> r = Oob"
  by (cases r) simp_all

lemma on_err_Fail_iff [cres_simps]: "on_err e r = Fail d \<longleftrightarrow> d = e \<and> (\<exists>c. r = Fail c)"
  by (cases r) auto

lemma load_Ok [simp]: "a < length mem \<Longrightarrow> load mem a = Ok (mem ! a)"
  by (simp add: load_def)

lemma load_n_Ok [simp]: "a + n \<le> length mem \<Longrightarrow> load_n mem a n = Ok (take n (drop a mem))"
  by (simp add: load_n_def)

lemma load_eq_Ok_iff: "load mem a = Ok b \<longleftrightarrow> a < length mem \<and> b = mem ! a"
  by (auto simp: load_def)

lemma load_n_eq_Ok_iff: "load_n mem a n = Ok bs \<longleftrightarrow> a + n \<le> length mem \<and> bs = take n (drop a mem)"
  by (auto simp: load_n_def)

lemma load_not_Fail [simp]: "load mem a \<noteq> Fail e"
  by (simp add: load_def)

lemma load_n_not_Fail [simp]: "load_n mem a n \<noteq> Fail e"
  by (simp add: load_n_def)

lemma length_str [simp]: "length (str s) = length s"
  by (simp add: str_def)

lemma str_Nil [simp]: "str [] = []"
  by (simp add: str_def)

lemma str_Cons [simp]: "str (c # s) = of_char c # str s"
  by (simp add: str_def)

section \<open>Lemmas on words\<close>

lemma length_u64_bytes [simp]: "length (u64_bytes v) = 8"
  by (simp add: u64_bytes_def)

lemma bit_bytes_u64: "bit (bytes_u64 bs) n \<longleftrightarrow> n < 64 \<and> n < 8 * length bs \<and> bit (bs ! (n div 8)) (n mod 8)"
proof (induction bs arbitrary: n)
  case Nil
  then show ?case by simp
next
  case (Cons b bs)
  show ?case
  proof (cases "n < 8")
    case True
    then show ?thesis by (auto simp: bit_simps)
  next
    case False
    then obtain m where "n = m + 8" by (metis add.commute le_Suc_ex not_less)
    moreover have "(m + 8) div 8 = Suc (m div 8)" by simp
    ultimately show ?thesis
      by (auto simp: bit_simps Cons.IH simp del: div_add_self2 dest: bit_imp_le_length)
  qed
qed

lemma bytes_u64_u64_bytes [simp]: "bytes_u64 (u64_bytes v) = v"
proof (rule bit_eqI)
  fix n
  assume "possible_bit TYPE(u64) n"
  then have n: "n < 64" by simp
  then have "n div 8 < 8" by simp
  then show "bit (bytes_u64 (u64_bytes v)) n = bit v n"
    using n by (simp add: bit_bytes_u64 u64_bytes_def bit_simps)
qed

lemma u64_bytes_inject [simp]: "u64_bytes v = u64_bytes w \<longleftrightarrow> v = w"
  by (metis bytes_u64_u64_bytes)

lemma unat_of_nat_le: "unat (of_nat n :: 'a::len word) \<le> n"
  by (simp add: unat_of_nat)

lemma unat_le_of_nat: "x \<le> (of_nat n :: 'a::len word) \<Longrightarrow> unat x \<le> n"
  by (meson le_trans unat_of_nat_le word_le_nat_alt [THEN iffD1])

lemma bit_lt_exp:
  fixes v :: "'a::len word"
  assumes "v < 2 ^ k" "bit v n"
  shows "n < k"
proof -
  from assms(1) have "v AND mask k = v" by (simp add: less_mask_eq)
  with assms(2) show ?thesis by (metis bit_and_iff bit_mask_iff)
qed

section \<open>Bytes at a place in memory\<close>

definition bytes_at :: "byte list \<Rightarrow> nat \<Rightarrow> byte list \<Rightarrow> bool" where
  "bytes_at mem a bs \<longleftrightarrow> a + length bs \<le> length mem \<and> take (length bs) (drop a mem) = bs"

lemma bytes_at_Nil [simp]: "bytes_at mem a [] \<longleftrightarrow> a \<le> length mem"
  by (simp add: bytes_at_def)

lemma bytes_at_append:
  "bytes_at mem a (xs @ ys) \<longleftrightarrow> bytes_at mem a xs \<and> bytes_at mem (a + length xs) ys"
  by (auto simp: bytes_at_def take_add add.commute append_eq_append_conv)

lemma bytes_at_Cons:
  "bytes_at mem a (b # bs) \<longleftrightarrow> a < length mem \<and> mem ! a = b \<and> bytes_at mem (Suc a) bs"
  by (auto simp: bytes_at_def Cons_nth_drop_Suc [symmetric])

lemma bytes_at_all: "bytes_at bs 0 bs"
  by (simp add: bytes_at_def)

section \<open>Hexadecimal text\<close>

text \<open>What \<open>%02x\<close> prints.\<close>

definition hex_digit :: "byte \<Rightarrow> byte" where
  "hex_digit d = (if d < 10 then 48 + d else 87 + d)"

definition hex_byte :: "byte \<Rightarrow> byte list" where
  "hex_byte b = [hex_digit (drop_bit 4 b), hex_digit (b AND 15)]"

definition hex_text :: "byte list \<Rightarrow> byte list" where
  "hex_text bs = concat (map hex_byte bs)"

lemma length_hex_text [simp]: "length (hex_text bs) = 2 * length bs"
  by (induction bs) (simp_all add: hex_text_def hex_byte_def)

lemma hex_text_Nil [simp]: "hex_text [] = []"
  by (simp add: hex_text_def)

lemma hex_text_Cons [simp]: "hex_text (b # bs) = hex_byte b @ hex_text bs"
  by (simp add: hex_text_def)

lemma nth_hex_text:
  "i < length bs \<Longrightarrow> hex_text bs ! (2 * i) = hex_digit (drop_bit 4 (bs ! i))"
  "i < length bs \<Longrightarrow> hex_text bs ! (2 * i + 1) = hex_digit ((bs ! i) AND 15)"
  by (induction bs arbitrary: i; case_tac i; simp add: hex_byte_def)+

end
