(* ===== verification/Manifest_Verify.thy ===== *)
theory Manifest_Verify
  imports Mcu_Prelude
begin

text \<open>
  The manifest verifier, \<^verbatim>\<open>lib/verify/manifest_verify.c\<close> with its types from
  \<^verbatim>\<open>manifest_verify.h\<close> and the Ed25519 seam \<^verbatim>\<open>ed25519_fiat.c\<close>. The received bytes are a memory
  object \<open>mem\<close>; a pointer into it is an offset, a decoded string field a slice (offset or NULL, and
  a length). Every load is checked, so \<open>Oob\<close> is a read outside the object. \<open>size_t\<close> positions
  are natural numbers: \<open>read_varint_pos\<close> and its companions show that a position never passes
  the length, so the subtractions \<open>len - pos\<close> of the source cannot wrap. The Ed25519 primitive
  \<open>ED25519_verify\<close> is an argument of the definitions that use it.
\<close>

section \<open>Types and constants of manifest\_verify.h\<close>

definition MD_SIGN_CONTEXT :: "byte list" where
  "MD_SIGN_CONTEXT = str ''meshanics:device-manifest:v1'' @ [10]"

definition MD_SIGN_CONTEXT_LEN :: nat where
  "MD_SIGN_CONTEXT_LEN = 29"

definition MD_SCHEMA_VERSION :: u32 where
  "MD_SCHEMA_VERSION = 1"

definition MD_MAX_MANIFEST :: nat where
  "MD_MAX_MANIFEST = 512"

record md_pinned_key =
  pk_pub :: "byte list"
  pk_key_id :: "byte list"

record slice =
  sl_ptr :: "nat option"
  sl_len :: nat

record md_manifest =
  schema_version :: u32
  tenant_id :: slice
  artifact_name :: slice
  artifact_version :: slice
  sha256 :: slice
  size_bytes :: u64
  target_profile :: slice
  rollback_counter :: u64
  issued_at_unix :: u64

datatype md_result =
    MD_OK | MD_ERR_DECODE | MD_ERR_ALG | MD_ERR_SIG_SIZE | MD_ERR_EMPTY_MANIFEST
  | MD_ERR_MANIFEST_TOO_BIG | MD_ERR_KEY_ID | MD_ERR_SIGNATURE | MD_ERR_SCHEMA | MD_ERR_FIELD

definition null_slice :: slice where
  "null_slice = \<lparr>sl_ptr = None, sl_len = 0\<rparr>"

text \<open>The \<open>n\<close> bytes a slice's pointer addresses; loading through NULL is out of bounds.\<close>

definition load_slice :: "byte list \<Rightarrow> slice \<Rightarrow> nat \<Rightarrow> ('e, byte list) cres" where
  "load_slice mem s n =
     (if n = 0 then Ok [] else case sl_ptr s of None \<Rightarrow> Oob | Some a \<Rightarrow> load_n mem a n)"

section \<open>Protobuf scalars\<close>

function read_varint_loop ::
  "byte list \<Rightarrow> nat \<Rightarrow> nat \<Rightarrow> nat \<Rightarrow> nat \<Rightarrow> u64 \<Rightarrow> (unit, u64 \<times> nat) cres" where
  "read_varint_loop mem base len pos shift result =
     (if pos < len \<and> shift < 64
      then cbind (load mem (base + pos)) (\<lambda>b.
             let result' = result OR push_bit shift (ucast (b AND 0x7f))
             in if b AND 0x80 = 0 then Ok (result', pos + 1)
                else read_varint_loop mem base len (pos + 1) (shift + 7) result')
      else Fail ())"
  by pat_completeness auto
termination
  by (relation "measure (\<lambda>(mem, base, len, pos, shift, result). len - pos)") auto

declare read_varint_loop.simps [simp del]

definition read_varint :: "byte list \<Rightarrow> nat \<Rightarrow> nat \<Rightarrow> nat \<Rightarrow> (unit, u64 \<times> nat) cres" where
  "read_varint mem base len pos = read_varint_loop mem base len pos 0 0"

definition skip_scalar :: "byte list \<Rightarrow> nat \<Rightarrow> nat \<Rightarrow> nat \<Rightarrow> u32 \<Rightarrow> (unit, nat) cres" where
  "skip_scalar mem base len pos wire =
     (if wire = 0 then cbind (read_varint mem base len pos) (\<lambda>(v, pos'). Ok pos')
      else if wire = 5 then (if len - pos < 4 then Fail () else Ok (pos + 4))
      else if wire = 1 then (if len - pos < 8 then Fail () else Ok (pos + 8))
      else Fail ())"

definition read_len_delimited ::
  "byte list \<Rightarrow> nat \<Rightarrow> nat \<Rightarrow> nat \<Rightarrow> (unit, slice \<times> nat) cres" where
  "read_len_delimited mem base len pos =
     cbind (read_varint mem base len pos) (\<lambda>(flen, pos').
       if flen > of_nat (len - pos') then Fail ()
       else Ok (\<lparr>sl_ptr = Some (base + pos'), sl_len = unat flen\<rparr>, pos' + unat flen))"

lemma read_varint_loop_pos:
  "read_varint_loop mem base len pos shift result = Ok (v, pos') \<Longrightarrow> pos < pos' \<and> pos' \<le> len"
proof (induction mem base len pos shift result rule: read_varint_loop.induct)
  case (1 mem base len pos shift result)
  from "1.prems" have g: "pos < len \<and> shift < 64"
    by (subst (asm) read_varint_loop.simps) (simp split: if_splits)
  from "1.prems" obtain b where b: "load mem (base + pos) = (Ok b :: (unit, byte) cres)"
    by (subst (asm) read_varint_loop.simps) (auto simp: g cbind_Ok_iff)
  show ?case
  proof (cases "b AND 0x80 = 0")
    case True
    with "1.prems" g b show ?thesis
      by (subst (asm) read_varint_loop.simps) (auto simp: Let_def)
  next
    case False
    with "1.prems" g b
    have "read_varint_loop mem base len (pos + 1) (shift + 7)
            (result OR push_bit shift (ucast (b AND 0x7f))) = Ok (v, pos')"
      by (subst (asm) read_varint_loop.simps) (simp add: Let_def)
    with "1.IH" [OF g b] False show ?thesis by simp
  qed
qed

lemma read_varint_pos:
  "read_varint mem base len pos = Ok (v, pos') \<Longrightarrow> pos < pos' \<and> pos' \<le> len"
  unfolding read_varint_def by (rule read_varint_loop_pos)

lemma skip_scalar_pos:
  "skip_scalar mem base len pos wire = Ok pos' \<Longrightarrow> pos < pos' \<and> pos' \<le> len"
  by (auto simp: skip_scalar_def cbind_Ok_iff dest: read_varint_pos split: if_splits)

lemma read_len_delimited_pos:
  assumes "read_len_delimited mem base len pos = Ok (s, pos')"
  shows "pos < pos' \<and> pos' \<le> len"
proof -
  from assms obtain flen p where p: "read_varint mem base len pos = Ok (flen, p)"
    and le: "\<not> flen > of_nat (len - p)" and pos': "pos' = p + unat flen"
    by (auto simp: read_len_delimited_def cbind_Ok_iff split: if_splits)
  from read_varint_pos [OF p] have "pos < p" "p \<le> len" by simp_all
  moreover from le have "unat flen \<le> len - p" by (simp add: unat_le_of_nat)
  ultimately show ?thesis using pos' by simp
qed

section \<open>The two message decoders\<close>

record signed_parts =
  sp_manifest :: slice
  sp_key_id :: slice
  sp_alg :: slice
  sp_sig :: slice

definition no_parts :: signed_parts where
  "no_parts = \<lparr>sp_manifest = null_slice, sp_key_id = null_slice, sp_alg = null_slice,
     sp_sig = null_slice\<rparr>"

definition set_signed :: "u32 \<Rightarrow> slice \<Rightarrow> signed_parts \<Rightarrow> signed_parts" where
  "set_signed field s p =
     (if field = 1 then p\<lparr>sp_manifest := s\<rparr>
      else if field = 2 then p\<lparr>sp_key_id := s\<rparr>
      else if field = 3 then p\<lparr>sp_alg := s\<rparr>
      else if field = 4 then p\<lparr>sp_sig := s\<rparr>
      else p)"

definition tag_field :: "u64 \<Rightarrow> u32" where
  "tag_field tag = ucast (drop_bit 3 tag)"

definition tag_wire :: "u64 \<Rightarrow> u32" where
  "tag_wire tag = ucast (tag AND 7)"

function decode_signed_loop ::
  "byte list \<Rightarrow> nat \<Rightarrow> nat \<Rightarrow> nat \<Rightarrow> signed_parts \<Rightarrow> (md_result, signed_parts) cres" where
  "decode_signed_loop mem base len pos p =
     (if pos < len
      then cbind (on_err MD_ERR_DECODE (read_varint mem base len pos)) (\<lambda>(tag, pos1).
             if tag_wire tag = 2
             then cbind (on_err MD_ERR_DECODE (read_len_delimited mem base len pos1))
                    (\<lambda>(s, pos2). decode_signed_loop mem base len pos2
                       (set_signed (tag_field tag) s p))
             else cbind (on_err MD_ERR_DECODE (skip_scalar mem base len pos1 (tag_wire tag)))
                    (\<lambda>pos2. decode_signed_loop mem base len pos2 p))
      else Ok p)"
  by pat_completeness auto
termination
  by (relation "measure (\<lambda>(mem, base, len, pos, p). len - pos)")
    (auto simp: on_err_Ok_iff dest!: read_varint_pos read_len_delimited_pos skip_scalar_pos)

declare decode_signed_loop.simps [simp del]

definition decode_signed :: "byte list \<Rightarrow> nat \<Rightarrow> nat \<Rightarrow> (md_result, signed_parts) cres" where
  "decode_signed mem base len = decode_signed_loop mem base len 0 no_parts"

definition empty_manifest :: md_manifest where
  "empty_manifest = \<lparr>schema_version = 0, tenant_id = null_slice, artifact_name = null_slice,
     artifact_version = null_slice, sha256 = null_slice, size_bytes = 0,
     target_profile = null_slice, rollback_counter = 0, issued_at_unix = 0\<rparr>"

definition set_scalar :: "u32 \<Rightarrow> u64 \<Rightarrow> md_manifest \<Rightarrow> md_manifest" where
  "set_scalar field v m =
     (if field = 1 then m\<lparr>schema_version := ucast v\<rparr>
      else if field = 6 then m\<lparr>size_bytes := v\<rparr>
      else if field = 8 then m\<lparr>rollback_counter := v\<rparr>
      else if field = 9 then m\<lparr>issued_at_unix := v\<rparr>
      else m)"

definition set_string :: "u32 \<Rightarrow> slice \<Rightarrow> md_manifest \<Rightarrow> md_manifest" where
  "set_string field s m =
     (if field = 2 then m\<lparr>tenant_id := s\<rparr>
      else if field = 3 then m\<lparr>artifact_name := s\<rparr>
      else if field = 4 then m\<lparr>artifact_version := s\<rparr>
      else if field = 5 then m\<lparr>sha256 := s\<rparr>
      else if field = 7 then m\<lparr>target_profile := s\<rparr>
      else m)"

function decode_manifest_loop ::
  "byte list \<Rightarrow> nat \<Rightarrow> nat \<Rightarrow> nat \<Rightarrow> md_manifest \<Rightarrow> (md_result, md_manifest) cres" where
  "decode_manifest_loop mem base len pos m =
     (if pos < len
      then cbind (on_err MD_ERR_DECODE (read_varint mem base len pos)) (\<lambda>(tag, pos1).
             if tag_wire tag = 0
             then cbind (on_err MD_ERR_DECODE (read_varint mem base len pos1))
                    (\<lambda>(v, pos2). decode_manifest_loop mem base len pos2
                       (set_scalar (tag_field tag) v m))
             else if tag_wire tag = 2
             then cbind (on_err MD_ERR_DECODE (read_len_delimited mem base len pos1))
                    (\<lambda>(s, pos2). decode_manifest_loop mem base len pos2
                       (set_string (tag_field tag) s m))
             else cbind (on_err MD_ERR_DECODE (skip_scalar mem base len pos1 (tag_wire tag)))
                    (\<lambda>pos2. decode_manifest_loop mem base len pos2 m))
      else Ok m)"
  by pat_completeness auto
termination
  by (relation "measure (\<lambda>(mem, base, len, pos, m). len - pos)")
    (auto simp: on_err_Ok_iff dest!: read_varint_pos read_len_delimited_pos skip_scalar_pos)

declare decode_manifest_loop.simps [simp del]

definition decode_manifest :: "byte list \<Rightarrow> nat \<Rightarrow> nat \<Rightarrow> (md_result, md_manifest) cres" where
  "decode_manifest mem base len = decode_manifest_loop mem base len 0 empty_manifest"

section \<open>Validation and the ordered checks\<close>

function all_lower_hex :: "byte list \<Rightarrow> slice \<Rightarrow> nat \<Rightarrow> nat \<Rightarrow> (md_result, bool) cres" where
  "all_lower_hex mem s n i =
     (if i < n
      then case sl_ptr s of None \<Rightarrow> Oob
           | Some a \<Rightarrow> cbind (load mem (a + i)) (\<lambda>c.
               if \<not> (in_range c CHR ''0'' CHR ''9'' \<or> in_range c CHR ''a'' CHR ''f'')
               then Ok False else all_lower_hex mem s n (i + 1))
      else Ok True)"
  by pat_completeness auto
termination
  by (relation "measure (\<lambda>(mem, s, n, i). n - i)") auto

declare all_lower_hex.simps [simp del]

definition is_lower_hex64 :: "byte list \<Rightarrow> slice \<Rightarrow> (md_result, bool) cres" where
  "is_lower_hex64 mem s = (if sl_len s \<noteq> 64 then Ok False else all_lower_hex mem s (sl_len s) 0)"

definition validate_manifest :: "byte list \<Rightarrow> md_manifest \<Rightarrow> (md_result, unit) cres" where
  "validate_manifest mem m =
     (if schema_version m \<noteq> MD_SCHEMA_VERSION then Fail MD_ERR_SCHEMA
      else if sl_len (tenant_id m) = 0 then Fail MD_ERR_FIELD
      else if sl_len (artifact_name m) = 0 then Fail MD_ERR_FIELD
      else if sl_len (artifact_version m) = 0 then Fail MD_ERR_FIELD
      else cbind (is_lower_hex64 mem (sha256 m)) (\<lambda>hex.
        if \<not> hex then Fail MD_ERR_FIELD
        else if size_bytes m = 0 then Fail MD_ERR_FIELD
        else if sl_len (target_profile m) = 0 then Fail MD_ERR_FIELD
        else Ok ()))"

text \<open>
  The Ed25519 primitive of the vendored library takes the message, the signature and the public
  key, and returns 1 on a valid signature.
\<close>

type_synonym ed25519_fn = "byte list \<Rightarrow> byte list \<Rightarrow> byte list \<Rightarrow> int"

definition md_ed25519_verify :: "ed25519_fn \<Rightarrow> byte list \<Rightarrow> byte list \<Rightarrow> byte list \<Rightarrow> bool" where
  "md_ed25519_verify ED25519_verify pub msg sig = (ED25519_verify msg sig pub = 1)"

text \<open>
  The preimage is a stack array of \<open>MD_SIGN_CONTEXT_LEN + MD_MAX_MANIFEST\<close> bytes: copying more
  into it is out of bounds.
\<close>

definition build_preimage :: "byte list \<Rightarrow> (md_result, byte list) cres" where
  "build_preimage manifest =
     (if MD_SIGN_CONTEXT_LEN + length manifest > MD_SIGN_CONTEXT_LEN + MD_MAX_MANIFEST then Oob
      else Ok (MD_SIGN_CONTEXT @ manifest))"

definition md_verify ::
  "ed25519_fn \<Rightarrow> md_pinned_key \<Rightarrow> byte list \<Rightarrow> nat \<Rightarrow> (md_result, md_manifest) cres" where
  "md_verify ED25519_verify key mem len =
     cbind (decode_signed mem 0 len) (\<lambda>p.
     cbind (if sl_len (sp_alg p) \<noteq> 7 then Ok [] else load_slice mem (sp_alg p) 7) (\<lambda>alg.
     if alg \<noteq> str ''ed25519'' then Fail MD_ERR_ALG
     else if sl_len (sp_sig p) \<noteq> 64 then Fail MD_ERR_SIG_SIZE
     else if sl_len (sp_manifest p) = 0 then Fail MD_ERR_EMPTY_MANIFEST
     else if sl_len (sp_manifest p) > MD_MAX_MANIFEST then Fail MD_ERR_MANIFEST_TOO_BIG
     else if sl_len (sp_key_id p) \<noteq> length (pk_key_id key) then Fail MD_ERR_KEY_ID
     else cbind (load_slice mem (sp_key_id p) (length (pk_key_id key))) (\<lambda>kid.
     if kid \<noteq> pk_key_id key then Fail MD_ERR_KEY_ID
     else cbind (load_slice mem (sp_manifest p) (sl_len (sp_manifest p))) (\<lambda>manifest.
     cbind (build_preimage manifest) (\<lambda>preimage.
     cbind (load_slice mem (sp_sig p) 64) (\<lambda>sig.
     if \<not> md_ed25519_verify ED25519_verify (pk_pub key) preimage sig then Fail MD_ERR_SIGNATURE
     else cbind (decode_manifest mem (the (sl_ptr (sp_manifest p))) (sl_len (sp_manifest p))) (\<lambda>m.
     cbind (validate_manifest mem m) (\<lambda>_. Ok m))))))))"

definition md_check_rollback :: "u64 \<Rightarrow> u64 \<Rightarrow> bool" where
  "md_check_rollback last_applied incoming = (incoming > last_applied)"

fun md_result_str :: "md_result \<Rightarrow> string" where
  "md_result_str MD_OK = ''ok''"
| "md_result_str MD_ERR_DECODE = ''decode''"
| "md_result_str MD_ERR_ALG = ''alg''"
| "md_result_str MD_ERR_SIG_SIZE = ''sig_size''"
| "md_result_str MD_ERR_EMPTY_MANIFEST = ''empty_manifest''"
| "md_result_str MD_ERR_MANIFEST_TOO_BIG = ''manifest_too_big''"
| "md_result_str MD_ERR_KEY_ID = ''key_id''"
| "md_result_str MD_ERR_SIGNATURE = ''signature''"
| "md_result_str MD_ERR_SCHEMA = ''schema''"
| "md_result_str MD_ERR_FIELD = ''field''"

section \<open>Memory safety\<close>

definition slice_in :: "nat \<Rightarrow> nat \<Rightarrow> slice \<Rightarrow> bool" where
  "slice_in lo hi s \<longleftrightarrow>
     (case sl_ptr s of None \<Rightarrow> sl_len s = 0 | Some a \<Rightarrow> lo \<le> a \<and> a + sl_len s \<le> hi)"

definition parts_in :: "nat \<Rightarrow> nat \<Rightarrow> signed_parts \<Rightarrow> bool" where
  "parts_in lo hi p \<longleftrightarrow> slice_in lo hi (sp_manifest p) \<and> slice_in lo hi (sp_key_id p)
     \<and> slice_in lo hi (sp_alg p) \<and> slice_in lo hi (sp_sig p)"

definition manifest_in :: "nat \<Rightarrow> nat \<Rightarrow> md_manifest \<Rightarrow> bool" where
  "manifest_in lo hi m \<longleftrightarrow> slice_in lo hi (tenant_id m) \<and> slice_in lo hi (artifact_name m)
     \<and> slice_in lo hi (artifact_version m) \<and> slice_in lo hi (sha256 m)
     \<and> slice_in lo hi (target_profile m)"

lemma slice_in_null [simp]: "slice_in lo hi null_slice"
  by (simp add: slice_in_def null_slice_def)

lemma read_varint_loop_safe:
  "base + len \<le> length mem \<Longrightarrow> read_varint_loop mem base len pos shift result \<noteq> Oob"
proof (induction mem base len pos shift result rule: read_varint_loop.induct)
  case (1 mem base len pos shift result)
  show ?case
  proof (cases "pos < len \<and> shift < 64")
    case True
    with "1.prems" have l: "load mem (base + pos) = (Ok (mem ! (base + pos)) :: (unit, byte) cres)"
      by simp
    with True "1.IH" [OF True l] "1.prems" show ?thesis
      by (subst read_varint_loop.simps) (simp add: Let_def)
  next
    case False
    then show ?thesis by (subst read_varint_loop.simps) auto
  qed
qed

lemma read_varint_safe [simp]:
  "base + len \<le> length mem \<Longrightarrow> read_varint mem base len pos \<noteq> Oob"
  by (simp add: read_varint_def read_varint_loop_safe)

lemma skip_scalar_safe [simp]:
  "base + len \<le> length mem \<Longrightarrow> skip_scalar mem base len pos wire \<noteq> Oob"
  by (auto simp: skip_scalar_def cbind_Oob_iff)

lemma read_len_delimited_safe [simp]:
  "base + len \<le> length mem \<Longrightarrow> read_len_delimited mem base len pos \<noteq> Oob"
  by (auto simp: read_len_delimited_def cbind_Oob_iff)

lemma read_len_delimited_in:
  assumes "read_len_delimited mem base len pos = Ok (s, pos')"
  shows "slice_in base (base + len) s"
  using assms read_len_delimited_pos [OF assms]
  by (auto simp: read_len_delimited_def cbind_Ok_iff slice_in_def split: if_splits)

lemma set_signed_in [intro]:
  "slice_in lo hi s \<Longrightarrow> parts_in lo hi p \<Longrightarrow> parts_in lo hi (set_signed f s p)"
  by (simp add: parts_in_def set_signed_def)

lemma set_string_in [intro]:
  "slice_in lo hi s \<Longrightarrow> manifest_in lo hi m \<Longrightarrow> manifest_in lo hi (set_string f s m)"
  by (simp add: manifest_in_def set_string_def)

lemma set_scalar_in [intro]: "manifest_in lo hi m \<Longrightarrow> manifest_in lo hi (set_scalar f v m)"
  by (simp add: manifest_in_def set_scalar_def)

lemma decode_signed_loop_safe:
  "base + len \<le> length mem \<Longrightarrow> parts_in base (base + len) p \<Longrightarrow>
   (case decode_signed_loop mem base len pos p of
      Oob \<Rightarrow> False | Fail e \<Rightarrow> e = MD_ERR_DECODE | Ok q \<Rightarrow> parts_in base (base + len) q)"
proof (induction mem base len pos p rule: decode_signed_loop.induct)
  case (1 mem base len pos p)
  show ?case
  proof (cases "pos < len")
    case False
    with "1.prems" show ?thesis by (subst decode_signed_loop.simps) simp
  next
    case True
    show ?thesis
    proof (cases "read_varint mem base len pos")
      case Oob
      with "1.prems" show ?thesis by simp
    next
      case (Fail e)
      with True show ?thesis by (subst decode_signed_loop.simps) simp
    next
      case (Ok w)
      then obtain tag pos1 where w: "read_varint mem base len pos = Ok (tag, pos1)" by (cases w) auto
      note IH = "1.IH" [OF True, unfolded on_err_Ok_iff, OF w refl]
      show ?thesis
      proof (cases "tag_wire tag = 2")
        case wire: True
        show ?thesis
        proof (cases "read_len_delimited mem base len pos1")
          case (Ok x)
          then obtain s pos2 where "read_len_delimited mem base len pos1 = Ok (s, pos2)"
            by (cases x) auto
          with IH(1) [OF wire this refl] True w wire "1.prems" show ?thesis
            by (subst decode_signed_loop.simps) (auto dest: read_len_delimited_in)
        qed (use True w wire "1.prems" in \<open>(subst decode_signed_loop.simps, simp)+\<close>)
      next
        case wire: False
        show ?thesis
        proof (cases "skip_scalar mem base len pos1 (tag_wire tag)")
          case (Ok pos2)
          with IH(2) [OF wire Ok] True w wire "1.prems" show ?thesis
            by (subst decode_signed_loop.simps) auto
        qed (use True w wire "1.prems" in \<open>(subst decode_signed_loop.simps, simp)+\<close>)
      qed
    qed
  qed
qed

lemma decode_manifest_loop_safe:
  "base + len \<le> length mem \<Longrightarrow> manifest_in base (base + len) m \<Longrightarrow>
   (case decode_manifest_loop mem base len pos m of
      Oob \<Rightarrow> False | Fail e \<Rightarrow> e = MD_ERR_DECODE | Ok m' \<Rightarrow> manifest_in base (base + len) m')"
proof (induction mem base len pos m rule: decode_manifest_loop.induct)
  case (1 mem base len pos m)
  show ?case
  proof (cases "pos < len")
    case False
    with "1.prems" show ?thesis by (subst decode_manifest_loop.simps) simp
  next
    case True
    show ?thesis
    proof (cases "read_varint mem base len pos")
      case (Ok w)
      then obtain tag pos1 where w: "read_varint mem base len pos = Ok (tag, pos1)" by (cases w) auto
      note IH = "1.IH" [OF True, unfolded on_err_Ok_iff, OF w refl]
      consider (scalar) "tag_wire tag = 0" | (bytes) "tag_wire tag = 2"
        | (other) "tag_wire tag \<noteq> 0" "tag_wire tag \<noteq> 2" by blast
      then show ?thesis
      proof cases
        case scalar
        show ?thesis
        proof (cases "read_varint mem base len pos1")
          case (Ok x)
          then obtain v pos2 where "read_varint mem base len pos1 = Ok (v, pos2)" by (cases x) auto
          with IH(1) [OF scalar this refl] True w scalar "1.prems" show ?thesis
            by (subst decode_manifest_loop.simps) auto
        qed (use True w scalar "1.prems" in \<open>(subst decode_manifest_loop.simps, simp)+\<close>)
      next
        case bytes
        show ?thesis
        proof (cases "read_len_delimited mem base len pos1")
          case (Ok x)
          then obtain s pos2 where "read_len_delimited mem base len pos1 = Ok (s, pos2)"
            by (cases x) auto
          with IH(2) [OF _ bytes this refl] True w bytes "1.prems" show ?thesis
            by (subst decode_manifest_loop.simps) (auto dest: read_len_delimited_in)
        qed (use True w bytes "1.prems" in \<open>(subst decode_manifest_loop.simps, simp)+\<close>)
      next
        case other
        show ?thesis
        proof (cases "skip_scalar mem base len pos1 (tag_wire tag)")
          case (Ok pos2)
          with IH(3) [OF other Ok] True w other "1.prems" show ?thesis
            by (subst decode_manifest_loop.simps) auto
        qed (use True w other "1.prems" in \<open>(subst decode_manifest_loop.simps, simp)+\<close>)
      qed
    qed (use True "1.prems" in \<open>(subst decode_manifest_loop.simps, simp)+\<close>)
  qed
qed

lemma no_parts_in [simp]: "parts_in lo hi no_parts"
  by (simp add: parts_in_def no_parts_def)

lemma empty_manifest_in [simp]: "manifest_in lo hi empty_manifest"
  by (simp add: manifest_in_def empty_manifest_def)

lemma decode_signed_safe:
  assumes "base + len \<le> length mem"
  shows "decode_signed mem base len \<noteq> Oob"
    and "decode_signed mem base len = Fail e \<Longrightarrow> e = MD_ERR_DECODE"
    and "decode_signed mem base len = Ok p \<Longrightarrow> parts_in base (base + len) p"
  using decode_signed_loop_safe [OF assms, of no_parts 0]
  by (auto simp: decode_signed_def)

lemma decode_manifest_safe:
  assumes "base + len \<le> length mem"
  shows "decode_manifest mem base len \<noteq> Oob"
    and "decode_manifest mem base len = Fail e \<Longrightarrow> e = MD_ERR_DECODE"
    and "decode_manifest mem base len = Ok m \<Longrightarrow> manifest_in base (base + len) m"
  using decode_manifest_loop_safe [OF assms, of empty_manifest 0]
  by (auto simp: decode_manifest_def)

text \<open>The bytes a slice denotes.\<close>

definition slice_bytes :: "byte list \<Rightarrow> slice \<Rightarrow> byte list" where
  "slice_bytes mem s = (case sl_ptr s of None \<Rightarrow> [] | Some a \<Rightarrow> take (sl_len s) (drop a mem))"

lemma load_slice_in:
  assumes "slice_in lo hi s" "hi \<le> length mem"
  shows "load_slice mem s (sl_len s) = Ok (slice_bytes mem s)"
  using assms by (auto simp: load_slice_def slice_in_def slice_bytes_def split: option.splits)

lemma length_slice_bytes:
  assumes "slice_in lo hi s" "hi \<le> length mem"
  shows "length (slice_bytes mem s) = sl_len s"
  using assms by (auto simp: slice_in_def slice_bytes_def split: option.splits)

definition lower_hex :: "byte \<Rightarrow> bool" where
  "lower_hex c \<longleftrightarrow> in_range c CHR ''0'' CHR ''9'' \<or> in_range c CHR ''a'' CHR ''f''"

lemma all_lower_hex_eq:
  "sl_ptr s = Some a \<Longrightarrow> a + n \<le> length mem \<Longrightarrow> i \<le> n \<Longrightarrow>
   all_lower_hex mem s n i = Ok (list_all lower_hex (take (n - i) (drop (a + i) mem)))"
proof (induction mem s n i rule: all_lower_hex.induct)
  case (1 mem s n i)
  show ?case
  proof (cases "i < n")
    case True
    with "1.prems" have "take (n - i) (drop (a + i) mem)
        = mem ! (a + i) # take (n - Suc i) (drop (a + Suc i) mem)"
      by (subst Cons_nth_drop_Suc [symmetric]) (auto simp: take_Cons' )
    with True "1.prems" "1.IH" [OF True "1.prems"(1), of "mem ! (a + i)"] show ?thesis
      by (subst all_lower_hex.simps) (auto simp: lower_hex_def [of "mem ! (a + i)"])
  next
    case False
    then show ?thesis by (subst all_lower_hex.simps) simp
  qed
qed

lemma is_lower_hex64_eq:
  assumes "slice_in lo hi s" "hi \<le> length mem"
  shows "is_lower_hex64 mem s
    = Ok (sl_len s = 64 \<and> list_all lower_hex (slice_bytes mem s))"
proof (cases "sl_len s = 64")
  case True
  with assms obtain a where "sl_ptr s = Some a" "a + 64 \<le> length mem"
    by (auto simp: slice_in_def split: option.splits)
  with True show ?thesis
    by (simp add: is_lower_hex64_def all_lower_hex_eq slice_bytes_def)
qed (simp add: is_lower_hex64_def)

definition manifest_valid :: "byte list \<Rightarrow> md_manifest \<Rightarrow> bool" where
  "manifest_valid mem m \<longleftrightarrow> schema_version m = MD_SCHEMA_VERSION
     \<and> slice_bytes mem (tenant_id m) \<noteq> [] \<and> slice_bytes mem (artifact_name m) \<noteq> []
     \<and> slice_bytes mem (artifact_version m) \<noteq> []
     \<and> length (slice_bytes mem (sha256 m)) = 64 \<and> list_all lower_hex (slice_bytes mem (sha256 m))
     \<and> size_bytes m \<noteq> 0 \<and> slice_bytes mem (target_profile m) \<noteq> []"

lemma validate_manifest_Ok_iff:
  assumes "manifest_in lo hi m" "hi \<le> length mem"
  shows "validate_manifest mem m = Ok () \<longleftrightarrow> manifest_valid mem m"
proof -
  have e: "slice_bytes mem s \<noteq> [] \<longleftrightarrow> sl_len s \<noteq> 0" if "slice_in lo hi s" for s
    using length_slice_bytes [OF that assms(2)] by (metis length_0_conv)
  show ?thesis using assms
    by (auto simp: validate_manifest_def manifest_valid_def manifest_in_def is_lower_hex64_eq
        length_slice_bytes e split: if_splits)
qed

lemma validate_manifest_safe:
  assumes "manifest_in lo hi m" "hi \<le> length mem"
  shows "validate_manifest mem m \<noteq> Oob"
  using assms by (auto simp: validate_manifest_def manifest_in_def is_lower_hex64_eq split: if_splits)


lemma build_preimage_small [simp]:
  "length body \<le> MD_MAX_MANIFEST \<Longrightarrow> build_preimage body = Ok (MD_SIGN_CONTEXT @ body)"
  by (simp add: build_preimage_def)

text \<open>What the checks that precede the inner decode establish.\<close>

definition authenticated :: "ed25519_fn \<Rightarrow> md_pinned_key \<Rightarrow> byte list \<Rightarrow> signed_parts \<Rightarrow> bool" where
  "authenticated ed key mem p \<longleftrightarrow> slice_bytes mem (sp_alg p) = str ''ed25519''
     \<and> length (slice_bytes mem (sp_sig p)) = 64
     \<and> slice_bytes mem (sp_manifest p) \<noteq> []
     \<and> length (slice_bytes mem (sp_manifest p)) \<le> MD_MAX_MANIFEST
     \<and> slice_bytes mem (sp_key_id p) = pk_key_id key
     \<and> ed (MD_SIGN_CONTEXT @ slice_bytes mem (sp_manifest p)) (slice_bytes mem (sp_sig p)) (pk_pub key) = 1"

text \<open>After the outer decode, \<open>md_verify\<close> either rejects with one of the outer codes, or the
  received message is authenticated and the result is that of decoding and validating the inner
  manifest.\<close>

definition outer_errors :: "md_result set" where
  "outer_errors = {MD_ERR_ALG, MD_ERR_SIG_SIZE, MD_ERR_EMPTY_MANIFEST, MD_ERR_MANIFEST_TOO_BIG,
     MD_ERR_KEY_ID, MD_ERR_SIGNATURE}"

lemma md_verify_outer:
  assumes len: "len \<le> length mem" and p: "decode_signed mem 0 len = Ok p" "parts_in 0 len p"
  shows "(\<exists>e\<in>outer_errors. \<not> authenticated ed key mem p \<and> md_verify ed key mem len = Fail e)
    \<or> authenticated ed key mem p
      \<and> md_verify ed key mem len =
          cbind (decode_manifest mem (the (sl_ptr (sp_manifest p))) (sl_len (sp_manifest p)))
            (\<lambda>m. cbind (validate_manifest mem m) (\<lambda>_. Ok m))"
proof -
  from p(2) have sl: "slice_in 0 len (sp_manifest p)" "slice_in 0 len (sp_key_id p)"
    "slice_in 0 len (sp_alg p)" "slice_in 0 len (sp_sig p)" by (simp_all add: parts_in_def)
  note L = sl [THEN length_slice_bytes, OF len]
  have ld: "load_slice mem s n = Ok (slice_bytes mem s)" if "slice_in 0 len s" "sl_len s = n" for s n
    using load_slice_in [OF that(1) len] that(2) by simp
  have ne: "slice_bytes mem (sp_manifest p) = [] \<longleftrightarrow> sl_len (sp_manifest p) = 0"
    using L(1) by (metis length_0_conv)
  show ?thesis
    using p(1) sl L ne
    by (auto simp: md_verify_def authenticated_def outer_errors_def ld md_ed25519_verify_def
        split: if_splits)
qed

section \<open>The accepted manifest is a function of the signed bytes\<close>

text \<open>
  Decoding in place, at an offset of the received buffer, is decoding the bytes on their own and
  moving the slices by that offset.
\<close>

definition move_slice :: "nat \<Rightarrow> slice \<Rightarrow> slice" where
  "move_slice k s = s\<lparr>sl_ptr := map_option (\<lambda>a. k + a) (sl_ptr s)\<rparr>"

definition move_manifest :: "nat \<Rightarrow> md_manifest \<Rightarrow> md_manifest" where
  "move_manifest k m = m\<lparr>tenant_id := move_slice k (tenant_id m),
     artifact_name := move_slice k (artifact_name m),
     artifact_version := move_slice k (artifact_version m), sha256 := move_slice k (sha256 m),
     target_profile := move_slice k (target_profile m)\<rparr>"

fun map_ok :: "('a \<Rightarrow> 'b) \<Rightarrow> ('e, 'a) cres \<Rightarrow> ('e, 'b) cres" where
  "map_ok f Oob = Oob"
| "map_ok f (Fail e) = Fail e"
| "map_ok f (Ok v) = Ok (f v)"

lemma map_ok_Ok_iff: "map_ok f r = Ok w \<longleftrightarrow> (\<exists>v. r = Ok v \<and> w = f v)"
  by (cases r) auto

lemma load_window:
  "base + len \<le> length mem \<Longrightarrow> i < len \<Longrightarrow> load (take len (drop base mem)) i = load mem (base + i)"
  by (simp add: load_def)

lemma read_varint_loop_window:
  "base + len \<le> length mem \<Longrightarrow>
   read_varint_loop (take len (drop base mem)) 0 len pos shift r = read_varint_loop mem base len pos shift r"
proof (induction mem base len pos shift r rule: read_varint_loop.induct)
  case (1 mem base len pos shift r)
  show ?case
  proof (cases "pos < len \<and> shift < 64")
    case True
    with "1.prems" have l: "load mem (base + pos) = (Ok (mem ! (base + pos)) :: (unit, byte) cres)"
      by simp
    from True "1.prems" have l': "load (take len (drop base mem)) (0 + pos)
        = (Ok (mem ! (base + pos)) :: (unit, byte) cres)" by simp
    from 1(1) [OF True l refl _ "1.prems"] True show ?thesis
      by (subst (1 2) read_varint_loop.simps) (simp only: l l' cbind.simps Let_def if_True simp_thms, simp)
  next
    case False
    then show ?thesis by (subst (1 2) read_varint_loop.simps) auto
  qed
qed

lemma read_varint_window:
  "base + len \<le> length mem \<Longrightarrow>
   read_varint (take len (drop base mem)) 0 len pos = read_varint mem base len pos"
  by (simp add: read_varint_def read_varint_loop_window)

lemma skip_scalar_window:
  "base + len \<le> length mem \<Longrightarrow>
   skip_scalar (take len (drop base mem)) 0 len pos w = skip_scalar mem base len pos w"
  by (simp add: skip_scalar_def read_varint_window)

lemma read_len_delimited_window:
  "base + len \<le> length mem \<Longrightarrow>
   read_len_delimited mem base len pos =
     map_ok (\<lambda>(s, q). (move_slice base s, q)) (read_len_delimited (take len (drop base mem)) 0 len pos)"
  by (cases "read_varint mem base len pos")
    (auto simp: read_len_delimited_def read_varint_window move_slice_def)

lemma set_scalar_move [simp]: "set_scalar f v (move_manifest k m) = move_manifest k (set_scalar f v m)"
  by (simp add: set_scalar_def move_manifest_def)

lemma set_string_move [simp]:
  "set_string f (move_slice k s) (move_manifest k m) = move_manifest k (set_string f s m)"
  by (simp add: set_string_def move_manifest_def)

lemma empty_manifest_move [simp]: "move_manifest k empty_manifest = empty_manifest"
  by (simp add: move_manifest_def empty_manifest_def move_slice_def null_slice_def)

lemma decode_manifest_loop_window:
  "base + len \<le> length mem \<Longrightarrow>
   decode_manifest_loop mem base len pos (move_manifest base m) =
     map_ok (move_manifest base) (decode_manifest_loop (take len (drop base mem)) 0 len pos m)"
proof (induction "take len (drop base mem)" "0::nat" len pos m rule: decode_manifest_loop.induct)
  case (1 len pos m)
  let ?w = "take len (drop base mem)"
  show ?case
  proof (cases "pos < len")
    case False
    then show ?thesis by (subst (1 2) decode_manifest_loop.simps) simp
  next
    case True
    show ?thesis
    proof (cases "read_varint ?w 0 len pos")
      case (Ok x)
      then obtain tag pos1 where w: "read_varint ?w 0 len pos = Ok (tag, pos1)" by (cases x) auto
      note IH = "1.hyps" [OF True, unfolded on_err_Ok_iff, OF w refl]
      from w have w': "read_varint mem base len pos = Ok (tag, pos1)"
        by (simp add: read_varint_window "1.prems")
      consider (scalar) "tag_wire tag = 0" | (bytes) "tag_wire tag = 2"
        | (other) "tag_wire tag \<noteq> 0" "tag_wire tag \<noteq> 2" by blast
      then show ?thesis
      proof cases
        case scalar
        with True w w' "1.prems" IH(1) [OF scalar _ refl] show ?thesis
          by (subst (1 2) decode_manifest_loop.simps, cases "read_varint ?w 0 len pos1")
            (auto simp: read_varint_window)
      next
        case bytes
        with True w w' "1.prems" IH(2) [OF _ bytes _ refl] show ?thesis
          by (subst (1 2) decode_manifest_loop.simps, cases "read_len_delimited ?w 0 len pos1")
            (auto simp: read_len_delimited_window [OF "1.prems", of pos1])
      next
        case other
        with True w w' "1.prems" IH(3) [OF other] show ?thesis
          by (subst (1 2) decode_manifest_loop.simps, cases "skip_scalar ?w 0 len pos1 (tag_wire tag)")
            (auto simp: skip_scalar_window)
      qed
    qed (use True "1.prems" in \<open>(subst (1 2) decode_manifest_loop.simps, simp add: read_varint_window)+\<close>)
  qed
qed

text \<open>The content of a decoded manifest, its slices replaced by the bytes they denote.\<close>

record manifest_view =
  v_schema :: u32
  v_tenant :: "byte list"
  v_name :: "byte list"
  v_version :: "byte list"
  v_sha256 :: "byte list"
  v_size :: u64
  v_profile :: "byte list"
  v_counter :: u64
  v_issued :: u64

definition view :: "byte list \<Rightarrow> md_manifest \<Rightarrow> manifest_view" where
  "view mem m = \<lparr>v_schema = schema_version m, v_tenant = slice_bytes mem (tenant_id m),
     v_name = slice_bytes mem (artifact_name m), v_version = slice_bytes mem (artifact_version m),
     v_sha256 = slice_bytes mem (sha256 m), v_size = size_bytes m,
     v_profile = slice_bytes mem (target_profile m), v_counter = rollback_counter m,
     v_issued = issued_at_unix m\<rparr>"

definition valid_view :: "manifest_view \<Rightarrow> bool" where
  "valid_view v \<longleftrightarrow> v_schema v = MD_SCHEMA_VERSION \<and> v_tenant v \<noteq> [] \<and> v_name v \<noteq> []
     \<and> v_version v \<noteq> [] \<and> length (v_sha256 v) = 64 \<and> list_all lower_hex (v_sha256 v)
     \<and> v_size v \<noteq> 0 \<and> v_profile v \<noteq> []"

definition decode_body :: "byte list \<Rightarrow> manifest_view option" where
  "decode_body body = (case decode_manifest body 0 (length body) of
     Ok m \<Rightarrow> Some (view body m) | _ \<Rightarrow> None)"

lemma valid_view_iff: "valid_view (view mem m) \<longleftrightarrow> manifest_valid mem m"
  by (simp add: valid_view_def view_def manifest_valid_def)

lemma slice_bytes_move:
  "slice_in 0 len s \<Longrightarrow> base + len \<le> length mem \<Longrightarrow>
   slice_bytes mem (move_slice base s) = slice_bytes (take len (drop base mem)) s"
  by (auto simp: slice_in_def slice_bytes_def move_slice_def drop_take min_absorb1
      add.commute split: option.splits)

lemma view_move:
  "manifest_in 0 len m \<Longrightarrow> base + len \<le> length mem \<Longrightarrow>
   view mem (move_manifest base m) = view (take len (drop base mem)) m"
  by (simp add: view_def move_manifest_def manifest_in_def slice_bytes_move)

lemma decode_manifest_window:
  assumes "base + len \<le> length mem" "decode_manifest mem base len = Ok m"
  shows "decode_body (take len (drop base mem)) = Some (view mem m)"
proof -
  let ?w = "take len (drop base mem)"
  have w: "length ?w = len" using assms(1) by simp
  from decode_manifest_loop_window [OF assms(1), of 0 empty_manifest] assms(2)
  obtain m0 where m0: "decode_manifest ?w 0 len = Ok m0" "m = move_manifest base m0"
    by (auto simp: decode_manifest_def map_ok_Ok_iff)
  with decode_manifest_safe(3) [of 0 len ?w] w have "manifest_in 0 len m0" by simp
  with m0 w view_move [OF this assms(1)] show ?thesis by (simp add: decode_body_def)
qed

end
