(* ===== verification/Manifest_Wire.thy ===== *)
theory Manifest_Wire
  imports Manifest_Verify
begin

text \<open>
  The wire format the verifier is written against: the protobuf encoding of the two messages, as a
  reference for the decoders. The decoders are shown to invert it, for every value.
\<close>

section \<open>Encoders\<close>

lemma unat_drop_bit: "unat (drop_bit n v) = unat v div 2 ^ n" for v :: "'a::len word"
  by (subst unat_drop_bit_eq) (rule drop_bit_eq_div)

function enc_varint :: "u64 \<Rightarrow> byte list" where
  "enc_varint v =
     (if v < 128 then [ucast v] else (ucast v OR 128) # enc_varint (drop_bit 7 v))"
  by pat_completeness auto
termination
  by (relation "measure unat") (auto simp: unat_drop_bit not_less word_le_nat_alt div_less_dividend)

declare enc_varint.simps [simp del]

definition enc_tag :: "u32 \<Rightarrow> u64 \<Rightarrow> byte list" where
  "enc_tag field wire = enc_varint (push_bit 3 (ucast field) OR wire)"

datatype pfield = Scalar u32 u64 | Bytes u32 "byte list"

fun enc_field :: "pfield \<Rightarrow> byte list" where
  "enc_field (Scalar f v) = enc_tag f 0 @ enc_varint v"
| "enc_field (Bytes f bs) = enc_tag f 2 @ enc_varint (of_nat (length bs)) @ bs"

text \<open>The slice a length-delimited field at address \<open>a\<close> decodes to.\<close>

definition field_slice :: "nat \<Rightarrow> u32 \<Rightarrow> byte list \<Rightarrow> slice" where
  "field_slice a f bs = \<lparr>sl_ptr = Some (a + length (enc_tag f 2)
     + length (enc_varint (of_nat (length bs)))), sl_len = length bs\<rparr>"

fun fields_signed :: "nat \<Rightarrow> pfield list \<Rightarrow> signed_parts \<Rightarrow> signed_parts" where
  "fields_signed a [] p = p"
| "fields_signed a (Scalar f v # fs) p = fields_signed (a + length (enc_field (Scalar f v))) fs p"
| "fields_signed a (Bytes f bs # fs) p =
     fields_signed (a + length (enc_field (Bytes f bs))) fs (set_signed f (field_slice a f bs) p)"

fun fields_manifest :: "nat \<Rightarrow> pfield list \<Rightarrow> md_manifest \<Rightarrow> md_manifest" where
  "fields_manifest a [] m = m"
| "fields_manifest a (Scalar f v # fs) m =
     fields_manifest (a + length (enc_field (Scalar f v))) fs (set_scalar f v m)"
| "fields_manifest a (Bytes f bs # fs) m =
     fields_manifest (a + length (enc_field (Bytes f bs))) fs (set_string f (field_slice a f bs) m)"

section \<open>Bit-level facts of the varint and the tag\<close>

lemma bit_127: "bit (127 :: int) n \<longleftrightarrow> n < 7"
proof -
  have m: "(127 :: int) = mask 7" by (simp add: mask_eq_exp_minus_1)
  show ?thesis by (simp only: m bit_mask_iff) simp
qed

lemma bit_128: "bit (128 :: int) n \<longleftrightarrow> n = 7"
proof -
  have m: "(128 :: int) = 2 ^ 7" by simp
  show ?thesis by (simp only: m bit_exp_iff) auto
qed

lemma bit_7: "bit (7 :: int) n \<longleftrightarrow> n < 3"
proof -
  have m: "(7 :: int) = mask 3" by (simp add: mask_eq_exp_minus_1)
  show ?thesis by (simp only: m bit_mask_iff) simp
qed

lemmas bit_ops = bit_or_iff bit_and_iff bit_push_bit_iff bit_drop_bit_eq bit_ucast_iff bit_127 bit_128 bit_7

lemma word_split7: "(v AND 127) OR push_bit 7 (drop_bit 7 v) = (v :: u64)"
proof (rule bit_word_eqI)
  fix n
  assume "n < LENGTH(64)"
  then show "bit ((v AND 127) OR push_bit 7 (drop_bit 7 v)) n = bit v n"
    by (cases "n < 7") (auto simp: bit_ops)
qed

lemma ucast_low7: "ucast ((ucast v OR 128 :: byte) AND 127) = (v AND 127 :: u64)"
  by (rule bit_word_eqI) (auto simp: bit_ops)

lemma continuation_bit: "(ucast (v :: u64) OR 128 :: byte) AND 128 \<noteq> 0"
  by (auto simp: bit_eq_iff bit_ops intro: exI [of _ 7])

lemma final_byte:
  fixes v :: u64
  assumes "v < 128"
  shows "ucast ((ucast v :: byte) AND 127) = v" and "(ucast v :: byte) AND 128 = 0"
proof -
  from assms have b: "bit v n \<Longrightarrow> n < 7" for n using bit_lt_exp [of v 7] by simp
  show "ucast ((ucast v :: byte) AND 127) = v"
    by (rule bit_word_eqI) (auto simp: bit_ops dest: b)
  show "(ucast v :: byte) AND 128 = 0"
    by (rule bit_word_eqI) (auto simp: bit_ops dest: b)
qed

lemma tag_field_enc:
  fixes wire :: u64
  assumes "wire < 8"
  shows "tag_field (push_bit 3 (ucast f) OR wire) = f"
proof -
  from assms have b: "bit wire n \<Longrightarrow> n < 3" for n using bit_lt_exp [of wire 3] by simp
  show ?thesis unfolding tag_field_def
    by (rule bit_word_eqI) (auto simp: bit_ops dest: b)
qed

lemma tag_wire_enc:
  fixes wire :: u64
  assumes "wire < 8"
  shows "tag_wire (push_bit 3 (ucast f) OR wire) = ucast wire"
proof -
  from assms have b: "bit wire n \<Longrightarrow> n < 3" for n using bit_lt_exp [of wire 3] by simp
  show ?thesis unfolding tag_wire_def
    by (rule bit_word_eqI) (auto simp: bit_ops dest: b)
qed

section \<open>Decoding an encoding\<close>

lemma read_varint_loop_enc:
  "bytes_at mem (base + pos) (enc_varint v) \<Longrightarrow> pos + length (enc_varint v) \<le> len \<Longrightarrow>
   s < 64 \<Longrightarrow> unat v < 2 ^ (64 - s) \<Longrightarrow>
   read_varint_loop mem base len pos s r = Ok (r OR push_bit s v, pos + length (enc_varint v))"
proof (induction v arbitrary: pos s r rule: enc_varint.induct)
  case (1 v)
  show ?case
  proof (cases "v < 128")
    case True
    then have e: "enc_varint v = [ucast v]" by (subst enc_varint.simps) simp
    with "1.prems" final_byte [OF True] show ?thesis
      by (subst read_varint_loop.simps) (simp add: bytes_at_Cons Let_def)
  next
    case False
    then have e: "enc_varint v = (ucast v OR 128) # enc_varint (drop_bit 7 v)"
      by (subst enc_varint.simps) simp
    from False have "2 ^ 7 \<le> unat v" by (simp add: word_le_nat_alt not_less)
    with "1.prems"(4) have "(2::nat) ^ 7 < 2 ^ (64 - s)" by linarith
    then have s: "7 < 64 - s" by (rule power_less_imp_less_exp [rotated]) simp
    from s have "64 - s = (64 - (s + 7)) + 7" by simp
    with "1.prems"(4) have "unat v < 2 ^ (64 - (s + 7)) * 2 ^ 7" by (metis power_add)
    then have "unat (drop_bit 7 v) < 2 ^ (64 - (s + 7))"
      by (simp add: unat_drop_bit less_mult_imp_div_less)
    with "1.IH" [OF False, of "pos + 1" "s + 7" "r OR push_bit s (v AND 127)"] "1.prems"(1,2) e s
    have "read_varint_loop mem base len (pos + 1) (s + 7) (r OR push_bit s (v AND 127))
        = Ok ((r OR push_bit s (v AND 127)) OR push_bit (s + 7) (drop_bit 7 v),
              pos + length (enc_varint v))"
      by (simp add: bytes_at_Cons)
    moreover have "(r OR push_bit s (v AND 127)) OR push_bit (s + 7) (drop_bit 7 v) = r OR push_bit s v"
      by (subst (3) word_split7 [symmetric]) (simp add: push_bit_or or.assoc add.commute)
    ultimately show ?thesis
      using "1.prems"(1,2,3) e continuation_bit [of v]
      by (subst read_varint_loop.simps) (simp add: bytes_at_Cons Let_def ucast_low7)
  qed
qed

lemma read_varint_enc:
  assumes "bytes_at mem (base + pos) (enc_varint v)" "pos + length (enc_varint v) \<le> len"
  shows "read_varint mem base len pos = Ok (v, pos + length (enc_varint v))"
  using read_varint_loop_enc [OF assms, of 0 0] unsigned_less [of v]
  by (simp add: read_varint_def)

lemma read_len_delimited_enc:
  assumes "bytes_at mem (base + pos) (enc_varint (of_nat (length bs)) @ bs)"
    "pos + length (enc_varint (of_nat (length bs)) @ bs) \<le> len" "len < 2 ^ 64"
  shows "read_len_delimited mem base len pos =
    Ok (\<lparr>sl_ptr = Some (base + pos + length (enc_varint (of_nat (length bs)))), sl_len = length bs\<rparr>,
        pos + length (enc_varint (of_nat (length bs)) @ bs))"
proof -
  let ?n = "of_nat (length bs) :: u64"
  have un: "unat ?n = length bs" using assms(2,3) by (simp add: unat_of_nat)
  let ?k = "len - (pos + length (enc_varint ?n))"
  have "unat (of_nat ?k :: u64) = ?k" using assms(3) by (simp only: unat_of_nat) simp
  then have small: "\<not> ?n > of_nat ?k"
    unfolding not_less word_le_nat_alt un using assms(2) by simp
  have "read_varint mem base len pos = Ok (?n, pos + length (enc_varint ?n))"
    using assms(1,2) by (intro read_varint_enc) (simp_all add: bytes_at_append)
  with small un show ?thesis
    by (simp add: read_len_delimited_def add.assoc del: of_nat_diff)
qed

lemma read_tag_enc:
  assumes "bytes_at mem (base + pos) (enc_tag f w)" "pos + length (enc_tag f w) \<le> len" "w < 8"
  obtains tag where "read_varint mem base len pos = Ok (tag, pos + length (enc_tag f w))"
    "tag_field tag = f" "tag_wire tag = ucast w"
  using read_varint_enc [OF assms(1,2) [unfolded enc_tag_def]] tag_field_enc [OF assms(3)]
    tag_wire_enc [OF assms(3)] that unfolding enc_tag_def by blast

lemma enc_varint_ne [simp]: "enc_varint v \<noteq> []"
  by (subst enc_varint.simps) simp

lemma enc_field_ne [simp]: "length (enc_field x) > 0"
  by (cases x) (simp_all add: enc_tag_def)

lemma decode_manifest_loop_enc:
  "bytes_at mem (base + pos) (concat (map enc_field fs)) \<Longrightarrow>
   len = pos + length (concat (map enc_field fs)) \<Longrightarrow> len < 2 ^ 64 \<Longrightarrow>
   decode_manifest_loop mem base len pos m = Ok (fields_manifest (base + pos) fs m)"
proof (induction fs arbitrary: pos m)
  case Nil
  then show ?case by (subst decode_manifest_loop.simps) simp
next
  case (Cons x fs)
  let ?n = "length (enc_field x)"
  from Cons.prems have at: "bytes_at mem (base + pos) (enc_field x)"
    and rest: "bytes_at mem (base + (pos + ?n)) (concat (map enc_field fs))"
    and len: "len = pos + ?n + length (concat (map enc_field fs))"
    by (auto simp: bytes_at_append add.assoc)
  note IH = Cons.IH [OF rest len Cons.prems(3)]
  have pos: "pos < len" using len enc_field_ne [of x] by linarith
  show ?case
  proof (cases x)
    case (Scalar f v)
    with at len obtain tag where "read_varint mem base len pos = Ok (tag, pos + length (enc_tag f 0))"
      "tag_field tag = f" "tag_wire tag = 0"
      by (auto simp: bytes_at_append elim: read_tag_enc [of mem base pos f 0 len])
    moreover from at len Scalar have
      "read_varint mem base len (pos + length (enc_tag f 0)) = Ok (v, pos + ?n)"
      by (subst read_varint_enc) (simp_all add: bytes_at_append add.assoc)
    ultimately show ?thesis using pos IH Scalar
      by (subst decode_manifest_loop.simps) (simp add: add.assoc)
  next
    case (Bytes f bs)
    with at len obtain tag where "read_varint mem base len pos = Ok (tag, pos + length (enc_tag f 2))"
      "tag_field tag = f" "tag_wire tag = 2"
      by (auto simp: bytes_at_append elim: read_tag_enc [of mem base pos f 2 len])
    moreover from at len Bytes Cons.prems(3) have
      "read_len_delimited mem base len (pos + length (enc_tag f 2))
        = Ok (field_slice (base + pos) f bs, pos + ?n)"
      by (subst read_len_delimited_enc) (simp_all add: bytes_at_append add.assoc field_slice_def)
    ultimately show ?thesis using pos IH Bytes
      by (subst decode_manifest_loop.simps) (simp add: add.assoc)
  qed
qed

lemma decode_signed_loop_enc:
  "bytes_at mem (base + pos) (concat (map enc_field fs)) \<Longrightarrow>
   len = pos + length (concat (map enc_field fs)) \<Longrightarrow> len < 2 ^ 64 \<Longrightarrow>
   decode_signed_loop mem base len pos p = Ok (fields_signed (base + pos) fs p)"
proof (induction fs arbitrary: pos p)
  case Nil
  then show ?case by (subst decode_signed_loop.simps) simp
next
  case (Cons x fs)
  let ?n = "length (enc_field x)"
  from Cons.prems have at: "bytes_at mem (base + pos) (enc_field x)"
    and rest: "bytes_at mem (base + (pos + ?n)) (concat (map enc_field fs))"
    and len: "len = pos + ?n + length (concat (map enc_field fs))"
    by (auto simp: bytes_at_append add.assoc)
  note IH = Cons.IH [OF rest len Cons.prems(3)]
  have pos: "pos < len" using len enc_field_ne [of x] by linarith
  show ?case
  proof (cases x)
    case (Scalar f v)
    with at len obtain tag where "read_varint mem base len pos = Ok (tag, pos + length (enc_tag f 0))"
      "tag_field tag = f" "tag_wire tag = 0"
      by (auto simp: bytes_at_append elim: read_tag_enc [of mem base pos f 0 len])
    moreover from at len Scalar have
      "read_varint mem base len (pos + length (enc_tag f 0)) = Ok (v, pos + ?n)"
      by (subst read_varint_enc) (simp_all add: bytes_at_append add.assoc)
    ultimately show ?thesis using pos IH Scalar
      by (subst decode_signed_loop.simps) (simp add: skip_scalar_def add.assoc)
  next
    case (Bytes f bs)
    with at len obtain tag where "read_varint mem base len pos = Ok (tag, pos + length (enc_tag f 2))"
      "tag_field tag = f" "tag_wire tag = 2"
      by (auto simp: bytes_at_append elim: read_tag_enc [of mem base pos f 2 len])
    moreover from at len Bytes Cons.prems(3) have
      "read_len_delimited mem base len (pos + length (enc_tag f 2))
        = Ok (field_slice (base + pos) f bs, pos + ?n)"
      by (subst read_len_delimited_enc) (simp_all add: bytes_at_append add.assoc field_slice_def)
    ultimately show ?thesis using pos IH Bytes
      by (subst decode_signed_loop.simps) (simp add: add.assoc)
  qed
qed

section \<open>The canonical encodings and the round trip\<close>

definition manifest_fields :: "manifest_view \<Rightarrow> pfield list" where
  "manifest_fields v = [Scalar 1 (ucast (v_schema v)), Bytes 2 (v_tenant v), Bytes 3 (v_name v),
     Bytes 4 (v_version v), Bytes 5 (v_sha256 v), Scalar 6 (v_size v), Bytes 7 (v_profile v),
     Scalar 8 (v_counter v), Scalar 9 (v_issued v)]"

definition enc_manifest :: "manifest_view \<Rightarrow> byte list" where
  "enc_manifest v = concat (map enc_field (manifest_fields v))"

definition enc_signed :: "byte list \<Rightarrow> byte list \<Rightarrow> byte list \<Rightarrow> byte list \<Rightarrow> byte list" where
  "enc_signed body kid alg sig =
     concat (map enc_field [Bytes 1 body, Bytes 2 kid, Bytes 3 alg, Bytes 4 sig])"

lemma field_slice_bytes:
  assumes "bytes_at mem a (enc_field (Bytes f bs))"
  shows "slice_bytes mem (field_slice a f bs) = bs"
  using assms by (simp add: field_slice_def slice_bytes_def bytes_at_append) (simp add: bytes_at_def add.assoc)

lemma field_slice_sel [simp]: "sl_len (field_slice a f bs) = length bs"
  by (simp add: field_slice_def)

lemma ucast_ucast_u32: "ucast (ucast (x :: u32) :: u64) = x"
  by (rule bit_word_eqI) (auto simp: bit_ucast_iff)

lemma decode_body_enc:
  assumes "length (enc_manifest v) < 2 ^ 64"
  shows "decode_body (enc_manifest v) = Some v"
proof -
  let ?b = "enc_manifest v"
  have at: "bytes_at ?b (0 + 0) (concat (map enc_field (manifest_fields v)))"
    by (simp add: enc_manifest_def bytes_at_all)
  have d: "decode_manifest ?b 0 (length ?b)
      = Ok (fields_manifest 0 (manifest_fields v) empty_manifest)"
    using decode_manifest_loop_enc [OF at _ assms, of empty_manifest]
    by (simp add: decode_manifest_def enc_manifest_def)
  have "view ?b (fields_manifest 0 (manifest_fields v) empty_manifest) = v"
    using at
    by (simp add: manifest_fields_def view_def set_scalar_def set_string_def empty_manifest_def
        bytes_at_append field_slice_bytes ucast_ucast_u32 del: enc_field.simps)
  with d show ?thesis by (simp add: decode_body_def)
qed

lemma decode_signed_enc:
  assumes "buf = enc_signed body kid alg sig" and "length buf < 2 ^ 64"
  obtains p where "decode_signed buf 0 (length buf) = Ok p" "parts_in 0 (length buf) p"
    "slice_bytes buf (sp_manifest p) = body" "slice_bytes buf (sp_key_id p) = kid"
    "slice_bytes buf (sp_alg p) = alg" "slice_bytes buf (sp_sig p) = sig"
proof -
  let ?fs = "[Bytes 1 body, Bytes 2 kid, Bytes 3 alg, Bytes 4 sig]"
  let ?p = "fields_signed 0 ?fs no_parts"
  have at: "bytes_at buf (0 + 0) (concat (map enc_field ?fs))"
    by (simp add: assms(1) enc_signed_def bytes_at_all)
  have d: "decode_signed buf 0 (length buf) = Ok ?p"
    using decode_signed_loop_enc [OF at _ assms(2), of no_parts]
    by (simp add: decode_signed_def assms(1) enc_signed_def)
  have "parts_in 0 (length buf) ?p"
    using decode_signed_safe(3) [of 0 "length buf" buf] d by simp
  moreover have "slice_bytes buf (sp_manifest ?p) = body" "slice_bytes buf (sp_key_id ?p) = kid"
    "slice_bytes buf (sp_alg ?p) = alg" "slice_bytes buf (sp_sig ?p) = sig"
    using at by (simp_all add: set_signed_def bytes_at_append field_slice_bytes del: enc_field.simps)
  ultimately show ?thesis using d that by blast
qed

lemma decode_manifest_in_place:
  assumes "a + n \<le> length mem" and "decode_body (take n (drop a mem)) = Some v"
  obtains m where "decode_manifest mem a n = Ok m" "view mem m = v" "manifest_in a (a + n) m"
proof (cases "decode_manifest mem a n")
  case (Ok m)
  with decode_manifest_window [OF assms(1) Ok] decode_manifest_safe(3) [OF assms(1) Ok] assms(2) that
  show ?thesis by simp
next
  case (Fail e)
  with decode_manifest_loop_window [OF assms(1), of 0 empty_manifest] assms show ?thesis
    by (auto simp: decode_body_def decode_manifest_def min_absorb2 split: cres.splits)
qed (use decode_manifest_safe(1) [OF assms(1)] in simp)

section \<open>Properties of the verifier\<close>

text \<open>A concrete signed manifest, and a signature check that accepts one signature under one key.\<close>

definition sample_view :: manifest_view where
  "sample_view = \<lparr>v_schema = 1, v_tenant = [116], v_name = [97], v_version = [49],
     v_sha256 = replicate 64 48, v_size = 300, v_profile = [112], v_counter = 7, v_issued = 0\<rparr>"

definition sample_key :: md_pinned_key where
  "sample_key = \<lparr>pk_pub = replicate 32 1, pk_key_id = [107]\<rparr>"

definition sample_ed :: ed25519_fn where
  "sample_ed msg sig pub = (if sig = replicate 64 2 \<and> pub = replicate 32 1 then 1 else 0)"

definition sample_buf :: "byte list" where
  "sample_buf = enc_signed (enc_manifest sample_view) (pk_key_id sample_key) (str ''ed25519'')
     (replicate 64 2)"

lemma md_verify_sound:
  assumes "len \<le> length mem" and "md_verify ed key mem len = Ok m"
  shows "\<exists>body sig. ed (MD_SIGN_CONTEXT @ body) sig (pk_pub key) = 1 \<and> length sig = 64
    \<and> body \<noteq> [] \<and> length body \<le> MD_MAX_MANIFEST
    \<and> decode_body body = Some (view mem m) \<and> valid_view (view mem m)"
    "manifest_in 0 len m"
proof -
  from assms obtain p where p: "decode_signed mem 0 len = Ok p" "parts_in 0 len p"
    using decode_signed_safe(3) [of 0 len mem] by (auto simp: md_verify_def cbind_Ok_iff)
  from md_verify_outer [OF assms(1) p, of ed key] assms(2)
  have au: "authenticated ed key mem p"
    and dm: "decode_manifest mem (the (sl_ptr (sp_manifest p))) (sl_len (sp_manifest p)) = Ok m"
    and va: "validate_manifest mem m = Ok ()"
    by (auto simp: cres_simps)
  from p(2) have sl: "slice_in 0 len (sp_manifest p)" by (simp add: parts_in_def)
  with au obtain a where a: "sl_ptr (sp_manifest p) = Some a" "a + sl_len (sp_manifest p) \<le> len"
    by (auto simp: authenticated_def slice_in_def slice_bytes_def split: option.splits)
  with assms(1) have in_mem: "a + sl_len (sp_manifest p) \<le> length mem" by simp
  from decode_manifest_safe(3) [OF in_mem] dm a
  have mi: "manifest_in a (a + sl_len (sp_manifest p)) m" by simp
  then show "manifest_in 0 len m" using a(2) by (auto simp: manifest_in_def slice_in_def split: option.splits)
  from mi in_mem va have "valid_view (view mem m)"
    by (simp add: validate_manifest_Ok_iff valid_view_iff)
  moreover from decode_manifest_window [OF in_mem] dm a
  have "decode_body (slice_bytes mem (sp_manifest p)) = Some (view mem m)"
    by (simp add: slice_bytes_def)
  ultimately show "\<exists>body sig. ed (MD_SIGN_CONTEXT @ body) sig (pk_pub key) = 1 \<and> length sig = 64
    \<and> body \<noteq> [] \<and> length body \<le> MD_MAX_MANIFEST
    \<and> decode_body body = Some (view mem m) \<and> valid_view (view mem m)" using au by (auto simp: authenticated_def)
qed

text \<open>C15. A manifest that \<open>md_verify\<close> accepts is authentic: the Ed25519 check held, under the pinned
  public key, for the domain-separation context followed by a nonempty body of at most 512 bytes and
  a 64-byte signature, and everything the accepted manifest says is the decoding of that very
  body and satisfies every field rule (schema 1, nonempty names, a 64-digit lower-case hex digest,
  a nonzero size).\<close>

theorem md_verify_authentic:
  assumes "len \<le> length mem" and "md_verify ed key mem len = Ok m"
  shows "\<exists>body sig. ed (MD_SIGN_CONTEXT @ body) sig (pk_pub key) = 1 \<and> length sig = 64
    \<and> body \<noteq> [] \<and> length body \<le> MD_MAX_MANIFEST
    \<and> decode_body body = Some (view mem m) \<and> valid_view (view mem m)"
  by (rule md_verify_sound [OF assms])

theorem md_verify_authentic_witness:
  "\<exists>m body sig. md_verify sample_ed sample_key sample_buf (length sample_buf) = Ok m
    \<and> sample_ed (MD_SIGN_CONTEXT @ body) sig (pk_pub sample_key) = 1
    \<and> decode_body body = Some (view sample_buf m) \<and> rollback_counter m = 7"
proof -
  have "case md_verify sample_ed sample_key sample_buf (length sample_buf) of
      Ok m \<Rightarrow> rollback_counter m = 7 | _ \<Rightarrow> False"
    by code_simp
  then obtain m where "md_verify sample_ed sample_key sample_buf (length sample_buf) = Ok m"
    "rollback_counter m = 7" by (auto split: cres.splits)
  with md_verify_authentic [OF order.refl this(1)] show ?thesis by blast
qed

lemma md_verify_no_oob:
  assumes "len \<le> length mem"
  shows "md_verify ed key mem len \<noteq> Oob"
proof (cases "decode_signed mem 0 len")
  case (Ok p)
  then have p: "decode_signed mem 0 len = Ok p" "parts_in 0 len p"
    using decode_signed_safe(3) [of 0 len mem] assms by simp_all
  then have sl: "slice_in 0 len (sp_manifest p)" by (simp add: parts_in_def)
  let ?a = "the (sl_ptr (sp_manifest p))" and ?n = "sl_len (sp_manifest p)"
  show ?thesis using md_verify_outer [OF assms p, of ed key]
  proof (elim disjE bexE conjE)
    assume "authenticated ed key mem p"
    with sl assms have in_mem: "?a + ?n \<le> length mem"
      by (auto simp: authenticated_def slice_in_def slice_bytes_def split: option.splits)
    from decode_manifest_safe(1,3) [OF in_mem] validate_manifest_safe [OF _ in_mem]
    have "decode_manifest mem ?a ?n \<noteq> Oob"
        "\<And>m. decode_manifest mem ?a ?n = Ok m \<Longrightarrow> validate_manifest mem m \<noteq> Oob" by blast+
    moreover assume "md_verify ed key mem len =
          cbind (decode_manifest mem ?a ?n) (\<lambda>m. cbind (validate_manifest mem m) (\<lambda>_. Ok m))"
    ultimately show ?thesis by (auto simp: cbind_Oob_iff)
  qed simp
qed (use assms decode_signed_safe(1) [of 0 len mem] in \<open>simp_all add: md_verify_def\<close>)

text \<open>C18. Memory safety of parsing untrusted bytes: whenever the received buffer holds at least
  \<open>len\<close> bytes, no input makes \<open>md_verify\<close> read outside it, read through a NULL field pointer, or
  write outside the stack preimage. (With a buffer of exactly \<open>len\<close> bytes: no read at or past
  \<open>len\<close>.)\<close>

theorem md_verify_memory_safe:
  assumes "len \<le> length mem"
  shows "md_verify ed key mem len \<noteq> Oob"
  by (rule md_verify_no_oob [OF assms])

theorem md_verify_memory_safe_witness:
  "md_verify sample_ed sample_key [18, 255, 255, 1] 4 \<noteq> Oob
    \<and> md_verify sample_ed sample_key [18, 255, 255, 1] 4 = Fail MD_ERR_DECODE"
  using md_verify_memory_safe [of 4 "[18, 255, 255, 1]" sample_ed sample_key] by code_simp



lemma md_verify_accepts:
  assumes "valid_view v" and "length (enc_manifest v) \<le> MD_MAX_MANIFEST" and "length sig = 64"
    and "ed (MD_SIGN_CONTEXT @ enc_manifest v) sig (pk_pub key) = 1"
    and "buf = enc_signed (enc_manifest v) (pk_key_id key) (str ''ed25519'') sig"
    and "length buf < 2 ^ 64"
  shows "\<exists>m. md_verify ed key buf (length buf) = Ok m \<and> view buf m = v"
proof -
  let ?body = "enc_manifest v"
  obtain p where p: "decode_signed buf 0 (length buf) = Ok p" "parts_in 0 (length buf) p"
    and parts: "slice_bytes buf (sp_manifest p) = ?body" "slice_bytes buf (sp_key_id p) = pk_key_id key"
      "slice_bytes buf (sp_alg p) = str ''ed25519''" "slice_bytes buf (sp_sig p) = sig"
    using assms(5,6) by (rule decode_signed_enc)
  have ne: "?body \<noteq> []"
    by (simp add: enc_manifest_def manifest_fields_def enc_tag_def)
  with parts assms(2-4) have au: "authenticated ed key buf p" by (simp add: authenticated_def)
  obtain a where a: "sl_ptr (sp_manifest p) = Some a" "a + sl_len (sp_manifest p) \<le> length buf"
    using parts(1) ne p(2) by (auto simp: parts_in_def slice_in_def slice_bytes_def split: option.splits)
  moreover have "decode_body (take (sl_len (sp_manifest p)) (drop a buf)) = Some v"
    using parts(1) a(1) assms(2) decode_body_enc [of v] by (simp add: slice_bytes_def MD_MAX_MANIFEST_def)
  ultimately obtain m where m: "decode_manifest buf a (sl_len (sp_manifest p)) = Ok m"
    "view buf m = v" "manifest_in a (a + sl_len (sp_manifest p)) m"
    by (auto intro: decode_manifest_in_place)
  with validate_manifest_Ok_iff [OF m(3) a(2)] assms(1) have "validate_manifest buf m = Ok ()"
    by (metis valid_view_iff)
  with md_verify_outer [OF order.refl p, of ed key] au m a(1) show ?thesis by auto
qed

text \<open>C20. Completeness and round trip: the canonical protobuf encoding of every valid manifest of at
  most 512 bytes, wrapped with the pinned key id, the algorithm name and a 64-byte signature the
  primitive accepts, is accepted by \<open>md_verify\<close>, and the decoded manifest is the one encoded.\<close>

theorem md_verify_roundtrip:
  assumes "valid_view v" and "length (enc_manifest v) \<le> MD_MAX_MANIFEST" and "length sig = 64"
    and "ed (MD_SIGN_CONTEXT @ enc_manifest v) sig (pk_pub key) = 1"
    and "buf = enc_signed (enc_manifest v) (pk_key_id key) (str ''ed25519'') sig"
    and "length buf < 2 ^ 64"
  shows "\<exists>m. md_verify ed key buf (length buf) = Ok m \<and> view buf m = v"
  by (rule md_verify_accepts) (rule assms)+

theorem md_verify_roundtrip_witness:
  "\<exists>m. md_verify sample_ed sample_key sample_buf (length sample_buf) = Ok m
    \<and> view sample_buf m = sample_view"
proof (rule md_verify_roundtrip [OF _ _ _ _ sample_buf_def])
  show "valid_view sample_view" by code_simp
  show "length (enc_manifest sample_view) \<le> MD_MAX_MANIFEST" by code_simp
  show "sample_ed (MD_SIGN_CONTEXT @ enc_manifest sample_view) (replicate 64 2) (pk_pub sample_key) = 1"
    by code_simp
  have "length sample_buf \<le> 512" by code_simp
  then show "length sample_buf < 2 ^ 64" by simp
qed simp

text \<open>C33. A varint of ten bytes whose value needs more than 64 bits is not rejected: after nine
  \<open>0xff\<close> bytes, any last byte is accepted and only its lowest bit reaches the value. (The comment of
  \<open>read_varint\<close> says a value of more than 64 bits is refused.)\<close>

theorem read_varint_overlong_accepted:
  assumes "b AND 0x80 = 0"
  shows "read_varint (replicate 9 255 @ [b]) 0 10 0
    = Ok (push_bit 63 (ucast b) OR 9223372036854775807, 10)"
proof -
  let ?mem = "replicate 9 255 @ [b] :: byte list"
  let ?run = "\<lambda>i k. read_varint_loop ?mem 0 10 i k (mask k)"
  have step: "?run i k = ?run (i + 1) (k + 7)" if "i < 9" "k = 7 * i" for i k
  proof -
    have "mask k OR push_bit k 127 = (mask (k + 7) :: u64)"
      by (rule bit_word_eqI) (auto simp: bit_ops bit_mask_iff)
    with that show ?thesis
      by (subst read_varint_loop.simps) (simp add: Let_def nth_append)
  qed
  have "?run 0 0 = ?run n (7 * n)" if "n \<le> 9" for n
    using that
  proof (induction n)
    case (Suc n)
    have "7 * Suc n = 7 * n + 7" by simp
    with Suc step [of n "7 * n"] show ?case by (metis Suc_eq_plus1 Suc_leD Suc_le_lessD)
  qed simp
  from this [of 9] have "read_varint ?mem 0 10 0 = read_varint_loop ?mem 0 10 9 63 (mask 63)"
    by (simp add: read_varint_def)
  also have "\<dots> = Ok (mask 63 OR push_bit 63 (ucast (b AND 127)), 10)"
    using assms by (subst read_varint_loop.simps) (simp add: Let_def nth_append)
  also have "push_bit 63 (ucast (b AND 127)) = (push_bit 63 (ucast b) :: u64)"
    by (rule bit_word_eqI) (auto simp: bit_ops)
  finally show ?thesis by (simp add: or.commute mask_eq_exp_minus_1)
qed

theorem read_varint_overlong_accepted_witness:
  "(127 :: byte) AND 0x80 = 0 \<and>
   read_varint (replicate 9 255 @ [127]) 0 10 0 = Ok (18446744073709551615, 10)"
  using read_varint_overlong_accepted [of 127] by simp

end
