(* ===== verification/Manifest_Ref.thy ===== *)
theory Manifest_Ref
  imports Manifest_Wire
begin

text \<open>
  A reference for the manifest verifier that shares nothing with its source: protobuf messages are lists of bytes, varints are natural
  numbers, fields are values. The decoders and \<open>md_verify\<close> are shown to compute it, on every input.
\<close>

section \<open>A reference decoder on byte lists\<close>

text \<open>A varint of at most \<open>k\<close> bytes as a natural number, least significant group first.\<close>

fun leb :: "nat \<Rightarrow> byte list \<Rightarrow> (nat \<times> byte list) option" where
  "leb 0 bs = None"
| "leb (Suc k) [] = None"
| "leb (Suc k) (b # bs) =
     (if unat b < 128 then Some (unat b, bs) else map_option (\<lambda>(v, rest). (unat b - 128 + 128 * v, rest)) (leb k bs))"

definition ref_varint :: "byte list \<Rightarrow> (u64 \<times> byte list) option" where
  "ref_varint bs = map_option (\<lambda>(v, rest). (of_nat v, rest)) (leb 10 bs)"

datatype wvalue = Varint u64 | Delimited "byte list" | Fixed

definition wire_value :: "nat \<Rightarrow> byte list \<Rightarrow> (wvalue \<times> byte list) option" where
  "wire_value wire bs =
     (if wire = 0 then map_option (\<lambda>(v, rest). (Varint v, rest)) (ref_varint bs)
      else if wire = 2
      then (case ref_varint bs of None \<Rightarrow> None | Some (n, rest) \<Rightarrow>
              if length rest < unat n then None else Some (Delimited (take (unat n) rest), drop (unat n) rest))
      else if wire = 5 then (if length bs < 4 then None else Some (Fixed, drop 4 bs))
      else if wire = 1 then (if length bs < 8 then None else Some (Fixed, drop 8 bs))
      else None)"

lemma leb_suffix: "leb k bs = Some (v, rest) \<Longrightarrow> length rest < length bs \<and> rest = drop (length bs - length rest) bs"
proof (induction k bs arbitrary: v rest rule: leb.induct)
  case (3 k b bs)
  show ?case
  proof (cases "unat b < 128")
    case True
    with 3(2) show ?thesis by simp
  next
    case False
    with 3(2) obtain v' where r: "leb k bs = Some (v', rest)" by (auto split: option.splits)
    have l: "length rest < length bs" "rest = drop (length bs - length rest) bs" using 3(1) [OF False r] by auto
    have "length (b # bs) - length rest = Suc (length bs - length rest)" using l(1) by simp
    with l show ?thesis by simp
  qed
qed simp_all

lemma ref_varint_suffix:
  "ref_varint bs = Some (v, rest) \<Longrightarrow> length rest < length bs \<and> rest = drop (length bs - length rest) bs"
  unfolding ref_varint_def by (auto dest!: leb_suffix)

lemma wire_value_shorter: "wire_value wire bs = Some (x, rest) \<Longrightarrow> length rest \<le> length bs"
  by (auto simp: wire_value_def split: if_splits option.splits dest!: ref_varint_suffix)

function wire_fields :: "byte list \<Rightarrow> (u32 \<times> wvalue) list option" where
  "wire_fields bs =
     (if bs = [] then Some []
      else case ref_varint bs of None \<Rightarrow> None
      | Some (tag, rest) \<Rightarrow>
          (case wire_value (unat tag mod 8) rest of None \<Rightarrow> None
           | Some (x, rest) \<Rightarrow> map_option ((#) (of_nat (unat tag div 8), x)) (wire_fields rest)))"
  by pat_completeness auto
termination
  by (relation "measure length") (auto dest!: ref_varint_suffix wire_value_shorter)

declare wire_fields.simps [simp del]

text \<open>The varint loop of the source is that decoder.\<close>

lemma group_bits: "ucast (b AND 127 :: byte) = (of_nat (unat b mod 128) :: u64)"
proof -
  have m: "b AND 127 = b mod 128" by (simp add: take_bit_eq_mask [of 7 b, symmetric, unfolded mask_eq_exp_minus_1, simplified] take_bit_eq_mod)
  have "unat (b mod 128) = unat b mod 128" by (simp add: unat_mod)
  then show ?thesis unfolding m by (metis of_nat_unat)
qed

lemma top_bit: "b AND 128 = 0 \<longleftrightarrow> unat b < 128" for b :: byte
proof -
  have "b AND 128 = 0 \<longleftrightarrow> \<not> bit b 7" using and_exp_eq_0_iff_not_bit [of b 7] by simp
  moreover have "bit b 7 \<longleftrightarrow> bit (unat b) 7" by (simp add: bit_unsigned_iff)
  moreover have "unat b < 256" using unsigned_less [of b] by simp
  then have "bit (unat b) 7 \<longleftrightarrow> \<not> unat b < 128"
    by (cases "unat b < 128") (simp_all add: bit_iff_odd, subst div_nat_eqI [of 128 1 "unat b"], simp_all)
  ultimately show ?thesis by blast
qed

lemma groups_combine:
  "(r OR push_bit s (of_nat a)) OR push_bit (s + 7) (of_nat v) = r OR push_bit s (of_nat (a + 128 * v) :: u64)" if "a < 128"
proof -
  have "(of_nat a :: u64) AND push_bit 7 (of_nat v) = 0"
  proof (rule bit_word_eqI)
    fix n
    assume "n < LENGTH(64)"
    have "\<not> bit (of_nat a :: u64) n" if "7 \<le> n"
    proof -
      have "(2::nat) ^ 7 \<le> 2 ^ n" using that by (rule power_increasing) simp
      then have "a < 2 ^ n" using \<open>a < 128\<close> by simp
      then have "\<not> bit a n" by (simp add: bit_iff_odd)
      then show ?thesis by (simp add: bit_simps)
    qed
    then show "bit ((of_nat a :: u64) AND push_bit 7 (of_nat v)) n = bit (0 :: u64) n"
      by (auto simp: bit_and_iff bit_push_bit_iff)
  qed
  then have "(of_nat (a + 128 * v) :: u64) = of_nat a OR push_bit 7 (of_nat v)"
    using disjunctive_add_eq_or [of "of_nat a :: u64" "push_bit 7 (of_nat v)"] by (simp add: push_bit_eq_mult mult.commute)
  then show ?thesis by (simp add: push_bit_or or.assoc add.commute)
qed

lemma varint_loop_ref:
  assumes "len \<le> length mem" "pos \<le> len"
  shows "read_varint_loop mem 0 len pos (7 * j) r = (case leb (10 - j) (drop pos (take len mem)) of None \<Rightarrow> Fail ()
     | Some (v, rest) \<Rightarrow> Ok (r OR push_bit (7 * j) (of_nat v), len - length rest))"
  using assms
proof (induction "len - pos" arbitrary: pos j r)
  case 0
  then show ?case by (subst read_varint_loop.simps) (cases "10 - j"; simp)
next
  case (Suc n)
  then have p: "pos < len" by simp
  show ?case
  proof (cases "j < 10")
    case False
    then show ?thesis by (subst read_varint_loop.simps) simp
  next
    case True
    then obtain k where k: "10 - j = Suc k" "10 - Suc j = k" by (metis Suc_diff_Suc)
    define b where "b = mem ! pos"
    have d: "drop pos (take len mem) = b # drop (Suc pos) (take len mem)"
      using p Suc(3) by (subst Cons_nth_drop_Suc [symmetric]) (simp_all add: b_def)
    have l: "load mem (0 + pos) = (Ok b :: (unit, byte) cres)" using p Suc(3) by (simp add: b_def)
    have IH: "read_varint_loop mem 0 len (Suc pos) (7 * j + 7) r' = (case leb k (drop (Suc pos) (take len mem)) of None \<Rightarrow> Fail ()
       | Some (v, rest) \<Rightarrow> Ok (r' OR push_bit (7 * j + 7) (of_nat v), len - length rest))" for r'
    proof -
      have e: "7 * j + 7 = 7 * Suc j" by simp
      show ?thesis unfolding e using Suc(1) [of "Suc pos" "Suc j" r'] Suc(2,3) p k(2) by simp
    qed
    show ?thesis
    proof (cases "unat b < 128")
      case True
      then show ?thesis
        using p \<open>j < 10\<close> Suc(3)
        by (subst read_varint_loop.simps) (simp add: d k top_bit group_bits Let_def b_def [symmetric])
    next
      case False
      obtain a where a: "unat b = a + 128" "a < 128"
      proof -
        have "unat b < 256" using unsigned_less [of b] by simp
        with False that [of "unat b - 128"] show thesis by simp
      qed
      have g: "ucast (b AND 127) = (of_nat a :: u64)" using a by (simp add: group_bits)
      show ?thesis
        using p \<open>j < 10\<close> Suc(3) a(1)
        by (subst read_varint_loop.simps)
          (simp add: d k top_bit g Let_def IH b_def [symmetric] groups_combine [OF a(2), simplified] split: option.splits)
    qed
  qed
qed

lemma varint_ref:
  assumes "len \<le> length mem" "pos \<le> len"
  shows "read_varint mem 0 len pos = (case ref_varint (drop pos (take len mem)) of None \<Rightarrow> Fail ()
     | Some (v, rest) \<Rightarrow> Ok (v, len - length rest))"
  using varint_loop_ref [OF assms, of 0 0] by (auto simp: read_varint_def ref_varint_def split: option.splits)

section \<open>The decoders agree with the reference\<close>

lemma tag_wire_ref: "tag_wire tag = of_nat (unat tag mod 8)"
proof -
  have "tag AND 7 = tag mod 8"
    by (simp add: take_bit_eq_mask [of 3 tag, symmetric, unfolded mask_eq_exp_minus_1, simplified] take_bit_eq_mod)
  then have "unat (tag AND 7) = unat tag mod 8" by (simp add: unat_mod)
  then show ?thesis unfolding tag_wire_def by (metis of_nat_unat)
qed

lemma tag_wire_cases:
  "tag_wire tag = 0 \<longleftrightarrow> unat tag mod 8 = 0" "tag_wire tag = 1 \<longleftrightarrow> unat tag mod 8 = 1"
  "tag_wire tag = 2 \<longleftrightarrow> unat tag mod 8 = 2" "tag_wire tag = 5 \<longleftrightarrow> unat tag mod 8 = 5"
proof -
  have "unat tag mod 8 < 8" by simp
  then have l: "unat tag mod 8 < 2 ^ LENGTH(32)" by simp
  have e: "(of_nat (unat tag mod 8) :: u32) = of_nat n \<longleftrightarrow> unat tag mod 8 = n" if "n < 8" for n
    using that by (auto simp: word_of_nat_eq_iff take_bit_nat_eq_self)
  show "tag_wire tag = 0 \<longleftrightarrow> unat tag mod 8 = 0" "tag_wire tag = 1 \<longleftrightarrow> unat tag mod 8 = 1"
    "tag_wire tag = 2 \<longleftrightarrow> unat tag mod 8 = 2" "tag_wire tag = 5 \<longleftrightarrow> unat tag mod 8 = 5"
    using e [of 0] e [of 1] e [of 2] e [of 5] by (simp_all add: tag_wire_ref)
qed

lemma tag_field_ref: "tag_field tag = of_nat (unat tag div 8)"
proof -
  have "unat (drop_bit 3 tag) = unat tag div 8" using unat_drop_bit [of 3 tag] by simp
  then show ?thesis unfolding tag_field_def by (metis of_nat_unat)
qed

text \<open>Positions of the loop and rests of the reference.\<close>

lemma rest_pos:
  assumes "len \<le> length mem" "pos \<le> len" "ref_varint (drop pos (take len mem)) = Some (v, rest)"
  shows "pos < len - length rest" "len - length rest \<le> len" "rest = drop (len - length rest) (take len mem)" "length rest \<le> len"
proof -
  have l: "length (drop pos (take len mem)) = len - pos" using assms(1) by simp
  note s = ref_varint_suffix [OF assms(3), unfolded l]
  show "pos < len - length rest" "len - length rest \<le> len" "length rest \<le> len" using s by linarith+
  have "len - pos - length rest + pos = len - length rest" using s by linarith
  then show "rest = drop (len - length rest) (take len mem)" using s by (metis drop_drop)
qed

lemma delimited_ref:
  assumes "len \<le> length mem" "pos \<le> len" "len < 2 ^ 64"
  shows "read_len_delimited mem 0 len pos = (case ref_varint (drop pos (take len mem)) of None \<Rightarrow> Fail ()
     | Some (n, rest) \<Rightarrow> if length rest < unat n then Fail ()
         else Ok (\<lparr>sl_ptr = Some (len - length rest), sl_len = unat n\<rparr>, len - length (drop (unat n) rest)))"
proof (cases "ref_varint (drop pos (take len mem))")
  case None
  then show ?thesis by (simp add: read_len_delimited_def varint_ref [OF assms(1,2)])
next
  case (Some p)
  obtain n rest where p: "p = (n, rest)" by fastforce
  note r = rest_pos [OF assms(1,2) Some [unfolded p]]
  have l: "len - (len - length rest) = length rest" using r(4) by simp
  have "length rest < 2 ^ 64" using r(4) assms(3) by simp
  then have u: "unat (of_nat (length rest) :: u64) = length rest" by (simp add: unat_of_nat)
  then have c: "n > of_nat (length rest) \<longleftrightarrow> length rest < unat n" by (simp add: word_less_nat_alt)
  show ?thesis
    by (auto simp: read_len_delimited_def varint_ref [OF assms(1,2)] Some p l c r(4))
qed

record signed_view =
  rv_manifest :: "byte list"
  rv_key_id :: "byte list"
  rv_alg :: "byte list"
  rv_sig :: "byte list"

definition empty_signed :: signed_view where
  "empty_signed = \<lparr>rv_manifest = [], rv_key_id = [], rv_alg = [], rv_sig = []\<rparr>"

definition empty_view :: manifest_view where
  "empty_view = \<lparr>v_schema = 0, v_tenant = [], v_name = [], v_version = [], v_sha256 = [], v_size = 0, v_profile = [],
     v_counter = 0, v_issued = 0\<rparr>"

fun ref_signed :: "u32 \<times> wvalue \<Rightarrow> signed_view \<Rightarrow> signed_view" where
  "ref_signed (f, Delimited d) p =
     (if f = 1 then p\<lparr>rv_manifest := d\<rparr> else if f = 2 then p\<lparr>rv_key_id := d\<rparr>
      else if f = 3 then p\<lparr>rv_alg := d\<rparr> else if f = 4 then p\<lparr>rv_sig := d\<rparr> else p)"
| "ref_signed (f, Varint v) p = p"
| "ref_signed (f, Fixed) p = p"

fun ref_field :: "u32 \<times> wvalue \<Rightarrow> manifest_view \<Rightarrow> manifest_view" where
  "ref_field (f, Varint v) m =
     (if f = 1 then m\<lparr>v_schema := ucast v\<rparr> else if f = 6 then m\<lparr>v_size := v\<rparr>
      else if f = 8 then m\<lparr>v_counter := v\<rparr> else if f = 9 then m\<lparr>v_issued := v\<rparr> else m)"
| "ref_field (f, Delimited d) m =
     (if f = 2 then m\<lparr>v_tenant := d\<rparr> else if f = 3 then m\<lparr>v_name := d\<rparr> else if f = 4 then m\<lparr>v_version := d\<rparr>
      else if f = 5 then m\<lparr>v_sha256 := d\<rparr> else if f = 7 then m\<lparr>v_profile := d\<rparr> else m)"
| "ref_field (f, Fixed) m = m"

definition parts_view :: "byte list \<Rightarrow> signed_parts \<Rightarrow> signed_view" where
  "parts_view mem p = \<lparr>rv_manifest = slice_bytes mem (sp_manifest p), rv_key_id = slice_bytes mem (sp_key_id p),
     rv_alg = slice_bytes mem (sp_alg p), rv_sig = slice_bytes mem (sp_sig p)\<rparr>"

lemma parts_view_set: "parts_view mem (set_signed f s p) = ref_signed (f, Delimited (slice_bytes mem s)) (parts_view mem p)"
  by (simp add: parts_view_def set_signed_def)

lemma view_set:
  "view mem (set_string f s m) = ref_field (f, Delimited (slice_bytes mem s)) (view mem m)"
  "view mem (set_scalar f v m) = ref_field (f, Varint v) (view mem m)"
  by (simp_all add: view_def set_string_def set_scalar_def)

lemma skip_ref:
  assumes "len \<le> length mem" "pos \<le> len" "unat tag mod 8 \<noteq> 2"
  shows "skip_scalar mem 0 len pos (tag_wire tag) = (case wire_value (unat tag mod 8) (drop pos (take len mem)) of None \<Rightarrow> Fail ()
     | Some (x, rest) \<Rightarrow> Ok (len - length rest))"
proof -
  have l: "length (drop pos (take len mem)) = len - pos" using assms(1) by simp
  show ?thesis
    using assms(2,3)
    by (auto simp: skip_scalar_def wire_value_def tag_wire_cases varint_ref [OF assms(1,2)] l min_absorb2 [OF assms(1)] split: option.splits)
qed

lemma value_rest:
  assumes "len \<le> length mem" "pos \<le> len" "wire_value w (drop pos (take len mem)) = Some (x, rest)"
  shows "rest = drop (len - length rest) (take len mem)" "pos \<le> len - length rest"
proof -
  have l: "length (drop pos (take len mem)) = len - pos" using assms(1) by simp
  have d: "drop n (drop p (take len mem)) = drop (len - length (drop n (drop p (take len mem)))) (take len mem)" if "p \<le> len" for n p
  proof -
    have l: "length (drop n (drop p (take len mem))) = len - (p + n)" using assms(1) by simp
    show ?thesis unfolding l using that by (cases "p + n \<le> len") (simp_all add: add.commute)
  qed
  have "\<exists>n p. rest = drop n (drop p (take len mem)) \<and> p \<le> len \<and> pos \<le> p"
  proof -
    consider "w = 0" | "w = 2" | "w \<noteq> 0" "w \<noteq> 2" by blast
    then show ?thesis
    proof cases
      case 1
      then obtain v where "ref_varint (drop pos (take len mem)) = Some (v, rest)"
        using assms(3) by (auto simp: wire_value_def)
      note r = rest_pos [OF assms(1,2) this]
      show ?thesis by (rule exI [of _ 0], rule exI [of _ "len - length rest"]) (use r in simp)
    next
      case 2
      then obtain v rest' where v: "ref_varint (drop pos (take len mem)) = Some (v, rest')" "rest = drop (unat v) rest'"
        using assms(3) by (auto simp: wire_value_def split: option.splits if_splits)
      note r = rest_pos [OF assms(1,2) v(1)]
      show ?thesis by (rule exI [of _ "unat v"], rule exI [of _ "len - length rest'"]) (use r(1,2,3) v(2) in auto)
    next
      case 3
      then show ?thesis using assms(2,3) by (auto simp: wire_value_def split: if_splits)
    qed
  qed
  then obtain n p where r: "rest = drop n (drop p (take len mem))" "p \<le> len" "pos \<le> p" by blast
  show "rest = drop (len - length rest) (take len mem)" unfolding r(1) by (rule d [OF r(2)])
  show "pos \<le> len - length rest" using r assms(1) by simp
qed

text \<open>A length-delimited field: the slice of the source denotes the bytes of the reference.\<close>

lemma delimited_value:
  assumes "len \<le> length mem" "pos \<le> len" "len < 2 ^ 64" "unat tag mod 8 = 2"
  shows "(case wire_value (unat tag mod 8) (drop pos (take len mem)) of
       None \<Rightarrow> read_len_delimited mem 0 len pos = Fail ()
     | Some (x, rest) \<Rightarrow> \<exists>s. read_len_delimited mem 0 len pos = Ok (s, len - length rest) \<and> x = Delimited (slice_bytes mem s))"
proof (cases "ref_varint (drop pos (take len mem))")
  case None
  then show ?thesis by (simp add: wire_value_def assms(4) delimited_ref [OF assms(1-3)])
next
  case (Some p)
  obtain n rest where p: "p = (n, rest)" by fastforce
  note r = rest_pos [OF assms(1,2) Some [unfolded p]]
  define q where "q = len - length rest"
  have "take (unat n) rest = take (unat n) (drop q mem)" if "unat n \<le> length rest"
  proof -
    have "q + unat n \<le> len" using that r(4) by (simp add: q_def)
    then have "take (unat n) (drop q (take len mem)) = take (unat n) (drop q mem)" by (simp add: drop_take min_absorb1)
    then show ?thesis using r(3) by (simp add: q_def)
  qed
  then show ?thesis
    by (simp add: wire_value_def assms(4) delimited_ref [OF assms(1-3)] Some p slice_bytes_def q_def [symmetric])
qed

text \<open>One field of a message, as the source reads it and as the reference does.\<close>

lemma wire_step:
  assumes "len \<le> length mem" "len < 2 ^ 64" "pos < len"
  obtains (bad_tag) "read_varint mem 0 len pos = Fail ()" "wire_fields (drop pos (take len mem)) = None"
  | (bad_value) tag q where "read_varint mem 0 len pos = Ok (tag, q)" "wire_fields (drop pos (take len mem)) = None"
      "tag_wire tag = 0 \<Longrightarrow> read_varint mem 0 len q = Fail ()"
      "tag_wire tag = 2 \<Longrightarrow> read_len_delimited mem 0 len q = Fail ()"
      "tag_wire tag \<noteq> 2 \<Longrightarrow> skip_scalar mem 0 len q (tag_wire tag) = Fail ()"
  | (field) tag q x q2 where "read_varint mem 0 len pos = Ok (tag, q)" "pos < q2" "q2 \<le> len"
      "wire_fields (drop pos (take len mem)) = map_option ((#) (tag_field tag, x)) (wire_fields (drop q2 (take len mem)))"
      "tag_wire tag = 0 \<Longrightarrow> \<exists>v. read_varint mem 0 len q = Ok (v, q2) \<and> x = Varint v"
      "tag_wire tag = 2 \<Longrightarrow> \<exists>s. read_len_delimited mem 0 len q = Ok (s, q2) \<and> x = Delimited (slice_bytes mem s)"
      "tag_wire tag \<noteq> 2 \<Longrightarrow> skip_scalar mem 0 len q (tag_wire tag) = Ok q2 \<and> (\<forall>d. x \<noteq> Delimited d)"
      "tag_wire tag \<noteq> 0 \<Longrightarrow> tag_wire tag \<noteq> 2 \<Longrightarrow> x = Fixed"
proof -
  have lp: "len \<le> length mem" "pos \<le> len" using assms by simp_all
  let ?r = "drop pos (take len mem)"
  have ne: "?r \<noteq> []" using assms by simp
  show thesis
  proof (cases "ref_varint ?r")
    case None
    show thesis by (rule bad_tag) (use None ne in \<open>simp_all add: varint_ref [OF lp] wire_fields.simps [of ?r]\<close>)
  next
    case (Some t)
    obtain tag rest where t: "ref_varint ?r = Some (tag, rest)" using Some by fastforce
    define q where "q = len - length rest"
    note r = rest_pos [OF lp t, folded q_def]
    have v: "read_varint mem 0 len pos = Ok (tag, q)" by (simp add: varint_ref [OF lp] t q_def)
    have F: "wire_fields ?r = (case wire_value (unat tag mod 8) (drop q (take len mem)) of None \<Rightarrow> None
        | Some (x, rest) \<Rightarrow> map_option ((#) (tag_field tag, x)) (wire_fields rest))"
      unfolding tag_field_ref using ne t r(3) by (simp add: wire_fields.simps [of ?r])
    note del = delimited_value [OF assms(1) r(2) assms(2), of tag] and skip = skip_ref [OF assms(1) r(2), of tag]
    show thesis
    proof (cases "wire_value (unat tag mod 8) (drop q (take len mem))")
      case None
      have "read_len_delimited mem 0 len q = Fail ()" if "unat tag mod 8 = 2" using del [OF that] None by simp
      moreover have "read_varint mem 0 len q = Fail ()" if "unat tag mod 8 = 0"
        using that None by (simp add: wire_value_def varint_ref [OF assms(1) r(2)])
      ultimately show thesis using bad_value [OF v] skip None by (simp add: F tag_wire_cases)
    next
      case (Some y)
      obtain x rest2 where y: "wire_value (unat tag mod 8) (drop q (take len mem)) = Some (x, rest2)" using Some by fastforce
      define q2 where "q2 = len - length rest2"
      note w = value_rest [OF assms(1) r(2) y, folded q2_def]
      have vv: "\<exists>v. read_varint mem 0 len q = Ok (v, q2) \<and> x = Varint v" if "unat tag mod 8 = 0"
        using y that by (auto simp: wire_value_def varint_ref [OF assms(1) r(2)] q2_def)
      have nd: "(\<forall>d. x \<noteq> Delimited d) \<and> (unat tag mod 8 \<noteq> 0 \<longrightarrow> x = Fixed)" if "unat tag mod 8 \<noteq> 2"
        using y that by (auto simp: wire_value_def split: if_splits)
      show thesis
      proof (rule field [OF v])
        show "pos < q2" "q2 \<le> len" using w(2) r(1) by (simp_all add: q2_def)
        show "wire_fields ?r = map_option ((#) (tag_field tag, x)) (wire_fields (drop q2 (take len mem)))"
          unfolding F y w(1) [symmetric] by simp
        show "\<exists>s. read_len_delimited mem 0 len q = Ok (s, q2) \<and> x = Delimited (slice_bytes mem s)" if "tag_wire tag = 2"
          using del that y by (simp add: tag_wire_cases q2_def)
        show "skip_scalar mem 0 len q (tag_wire tag) = Ok q2 \<and> (\<forall>d. x \<noteq> Delimited d)" if "tag_wire tag \<noteq> 2"
          using skip that y nd by (simp add: tag_wire_cases q2_def)
      qed (use vv nd in \<open>simp_all add: tag_wire_cases\<close>)
    qed
  qed
qed

lemma decode_signed_loop_ref:
  assumes "len \<le> length mem" "len < 2 ^ 64"
  shows "pos \<le> len \<Longrightarrow> map_ok (parts_view mem) (decode_signed_loop mem 0 len pos p) = (case wire_fields (drop pos (take len mem)) of
       None \<Rightarrow> Fail MD_ERR_DECODE | Some fs \<Rightarrow> Ok (fold ref_signed fs (parts_view mem p)))"
proof (induction "len - pos" arbitrary: pos p rule: less_induct)
  case less
  note S = decode_signed_loop.simps [of mem 0 len pos p]
  show ?case
  proof (cases "pos < len")
    case False
    then show ?thesis unfolding S by (subst wire_fields.simps) simp
  next
    case True
    show ?thesis
    proof (cases rule: wire_step [OF assms True, case_names bad_tag bad_value field])
      case bad_tag
      with True show ?thesis unfolding S by simp
    next
      case (bad_value tag q)
      with True show ?thesis unfolding S by simp
    next
      case (field tag q x q2)
      note IH = less(1) [OF _ field(3)]
      have d: "len - q2 < len - pos" using field(2) True by simp
      show ?thesis
      proof (cases "tag_wire tag = 2")
        case wire: True
        then obtain s where s: "read_len_delimited mem 0 len q = Ok (s, q2)" "x = Delimited (slice_bytes mem s)" using field(6) by blast
        show ?thesis unfolding S field(4) using True wire field(1) s(1)
          by (simp add: IH [OF d] parts_view_set s(2) split: option.splits)
      next
        case wire: False
        have "ref_signed (f, x) z = z" for f z using field(7) [OF wire] by (cases x) auto
        then show ?thesis unfolding S field(4) using True wire field(1,7)
          by (simp add: IH [OF d] split: option.splits)
      qed
    qed
  qed
qed

lemma decode_manifest_loop_ref:
  assumes "len \<le> length mem" "len < 2 ^ 64"
  shows "pos \<le> len \<Longrightarrow> map_ok (view mem) (decode_manifest_loop mem 0 len pos m) = (case wire_fields (drop pos (take len mem)) of
       None \<Rightarrow> Fail MD_ERR_DECODE | Some fs \<Rightarrow> Ok (fold ref_field fs (view mem m)))"
proof (induction "len - pos" arbitrary: pos m rule: less_induct)
  case less
  note S = decode_manifest_loop.simps [of mem 0 len pos m]
  show ?case
  proof (cases "pos < len")
    case False
    then show ?thesis unfolding S by (subst wire_fields.simps) simp
  next
    case True
    show ?thesis
    proof (cases rule: wire_step [OF assms True, case_names bad_tag bad_value field])
      case bad_tag
      with True show ?thesis unfolding S by simp
    next
      case (bad_value tag q)
      with True show ?thesis unfolding S by simp
    next
      case (field tag q x q2)
      note IH = less(1) [OF _ field(3)]
      have d: "len - q2 < len - pos" using field(2) True by simp
      consider (scalar) "tag_wire tag = 0" | (bytes) "tag_wire tag = 2" | (other) "tag_wire tag \<noteq> 0" "tag_wire tag \<noteq> 2" by blast
      then show ?thesis
      proof cases
        case scalar
        then obtain v where v: "read_varint mem 0 len q = Ok (v, q2)" "x = Varint v" using field(5) by blast
        show ?thesis unfolding S field(4) using True scalar field(1) v(1)
          by (simp add: IH [OF d] view_set v(2) split: option.splits)
      next
        case bytes
        then obtain s where s: "read_len_delimited mem 0 len q = Ok (s, q2)" "x = Delimited (slice_bytes mem s)" using field(6) by blast
        show ?thesis unfolding S field(4) using True bytes field(1) s(1)
          by (simp add: IH [OF d] view_set s(2) split: option.splits)
      next
        case other
        then show ?thesis unfolding S field(4) using True field(1,7,8)
          by (simp add: IH [OF d] split: option.splits)
      qed
    qed
  qed
qed

section \<open>The verifier agrees with the reference\<close>

text \<open>The contract of \<open>md_verify\<close> on plain byte lists: the checks in their order, with the error of the first that fails.\<close>

definition ref_manifest :: "byte list \<Rightarrow> md_result + manifest_view" where
  "ref_manifest body = (case wire_fields body of None \<Rightarrow> Inl MD_ERR_DECODE
     | Some fs \<Rightarrow>
         let v = fold ref_field fs empty_view in
         if v_schema v \<noteq> MD_SCHEMA_VERSION then Inl MD_ERR_SCHEMA else if \<not> valid_view v then Inl MD_ERR_FIELD else Inr v)"

definition ref_verify :: "ed25519_fn \<Rightarrow> md_pinned_key \<Rightarrow> byte list \<Rightarrow> md_result + manifest_view" where
  "ref_verify ed key msg = (case wire_fields msg of None \<Rightarrow> Inl MD_ERR_DECODE
     | Some fs \<Rightarrow>
         let p = fold ref_signed fs empty_signed in
         if rv_alg p \<noteq> str ''ed25519'' then Inl MD_ERR_ALG
         else if length (rv_sig p) \<noteq> 64 then Inl MD_ERR_SIG_SIZE
         else if rv_manifest p = [] then Inl MD_ERR_EMPTY_MANIFEST
         else if MD_MAX_MANIFEST < length (rv_manifest p) then Inl MD_ERR_MANIFEST_TOO_BIG
         else if rv_key_id p \<noteq> pk_key_id key then Inl MD_ERR_KEY_ID
         else if ed (MD_SIGN_CONTEXT @ rv_manifest p) (rv_sig p) (pk_pub key) \<noteq> 1 then Inl MD_ERR_SIGNATURE
         else ref_manifest (rv_manifest p))"

definition as_sum :: "(md_result, 'a) cres \<Rightarrow> (md_result + 'a) option" where
  "as_sum r = (case r of Oob \<Rightarrow> None | Fail e \<Rightarrow> Some (Inl e) | Ok v \<Rightarrow> Some (Inr v))"

lemma as_sum_simps [simp]: "as_sum (Fail e) = Some (Inl e)" "as_sum (Ok v) = Some (Inr v)"
  by (simp_all add: as_sum_def)

lemma validate_ref:
  assumes "manifest_in lo hi m" "hi \<le> length mem"
  shows "validate_manifest mem m = (if v_schema (view mem m) \<noteq> MD_SCHEMA_VERSION then Fail MD_ERR_SCHEMA
     else if \<not> valid_view (view mem m) then Fail MD_ERR_FIELD else Ok ())"
proof (cases "validate_manifest mem m = Ok ()")
  case True
  then have v: "valid_view (view mem m)" using validate_manifest_Ok_iff [OF assms] by (simp add: valid_view_iff)
  then have "v_schema (view mem m) = MD_SCHEMA_VERSION" by (simp add: valid_view_def)
  with True v show ?thesis by simp
next
  case False
  then have nv: "\<not> valid_view (view mem m)" using validate_manifest_Ok_iff [OF assms] by (simp add: valid_view_iff)
  have "validate_manifest mem m = Fail (if schema_version m \<noteq> MD_SCHEMA_VERSION then MD_ERR_SCHEMA else MD_ERR_FIELD)"
  proof -
    have "slice_in lo hi (sha256 m)" using assms(1) by (simp add: manifest_in_def)
    then show ?thesis using False by (auto simp: validate_manifest_def is_lower_hex64_eq [OF _ assms(2)] split: if_splits)
  qed
  moreover have "v_schema (view mem m) = schema_version m" by (simp add: view_def)
  ultimately show ?thesis using nv by simp
qed

lemma decode_manifest_ref:
  assumes "base + len \<le> length mem" "len < 2 ^ 64"
  shows "map_ok (view mem) (decode_manifest mem base len) = (case wire_fields (take len (drop base mem)) of
       None \<Rightarrow> Fail MD_ERR_DECODE | Some fs \<Rightarrow> Ok (fold ref_field fs empty_view))"
proof -
  let ?w = "take len (drop base mem)"
  have l: "length ?w = len" using assms(1) by simp
  have e: "view ?w empty_manifest = empty_view"
    by (simp add: view_def empty_manifest_def empty_view_def slice_bytes_def null_slice_def)
  have w: "decode_manifest mem base len = map_ok (move_manifest base) (decode_manifest ?w 0 len)"
    using decode_manifest_loop_window [OF assms(1), of 0 empty_manifest] by (simp add: decode_manifest_def)
  have "map_ok (view ?w) (decode_manifest ?w 0 len) = (case wire_fields ?w of
       None \<Rightarrow> Fail MD_ERR_DECODE | Some fs \<Rightarrow> Ok (fold ref_field fs empty_view))"
    using decode_manifest_loop_ref [of len ?w 0 empty_manifest] assms l unfolding decode_manifest_def e by simp
  moreover have "map_ok (view mem) (map_ok (move_manifest base) (decode_manifest ?w 0 len)) = map_ok (view ?w) (decode_manifest ?w 0 len)"
  proof (cases "decode_manifest ?w 0 len")
    case (Ok m)
    have "manifest_in 0 len m" using decode_manifest_safe(3) [of 0 len ?w] Ok l by simp
    then show ?thesis using view_move [OF _ assms(1)] Ok by simp
  qed simp_all
  ultimately show ?thesis by (simp add: w)
qed

lemma decode_signed_ref:
  assumes "len \<le> length mem" "len < 2 ^ 64"
  shows "map_ok (parts_view mem) (decode_signed mem 0 len) = (case wire_fields (take len mem) of
       None \<Rightarrow> Fail MD_ERR_DECODE | Some fs \<Rightarrow> Ok (fold ref_signed fs empty_signed))"
proof -
  have e: "parts_view mem no_parts = empty_signed"
    by (simp add: parts_view_def no_parts_def empty_signed_def slice_bytes_def null_slice_def)
  show ?thesis using decode_signed_loop_ref [OF assms, of 0 no_parts] unfolding decode_signed_def e by simp
qed

lemma inner_ref:
  assumes "slice_in 0 len s" "len \<le> length mem" "len < 2 ^ 64" "sl_len s \<noteq> 0"
  shows "as_sum (map_ok (view mem) (cbind (decode_manifest mem (the (sl_ptr s)) (sl_len s))
     (\<lambda>m. cbind (validate_manifest mem m) (\<lambda>_. Ok m)))) = Some (ref_manifest (slice_bytes mem s))"
proof -
  obtain a where a: "sl_ptr s = Some a" "a + sl_len s \<le> len" using assms(1,4) by (auto simp: slice_in_def split: option.splits)
  have b: "a + sl_len s \<le> length mem" "sl_len s < 2 ^ 64" using a(2) assms(2,3) by simp_all
  have s: "slice_bytes mem s = take (sl_len s) (drop a mem)" by (simp add: slice_bytes_def a(1))
  note d = decode_manifest_ref [OF b]
  show ?thesis
  proof (cases "decode_manifest mem a (sl_len s)")
    case Oob
    then show ?thesis using decode_manifest_safe(1) [OF b(1)] by simp
  next
    case (Fail e)
    then show ?thesis using d by (auto simp: a(1) s ref_manifest_def split: option.splits)
  next
    case (Ok m)
    have v: "validate_manifest mem m = (if v_schema (view mem m) \<noteq> MD_SCHEMA_VERSION then Fail MD_ERR_SCHEMA
     else if \<not> valid_view (view mem m) then Fail MD_ERR_FIELD else Ok ())"
      by (rule validate_ref [OF decode_manifest_safe(3) [OF b(1) Ok] b(1)])
    obtain fs where "wire_fields (take (sl_len s) (drop a mem)) = Some fs" "fold ref_field fs empty_view = view mem m"
      using d Ok by (auto split: option.splits)
    then show ?thesis using Ok v by (simp add: a(1) s ref_manifest_def Let_def)
  qed
qed

text \<open>
  C5. For every buffer, \<open>md_verify\<close> computes exactly the reference verifier on the received bytes: the decoding by offsets, slices and
  64-bit shifts agrees with the list decoder over natural numbers on valid and malformed input alike, and so does the error
  that is reported.
\<close>

theorem md_verify_reference:
  assumes "len \<le> length mem" "len < 2 ^ 64"
  shows "as_sum (map_ok (view mem) (md_verify ed key mem len)) = Some (ref_verify ed key (take len mem))"
proof (cases "decode_signed mem 0 len")
  case Oob
  then show ?thesis using decode_signed_ref [OF assms] by (simp split: option.splits)
next
  case (Fail e)
  then show ?thesis
    using decode_signed_ref [OF assms] by (auto simp: md_verify_def ref_verify_def split: option.splits)
next
  case (Ok p)
  obtain fs where fs: "wire_fields (take len mem) = Some fs" "fold ref_signed fs empty_signed = parts_view mem p"
    using decode_signed_ref [OF assms] Ok by (auto split: option.splits)
  have "parts_in 0 len p" using decode_signed_safe [of 0 len mem] assms(1) Ok by auto
  then have sl: "slice_in 0 len (sp_manifest p)" "slice_in 0 len (sp_key_id p)" "slice_in 0 len (sp_alg p)" "slice_in 0 len (sp_sig p)"
    by (simp_all add: parts_in_def)
  note L = sl [THEN length_slice_bytes, OF assms(1)]
  have ld: "load_slice mem s n = Ok (slice_bytes mem s)" if "slice_in 0 len s" "sl_len s = n" for s n
    using load_slice_in [OF that(1) assms(1)] that(2) by simp
  have ne: "slice_bytes mem (sp_manifest p) = [] \<longleftrightarrow> sl_len (sp_manifest p) = 0" using L(1) by (metis length_0_conv)
  have al: "sl_len (sp_alg p) \<noteq> 7 \<Longrightarrow> slice_bytes mem (sp_alg p) \<noteq> str ''ed25519''" using L(3) by auto
  have ki: "sl_len (sp_key_id p) \<noteq> length (pk_key_id key) \<Longrightarrow> slice_bytes mem (sp_key_id p) \<noteq> pk_key_id key" using L(2) by auto
  have ed: "[] \<noteq> str ''ed25519''" by simp
  note inner = inner_ref [OF sl(1) assms]
  show ?thesis
    using sl L ne al ki ed inner
    by (simp add: md_verify_def ref_verify_def Ok fs parts_view_def ld md_ed25519_verify_def Let_def del: str_Cons)
qed

theorem md_verify_reference_witness:
  "as_sum (map_ok (view sample_buf) (md_verify sample_ed sample_key sample_buf (length sample_buf)))
   = Some (ref_verify sample_ed sample_key sample_buf)
   \<and> ref_verify sample_ed sample_key (take 20 sample_buf) = Inl MD_ERR_DECODE"
proof -
  have "length sample_buf < 1000" by code_simp
  then have l: "length sample_buf < 2 ^ 64" by simp
  have "ref_verify sample_ed sample_key (take 20 sample_buf) = Inl MD_ERR_DECODE" by code_simp
  with md_verify_reference [of "length sample_buf" sample_buf sample_ed sample_key] l show ?thesis by simp
qed

end
