(* ===== verification/Ota.thy ===== *)
theory Ota
  imports Mcu_Prelude
begin

text \<open>
  The pure update logic, \<^verbatim>\<open>lib/ota/ota.c\<close>: the Content-Range parser, the chunk planner, the
  boot-confirm decision and the heartbeat body. Machine integers are words; the \<open>int\<close> flags of
  \<open>struct ota_boot_action\<close> are booleans. A C string is the list of its bytes without the NUL, and
  \<open>snprintf\<close> into a buffer of \<open>cap\<close> bytes is the formatted text with the source's check that it fits.
\<close>

section \<open>Content-Range\<close>

function parse_u64_loop :: "byte list \<Rightarrow> nat \<Rightarrow> nat \<Rightarrow> u64 \<Rightarrow> (unit, u64 \<times> nat) cres" where
  "parse_u64_loop p len i v =
     (if i < len
      then cbind (load p i) (\<lambda>c.
             if in_range c CHR ''0'' CHR ''9''
             then parse_u64_loop p len (i + 1) (v * 10 + ucast (c - ch CHR ''0''))
             else Ok (v, i))
      else Ok (v, i))"
  by pat_completeness auto
termination
  by (relation "measure (\<lambda>(p, len, i, v). len - i)") auto

declare parse_u64_loop.simps [simp del]

definition parse_u64 :: "byte list \<Rightarrow> nat \<Rightarrow> nat \<Rightarrow> (unit, u64 \<times> nat \<times> bool) cres" where
  "parse_u64 p len start = cbind (parse_u64_loop p len start 0) (\<lambda>(v, i). Ok (v, i, i > start))"

function skip_while :: "(byte \<Rightarrow> bool) \<Rightarrow> byte list \<Rightarrow> nat \<Rightarrow> nat \<Rightarrow> (unit, nat) cres" where
  "skip_while P p len i =
     (if i < len
      then cbind (load p i) (\<lambda>c. if P c then skip_while P p len (i + 1) else Ok i)
      else Ok i)"
  by pat_completeness auto
termination
  by (relation "measure (\<lambda>(P, p, len, i). len - i)") auto

declare skip_while.simps [simp del]

fun match_unit :: "byte list \<Rightarrow> byte list \<Rightarrow> nat \<Rightarrow> nat \<Rightarrow> (unit, nat) cres" where
  "match_unit [] p len i = Ok i"
| "match_unit (u # us) p len i =
     (if i \<ge> len then Fail ()
      else cbind (load p i) (\<lambda>c. if c \<noteq> u then Fail () else match_unit us p len (i + 1)))"

text \<open>The separator tests \<open>i >= len || value[i] != c\<close>.\<close>

definition expect :: "byte \<Rightarrow> byte list \<Rightarrow> nat \<Rightarrow> nat \<Rightarrow> bool \<Rightarrow> (unit, nat) cres" where
  "expect c p len i ok =
     (if \<not> ok \<or> i \<ge> len then Fail ()
      else cbind (load p i) (\<lambda>x. if x \<noteq> c then Fail () else Ok (i + 1)))"

definition ota_parse_content_range ::
  "byte list option \<Rightarrow> nat \<Rightarrow> (unit, u64 \<times> u64 \<times> u64) cres" where
  "ota_parse_content_range value len =
     (case value of None \<Rightarrow> Fail () | Some p \<Rightarrow>
      cbind (skip_while (\<lambda>c. c = ch CHR '' '' \<or> c = 9) p len 0) (\<lambda>i.
      cbind (match_unit (str ''bytes'') p len i) (\<lambda>i.
      cbind (skip_while (\<lambda>c. c = ch CHR '' '') p len i) (\<lambda>i.
      cbind (parse_u64 p len i) (\<lambda>(s, i, ok).
      cbind (expect (ch CHR ''-'') p len i ok) (\<lambda>i.
      cbind (parse_u64 p len i) (\<lambda>(e, i, ok).
      cbind (expect (ch CHR ''/'') p len i ok) (\<lambda>i.
      cbind (parse_u64 p len i) (\<lambda>(t, i, ok).
      if \<not> ok then Fail ()
      else if s > e \<or> e \<ge> t then Fail ()
      else Ok (s, e, t))))))))))"

section \<open>Chunk planning\<close>

definition ota_chunk_len :: "u64 \<Rightarrow> u64 \<Rightarrow> u32 \<Rightarrow> u64" where
  "ota_chunk_len offset tot max_chunk =
     (if offset \<ge> tot \<or> max_chunk = 0 then 0
      else let remaining = tot - offset
           in if remaining < ucast max_chunk then remaining else ucast max_chunk)"

section \<open>The boot decision\<close>

record ota_boot_action =
  confirm :: bool
  promote :: bool
  new_applied :: u64
  clear_pending :: bool
  record_failed :: bool
  failed_counter :: u64
  clear_failed :: bool

definition no_action :: ota_boot_action where
  "no_action = \<lparr>confirm = False, promote = False, new_applied = 0, clear_pending = False,
     record_failed = False, failed_counter = 0, clear_failed = False\<rparr>"

definition ota_plan_boot :: "bool \<Rightarrow> u64 \<Rightarrow> u64 \<Rightarrow> ota_boot_action" where
  "ota_plan_boot img_confirmed applied pending =
     (let a = no_action in
      if \<not> img_confirmed
      then let a = a\<lparr>confirm := True\<rparr>;
               a = (if pending > applied
                    then a\<lparr>promote := True, new_applied := pending, clear_failed := True\<rparr> else a)
           in a\<lparr>clear_pending := (pending \<noteq> 0)\<rparr>
      else if pending \<noteq> 0
      then a\<lparr>clear_pending := True, record_failed := True, failed_counter := pending\<rparr>
      else a)"

section \<open>The heartbeat body\<close>

text \<open>
  The comparison \<open>c < 0x20\<close> of a \<open>char\<close>: the argument says whether plain \<open>char\<close> is signed (x86
  hosts) or unsigned (the Xtensa target).
\<close>

definition char_less :: "bool \<Rightarrow> byte \<Rightarrow> byte \<Rightarrow> bool" where
  "char_less char_signed c d = (if char_signed then sint c < sint d else c < d)"

definition sanitise :: "bool \<Rightarrow> nat \<Rightarrow> byte list option \<Rightarrow> byte list" where
  "sanitise char_signed cap s =
     (case s of None \<Rightarrow> []
      | Some cs \<Rightarrow> map (\<lambda>c. if c = 34 \<or> c = 92 \<or> char_less char_signed c 0x20 then ch CHR '' '' else c)
                     (take (cap - 1) cs))"

text \<open>The decimal digits \<open>%llu\<close> and \<open>%u\<close> print.\<close>

fun dec :: "nat \<Rightarrow> byte list" where
  "dec n = (if n < 10 then [48 + of_nat n] else dec (n div 10) @ [48 + of_nat (n mod 10)])"

declare dec.simps [simp del]

definition json_bool :: "bool \<Rightarrow> byte list" where
  "json_bool b = (if b then str ''true'' else str ''false'')"

definition heartbeat_text ::
  "byte list \<Rightarrow> byte list \<Rightarrow> u64 \<Rightarrow> bool \<Rightarrow> byte list \<Rightarrow> byte list option \<Rightarrow> byte list" where
  \<open>heartbeat_text agent_version applied_version applied_counter healthy d rv =
     str ''{"agent_version":"'' @ agent_version @ str ''","applied_version":"'' @ applied_version
     @ str ''","applied_counter":'' @ dec (unat applied_counter)
     @ (case rv of None \<Rightarrow> [] | Some r \<Rightarrow> str '',"reverted_version":"'' @ r @ str ''"'')
     @ str '',"probe":{"healthy":'' @ json_bool healthy @ str '',"detail":"'' @ d @ str ''"}}''\<close>

definition ota_heartbeat_json ::
  "bool \<Rightarrow> bool \<Rightarrow> nat \<Rightarrow> byte list option \<Rightarrow> byte list option \<Rightarrow> u64 \<Rightarrow> bool
     \<Rightarrow> byte list option \<Rightarrow> byte list option \<Rightarrow> byte list option" where
  "ota_heartbeat_json char_signed out_nonnull cap agent_version applied_version applied_counter healthy
     detail reverted_version =
     (if \<not> out_nonnull \<or> cap = 0 then None
      else let av = (case agent_version of None \<Rightarrow> [] | Some s \<Rightarrow> s);
               pv = (case applied_version of None \<Rightarrow> [] | Some s \<Rightarrow> s);
               d = sanitise char_signed 64 detail;
               rv = (case reverted_version of None \<Rightarrow> None
                     | Some s \<Rightarrow> if s \<noteq> [] then Some (sanitise char_signed 32 (Some s)) else None);
               text = heartbeat_text av pv applied_counter healthy d rv
           in if length text \<ge> cap then None else Some text)"

section \<open>Parsing what is printed\<close>

abbreviation is_digit_byte :: "byte \<Rightarrow> bool" where
  "is_digit_byte c \<equiv> in_range c CHR ''0'' CHR ''9''"

definition add_digit :: "u64 \<Rightarrow> byte \<Rightarrow> u64" where
  "add_digit v c = v * 10 + ucast (c - ch CHR ''0'')"

lemma digit_byte:
  assumes "d < 10"
  shows "is_digit_byte (48 + of_nat d)" and "ucast ((48 + of_nat d :: byte) - 48) = (of_nat d :: u64)"
proof -
  from assms have "d \<in> set [0..<10]" by simp
  then have "d \<in> {0, 1, 2, 3, 4, 5, 6, 7, 8, 9}" by (auto simp: upt_rec)
  then show "is_digit_byte (48 + of_nat d)" "ucast ((48 + of_nat d :: byte) - 48) = (of_nat d :: u64)"
    by auto
qed

lemma add_digit_byte: "d < 10 \<Longrightarrow> add_digit v (48 + of_nat d) = v * 10 + of_nat d"
  using digit_byte(2) by (simp add: add_digit_def)

lemma dec_digits: "list_all is_digit_byte (dec n)"
proof (induction n rule: dec.induct)
  case (1 n)
  then show ?case
    using digit_byte(1) [of n] digit_byte(1) [of "n mod 10"] by (subst dec.simps) auto
qed

lemma dec_ne [simp]: "dec n \<noteq> []"
  by (subst dec.simps) simp

lemma foldl_add_digit_dec: "foldl add_digit 0 (dec n) = of_nat n"
proof (induction n rule: dec.induct)
  case (1 n)
  show ?case
  proof (cases "n < 10")
    case True
    then show ?thesis by (subst dec.simps) (simp add: add_digit_byte)
  next
    case False
    have "of_nat (n div 10) * 10 + of_nat (n mod 10) = (of_nat (n div 10 * 10 + n mod 10) :: u64)"
      by (simp only: of_nat_add of_nat_mult of_nat_numeral)
    with False 1 show ?thesis
      by (subst dec.simps) (simp add: add_digit_byte)
  qed
qed

text \<open>Scanning stops at the end of the value or at the first byte the test refuses.\<close>

definition stops_at :: "(byte \<Rightarrow> bool) \<Rightarrow> byte list \<Rightarrow> nat \<Rightarrow> nat \<Rightarrow> bool" where
  "stops_at P p len j \<longleftrightarrow> j = len \<or> j < len \<and> \<not> P (p ! j)"

lemma parse_u64_loop_digits:
  "bytes_at p i ds \<Longrightarrow> list_all is_digit_byte ds \<Longrightarrow> len \<le> length p \<Longrightarrow>
   stops_at is_digit_byte p len (i + length ds) \<Longrightarrow>
   parse_u64_loop p len i v = Ok (foldl add_digit v ds, i + length ds)"
proof (induction ds arbitrary: i v)
  case Nil
  then show ?case by (subst parse_u64_loop.simps) (auto simp: stops_at_def)
next
  case (Cons d ds)
  then have "i < len" by (auto simp: stops_at_def)
  with Cons show ?case
    by (subst parse_u64_loop.simps) (auto simp: bytes_at_Cons add_digit_def [of v "p ! i"])
qed

lemma parse_u64_dec:
  assumes "bytes_at p i (dec n)" "len \<le> length p" "stops_at is_digit_byte p len (i + length (dec n))"
  shows "parse_u64 p len i = Ok (of_nat n, i + length (dec n), True)"
  using parse_u64_loop_digits [OF assms(1) dec_digits assms(2,3), of 0]
  by (simp add: parse_u64_def foldl_add_digit_dec)

lemma skip_while_run:
  "bytes_at p i xs \<Longrightarrow> list_all P xs \<Longrightarrow> len \<le> length p \<Longrightarrow> stops_at P p len (i + length xs) \<Longrightarrow>
   skip_while P p len i = Ok (i + length xs)"
proof (induction xs arbitrary: i)
  case Nil
  then show ?case by (subst skip_while.simps) (auto simp: stops_at_def)
next
  case (Cons d ds)
  then have "i < len" by (auto simp: stops_at_def)
  with Cons show ?case by (subst skip_while.simps) (auto simp: bytes_at_Cons)
qed

lemma match_unit_at:
  "bytes_at p i us \<Longrightarrow> i + length us \<le> len \<Longrightarrow> match_unit us p len i = Ok (i + length us)"
  by (induction us arbitrary: i) (auto simp: bytes_at_Cons)

lemma expect_at: "i < len \<Longrightarrow> len \<le> length p \<Longrightarrow> p ! i = c \<Longrightarrow> expect c p len i True = Ok (Suc i)"
  by (simp add: expect_def)

lemma stops_at_digit:
  "bytes_at p j (c # cs) \<Longrightarrow> j < len \<Longrightarrow> \<not> P c \<Longrightarrow> stops_at P p len j"
  by (auto simp: stops_at_def bytes_at_Cons)

definition range_text :: "nat \<Rightarrow> nat \<Rightarrow> nat \<Rightarrow> byte list" where
  "range_text s e t = str ''bytes '' @ dec s @ str ''-'' @ dec e @ str ''/'' @ dec t"

lemma dec_hd: "bytes_at p i (dec n) \<Longrightarrow> is_digit_byte (p ! i)"
  using dec_digits [of n] by (cases "dec n") (auto simp: bytes_at_Cons)

text \<open>
  C32. On the text \<open>bytes s-e/t\<close> printed from any three numbers the parser returns exactly these numbers
  modulo \<open>2^64\<close>, or refuses when the reduced numbers are not a coherent range. Below \<open>2^64\<close> this is the
  round trip; above it a number that does not fit wraps around and is not refused as malformed.
\<close>

theorem content_range_parse:
  "ota_parse_content_range (Some (range_text s e t)) (length (range_text s e t)) =
     (if (of_nat s :: u64) \<le> of_nat e \<and> (of_nat e :: u64) < of_nat t
      then Ok (of_nat s, of_nat e, of_nat t) else Fail ())"
proof -
  define p where "p = range_text s e t"
  define B where "B = str ''bytes''"
  define i where "i = length B"
  define j where "j = i + 1 + length (dec s)"
  define k where "k = j + 1 + length (dec e)"
  have "p = B @ [32] @ dec s @ [45] @ dec e @ [47] @ dec t"
    by (simp add: p_def B_def range_text_def)
  with bytes_at_all [of p] have at: "bytes_at p 0 (B @ [32] @ dec s @ [45] @ dec e @ [47] @ dec t)"
    and len: "length p = k + 1 + length (dec t)"
    by (simp_all add: i_def j_def k_def)
  from at have B: "bytes_at p 0 B" and sp: "bytes_at p i [32]" and s: "bytes_at p (i + 1) (dec s)"
    and dash: "bytes_at p j [45]" and e: "bytes_at p (j + 1) (dec e)"
    and slash: "bytes_at p k [47]" and t: "bytes_at p (k + 1) (dec t)"
    by (simp_all add: bytes_at_append bytes_at_Cons i_def j_def k_def add.assoc)
  have "p ! 0 = 98" using B by (simp add: B_def bytes_at_Cons)
  then have "skip_while (\<lambda>c. c = 32 \<or> c = 9) p (length p) 0 = Ok 0"
    using len skip_while_run [of p 0 "[]"] by (simp add: stops_at_def)
  moreover have "match_unit B p (length p) 0 = Ok i"
    using match_unit_at [OF B, of "length p"] len by (simp add: i_def j_def k_def)
  moreover have "p ! (i + 1) \<noteq> 32" using dec_hd [OF s] by auto
  then have "skip_while (\<lambda>c. c = 32) p (length p) i = Ok (i + 1)"
    using skip_while_run [OF sp, of "\<lambda>c. c = 32" "length p"] len
    by (simp add: stops_at_def j_def k_def)
  moreover have "parse_u64 p (length p) (i + 1) = Ok (of_nat s, j, True)"
    using parse_u64_dec [OF s order.refl] dash len
    by (simp add: stops_at_def j_def k_def bytes_at_Cons)
  moreover have "expect 45 p (length p) j True = Ok (j + 1)"
    using dash len by (simp add: expect_def k_def bytes_at_Cons)
  moreover have "parse_u64 p (length p) (j + 1) = Ok (of_nat e, k, True)"
    using parse_u64_dec [OF e order.refl] slash len
    by (simp add: stops_at_def k_def bytes_at_Cons)
  moreover have "expect 47 p (length p) k True = Ok (k + 1)"
    using slash len by (simp add: expect_def bytes_at_Cons)
  moreover have "parse_u64 p (length p) (k + 1) = Ok (of_nat t, length p, True)"
    using parse_u64_dec [OF t order.refl] len by (simp add: stops_at_def)
  ultimately show ?thesis
    unfolding ota_parse_content_range_def p_def [symmetric] B_def [symmetric]
    by (simp add: not_le not_less del: str_Cons) 
qed

section \<open>The chunk plan covers the image\<close>

lemma unat_sub_le: "b \<le> a \<Longrightarrow> unat (a - b) = unat a - unat b" for a :: "'a::len word"
  by (simp add: unat_sub)

lemma unat_ucast_u32: "unat (ucast (x :: u32) :: u64) = unat x"
proof -
  have "unat x < 2 ^ 32" using unsigned_less [of x] by simp
  then show ?thesis by (simp add: unsigned_ucast_eq take_bit_nat_eq_self)
qed

lemma ota_chunk_len_bounds:
  assumes "off < tot" "mc \<noteq> 0"
  shows "0 < ota_chunk_len off tot mc" "ota_chunk_len off tot mc \<le> ucast mc"
    "unat (off + ota_chunk_len off tot mc) = unat off + unat (ota_chunk_len off tot mc)"
    "unat off + unat (ota_chunk_len off tot mc) \<le> unat tot"
proof -
  let ?n = "ota_chunk_len off tot mc"
  have mc: "(ucast mc :: u64) \<noteq> 0" using assms(2) by (metis unat_ucast_u32 unat_0 unat_eq_zero)
  have "0 < tot - off"
    using assms(1) by (simp add: word_less_nat_alt unat_sub_le order.strict_implies_order)
  then show "0 < ?n" using assms mc by (auto simp: ota_chunk_len_def Let_def word_neq_0_conv not_le)
  show "?n \<le> ucast mc" using assms by (auto simp: ota_chunk_len_def Let_def)
  have "?n \<le> tot - off" using assms by (auto simp: ota_chunk_len_def Let_def)
  with assms(1) show le: "unat off + unat ?n \<le> unat tot"
    by (simp add: word_le_nat_alt word_less_nat_alt unat_sub_le)
  have "unat tot < 2 ^ LENGTH(64)" by (rule unsigned_less)
  with le show "unat (off + ?n) = unat off + unat ?n" by (simp add: unat_word_ariths)
qed

text \<open>The downloader asks for \<open>ota_chunk_len\<close> bytes at each offset until it answers 0.\<close>

function chunk_plan :: "u64 \<Rightarrow> u64 \<Rightarrow> u32 \<Rightarrow> u64 list" where
  "chunk_plan off tot mc =
     (let n = ota_chunk_len off tot mc in if n = 0 then [] else n # chunk_plan (off + n) tot mc)"
  by pat_completeness auto
termination
proof (relation "measure (\<lambda>(off, tot, mc). unat tot - unat off)", simp)
  fix off tot mc n
  assume n: "n = ota_chunk_len off tot mc" "n \<noteq> 0"
  then have "off < tot" "mc \<noteq> 0" by (auto simp: ota_chunk_len_def split: if_splits)
  from ota_chunk_len_bounds [OF this] n
  show "((off + n, tot, mc), off, tot, mc) \<in> measure (\<lambda>(off, tot, mc). unat tot - unat off)"
    by (simp add: word_less_nat_alt)
qed

declare chunk_plan.simps [simp del]

text \<open>
  C30. With a nonzero chunk bound, the requests planned by \<open>ota_chunk_len\<close> from any offset up to the
  image size are all nonempty and within the bound, and they add up to exactly the bytes that remain:
  the plan never stops early, never overshoots and does not wrap.
\<close>

theorem chunk_plan_covers:
  assumes "mc \<noteq> 0" and "off \<le> tot"
  shows "sum_list (map unat (chunk_plan off tot mc)) = unat tot - unat off
    \<and> (\<forall>n \<in> set (chunk_plan off tot mc). 0 < n \<and> n \<le> ucast mc)"
  using assms
proof (induction off tot mc rule: chunk_plan.induct)
  case (1 off tot mc)
  show ?case
  proof (cases "off < tot")
    case False
    with "1.prems" have "off = tot" by simp
    then show ?thesis by (subst (1 2) chunk_plan.simps) (simp add: ota_chunk_len_def)
  next
    case True
    define n where "n = ota_chunk_len off tot mc"
    note b = ota_chunk_len_bounds [OF True "1.prems"(1), folded n_def]
    from b(1) have "n \<noteq> 0" by simp
    moreover from b(3,4) have "off + n \<le> tot" by (simp add: word_le_nat_alt)
    ultimately have IH: "sum_list (map unat (chunk_plan (off + n) tot mc)) = unat tot - unat (off + n)
        \<and> (\<forall>k \<in> set (chunk_plan (off + n) tot mc). 0 < k \<and> k \<le> ucast mc)"
      using "1.IH" [OF n_def] "1.prems"(1) by blast
    have e: "chunk_plan off tot mc = n # chunk_plan (off + n) tot mc"
      using \<open>n \<noteq> 0\<close> by (subst chunk_plan.simps) (simp add: n_def Let_def)
    show ?thesis unfolding e using IH b by auto
  qed
qed

theorem chunk_plan_covers_witness:
  "sum_list (map unat (chunk_plan 0 2500 1024)) = 2500 \<and> chunk_plan 0 2500 1024 = [1024, 1024, 452]"
proof -
  have "chunk_plan 0 2500 1024 = [1024, 1024, 452]" by code_simp
  with chunk_plan_covers [of 1024 0 2500] show ?thesis by simp
qed

section \<open>Sanitised text\<close>

text \<open>No quote, no backslash and no control character: text that cannot end or alter a JSON string.\<close>

definition json_clean :: "byte list \<Rightarrow> bool" where
  "json_clean s \<longleftrightarrow> (\<forall>c \<in> set s. c \<noteq> 34 \<and> c \<noteq> 92 \<and> 0x20 \<le> c)"

lemma not_char_less:
  assumes "\<not> char_less cs c 0x20"
  shows "0x20 \<le> c"
proof (rule ccontr)
  assume "\<not> 0x20 \<le> c"
  then have c: "c < 2 ^ 5" by simp
  then have "uint c < 2 ^ 5" by (simp add: word_less_def)
  moreover have "0 \<le> uint c" by simp
  moreover have "- (2 ^ 7) \<le> (0 :: int)" "(2 :: int) ^ 5 \<le> 2 ^ 7" by simp_all
  ultimately have "- (2 ^ 7) \<le> uint c" "uint c < 2 ^ 7" by linarith+
  then have "sint c = uint c" by (simp add: sint_uint signed_take_bit_int_eq_self)
  with c have "char_less cs c 0x20" by (simp add: char_less_def word_less_def)
  with assms show False by simp
qed

lemma sanitise_clean: "json_clean (sanitise cs cap s)"
  by (auto simp: json_clean_def sanitise_def dest: not_char_less split: option.splits)

lemma length_sanitise: "length (sanitise cs cap s) \<le> cap - 1"
  by (simp add: sanitise_def split: option.split)


lemma json_clean_append [simp]: "json_clean (xs @ ys) \<longleftrightarrow> json_clean xs \<and> json_clean ys"
  by (auto simp: json_clean_def)

section \<open>The Content-Range parser on arbitrary input\<close>

lemma parse_u64_loop_safe:
  "len \<le> length p \<Longrightarrow> i \<le> len \<Longrightarrow> \<exists>v j. parse_u64_loop p len i v0 = Ok (v, j) \<and> j \<le> len"
proof (induction p len i v0 rule: parse_u64_loop.induct)
  case (1 p len i v)
  then show ?case by (subst parse_u64_loop.simps) auto
qed

lemma skip_while_safe:
  "len \<le> length p \<Longrightarrow> i \<le> len \<Longrightarrow> \<exists>j. skip_while P p len i = Ok j \<and> j \<le> len"
proof (induction P p len i rule: skip_while.induct)
  case (1 P p len i)
  then show ?case by (subst skip_while.simps) auto
qed

lemma parse_u64_safe:
  assumes "len \<le> length p" "i \<le> len"
  shows "\<exists>v j ok. parse_u64 p len i = Ok (v, j, ok) \<and> j \<le> len"
  using parse_u64_loop_safe [OF assms, of 0] by (auto simp: parse_u64_def)

lemma match_unit_safe:
  "len \<le> length p \<Longrightarrow> i \<le> len \<Longrightarrow>
   match_unit us p len i = Fail () \<or> (\<exists>j. match_unit us p len i = Ok j \<and> j \<le> len)"
  by (induction us arbitrary: i) auto

lemma expect_safe:
  "len \<le> length p \<Longrightarrow> expect c p len i ok = Fail () \<or> (\<exists>j. expect c p len i ok = Ok j \<and> j \<le> len)"
  by (auto simp: expect_def)

text \<open>
  C31. On every header value of the stated length, the Content-Range parser reads no byte outside the
  value, and a range it accepts is coherent: start at most end, end below the total.
\<close>

theorem content_range_coherent:
  assumes "len \<le> length p"
  shows "ota_parse_content_range (Some p) len \<noteq> Oob
    \<and> (\<forall>s e t. ota_parse_content_range (Some p) len = Ok (s, e, t) \<longrightarrow> s \<le> e \<and> e < t)"
proof -
  note safe = skip_while_safe [OF assms] match_unit_safe [OF assms] parse_u64_safe [OF assms]
    expect_safe [OF assms]
  define f where "f = (\<lambda>s e i. cbind (parse_u64 p len i) (\<lambda>(t, i, ok).
      if \<not> ok then Fail () else if s > e \<or> e \<ge> t then Fail () else Ok (s, e, t)))"
  define good where "good r \<longleftrightarrow> (case r of
      Oob \<Rightarrow> False | Fail _ \<Rightarrow> True | Ok (s, e, t) \<Rightarrow> s \<le> e \<and> e < t)" for r :: "(unit, u64 \<times> u64 \<times> u64) cres"
  have Fail: "good (Fail ())" by (simp add: good_def)
  have f: "good (f s e i)" if "i \<le> len" for s e i
    using safe(3) [OF that] by (auto simp: f_def good_def not_less)
  define g where "g = (\<lambda>s i. cbind (parse_u64 p len i) (\<lambda>(e, i, ok).
      cbind (expect 47 p len i ok) (\<lambda>i. f s e i)))"
  have g: "good (g s i)" if i: "i \<le> len" for s i
  proof -
    from safe(3) [OF i] obtain e j ok where pe: "parse_u64 p len i = Ok (e, j, ok)" by blast
    from safe(4) [of 47 j ok] show ?thesis
      by (rule disjE) (auto simp: g_def pe Fail intro: f)
  qed
  define h where "h = (\<lambda>i. cbind (parse_u64 p len i) (\<lambda>(s, i, ok).
      cbind (expect 45 p len i ok) (\<lambda>i. g s i)))"
  have h: "good (h i)" if i: "i \<le> len" for i
  proof -
    from safe(3) [OF i] obtain s j ok where ps: "parse_u64 p len i = Ok (s, j, ok)" by blast
    from safe(4) [of 45 j ok] show ?thesis
      by (rule disjE) (auto simp: h_def ps Fail intro: g)
  qed
  obtain i where i: "skip_while (\<lambda>c. c = 32 \<or> c = 9) p len 0 = Ok i" "i \<le> len"
    using safe(1) [of 0] by blast
  have "ota_parse_content_range (Some p) len = cbind (match_unit (str ''bytes'') p len i)
      (\<lambda>i. cbind (skip_while (\<lambda>c. c = 32) p len i) h)"
    by (simp add: ota_parse_content_range_def i(1) f_def g_def h_def del: str_Cons)
  moreover have "good (cbind (skip_while (\<lambda>c. c = 32) p len j) h)" if "j \<le> len" for j
    using safe(1) [OF that, of "\<lambda>c. c = 32"] h by auto
  ultimately have "good (ota_parse_content_range (Some p) len)"
    using safe(2) [OF i(2), of "str ''bytes''"] Fail by auto
  then show ?thesis by (cases "ota_parse_content_range (Some p) len") (auto simp: good_def)
qed

theorem content_range_coherent_witness:
  "ota_parse_content_range (Some (str ''bytes 0-1023/4096 '')) 17 = Ok (0, 1023, 4096)
   \<and> (0 :: u64) \<le> 1023 \<and> (1023 :: u64) < 4096"
proof -
  have r: "ota_parse_content_range (Some (str ''bytes 0-1023/4096 '')) 17 = Ok (0, 1023, 4096)"
    by code_simp
  moreover have "17 \<le> length (str ''bytes 0-1023/4096 '')" by simp
  ultimately show ?thesis using content_range_coherent by blast
qed

section \<open>The heartbeat body is safe JSON\<close>

lemma clean_count: "json_clean s \<Longrightarrow> count_list s 34 = 0 \<and> 92 \<notin> set s \<and> (\<forall>c \<in> set s. 0x20 \<le> c)"
  by (auto simp: json_clean_def count_list_0_iff)

lemma dec_clean: "json_clean (dec n)"
proof -
  have "0x20 \<le> c \<and> c \<noteq> 34 \<and> c \<noteq> 92" if "48 \<le> c" "c \<le> 57" for c :: byte
    using that by (auto simp: word_le_nat_alt)
  then have "json_clean bs" if "list_all is_digit_byte bs" for bs using that by (simp add: json_clean_def list_all_iff)
  then show ?thesis using dec_digits by blast
qed

text \<open>
  C40. The heartbeat body cannot be broken by what it reports: whatever bytes the probe detail and the reverted version hold, an accepted
  body fits its buffer, contains no control character and no backslash, and has exactly the quotes of its fixed
  structure, provided the two version strings are clean.
\<close>

theorem heartbeat_no_injection:
  assumes "ota_heartbeat_json cs nn cap av pv counter healthy detail reverted = Some text"
    and "\<forall>v. av = Some v \<or> pv = Some v \<longrightarrow> json_clean v"
  shows "length text < cap \<and> 92 \<notin> set text \<and> (\<forall>c \<in> set text. 0x20 \<le> c)
    \<and> count_list text 34 = (case reverted of None \<Rightarrow> 18 | Some r \<Rightarrow> if r = [] then 18 else 22)"
proof -
  define a where "a = (case av of None \<Rightarrow> [] | Some s \<Rightarrow> s)"
  define p where "p = (case pv of None \<Rightarrow> [] | Some s \<Rightarrow> s)"
  define d where "d = sanitise cs 64 detail"
  define rv where "rv = (case reverted of None \<Rightarrow> None | Some s \<Rightarrow> if s \<noteq> [] then Some (sanitise cs 32 (Some s)) else None)"
  have t: "text = heartbeat_text a p counter healthy d rv" "length text < cap"
    using assms(1) by (auto simp: ota_heartbeat_json_def Let_def a_def p_def d_def rv_def split: if_splits)
  have cl: "json_clean a" "json_clean p" "json_clean d" "\<And>r. rv = Some r \<Longrightarrow> json_clean r"
    using assms(2) by (auto simp: a_def p_def d_def rv_def sanitise_clean json_clean_def [of "[]"] split: option.splits if_splits)
  note k = clean_count [OF cl(1)] clean_count [OF cl(2)] clean_count [OF cl(3)] clean_count [OF dec_clean [of "unat counter"]]
  have n: "rv = None \<longleftrightarrow> (case reverted of None \<Rightarrow> True | Some r \<Rightarrow> r = [])" by (auto simp: rv_def split: option.splits)
  have "92 \<notin> set text \<and> (\<forall>c \<in> set text. 0x20 \<le> c) \<and> count_list text 34 = (if rv = None then 18 else 22)"
  proof (cases rv)
    case None
    then show ?thesis unfolding t(1) using k by (cases healthy) (simp_all add: heartbeat_text_def json_bool_def ball_Un)
  next
    case (Some r)
    then show ?thesis unfolding t(1)
      using k clean_count [OF cl(4) [OF Some]] by (cases healthy) (simp_all add: heartbeat_text_def json_bool_def ball_Un)
  qed
  with t(2) n show ?thesis by (auto split: option.splits)
qed

theorem heartbeat_no_injection_witness:
  "\<exists>text. ota_heartbeat_json False True 256 (Some (str ''1'')) (Some (str ''2'')) 7 True (Some [34, 92, 10]) (Some [34]) = Some text
     \<and> count_list text 34 = 22 \<and> 92 \<notin> set text"
proof -
  have "ota_heartbeat_json False True 256 (Some (str ''1'')) (Some (str ''2'')) 7 True (Some [34, 92, 10]) (Some [34]) \<noteq> None" by code_simp
  then obtain body where t: "ota_heartbeat_json False True 256 (Some (str ''1'')) (Some (str ''2'')) 7 True (Some [34, 92, 10]) (Some [34]) = Some body"
    by blast
  have "json_clean (str ''1'')" "json_clean (str ''2'')" by (simp_all add: json_clean_def)
  with heartbeat_no_injection [OF t] t show ?thesis by auto
qed

end
