(* ===== verification/Applog.thy ===== *)
theory Applog
  imports Mcu_Prelude
begin

text \<open>
  The log ring, \<^verbatim>\<open>lib/applog/applog.c\<close>. The state is the static buffer with its two indices;
  \<open>RING_SIZE\<close> is the length of the buffer. The spinlock makes \<open>ring_put\<close> and \<open>applog_snapshot\<close> atomic,
  so each is one step of the model. What Zephyr's formatter hands to \<open>out_write\<close> for a message is a
  parameter. The contract of the component is the locale \<open>sliding_window\<close>: the newest bytes survive.
\<close>

section \<open>The ring and its operations\<close>

record ring_buf =
  ring :: "byte list"
  ring_head :: nat
  ring_len :: nat

abbreviation RING_SIZE :: "ring_buf \<Rightarrow> nat" where
  "RING_SIZE r \<equiv> length (ring r)"

definition ring_start :: "nat \<Rightarrow> ring_buf" where
  "ring_start sz = \<lparr>ring = replicate sz 0, ring_head = 0, ring_len = 0\<rparr>"

definition ring_put_byte :: "byte \<Rightarrow> ring_buf \<Rightarrow> ring_buf" where
  "ring_put_byte b r =
     r\<lparr>ring := (ring r)[ring_head r := b],
       ring_head := (ring_head r + 1) mod RING_SIZE r,
       ring_len := (if ring_len r < RING_SIZE r then ring_len r + 1 else ring_len r)\<rparr>"

definition ring_put :: "byte list \<Rightarrow> ring_buf \<Rightarrow> ring_buf" where
  "ring_put data r = fold ring_put_byte data r"

definition out_write :: "byte list \<Rightarrow> ring_buf \<Rightarrow> ring_buf \<times> nat" where
  "out_write data r = (ring_put data r, length data)"

text \<open>\<open>log_output_msg_process\<close> calls \<open>out_write\<close> with the formatted pieces of one message.\<close>

definition applog_process :: "('m \<Rightarrow> byte list list) \<Rightarrow> 'm \<Rightarrow> ring_buf \<Rightarrow> ring_buf" where
  "applog_process log_output_msg msg r = fold (\<lambda>piece r. fst (out_write piece r)) (log_output_msg msg) r"

text \<open>The other hooks of the log backend do nothing; \<open>applog_api\<close> is the table Zephyr's logging thread calls.\<close>

definition applog_init :: "ring_buf \<Rightarrow> ring_buf" where
  "applog_init r = r"

definition applog_panic :: "ring_buf \<Rightarrow> ring_buf" where
  "applog_panic r = r"

definition applog_dropped :: "u32 \<Rightarrow> ring_buf \<Rightarrow> ring_buf" where
  "applog_dropped cnt r = r"

datatype 'm log_call = Log_Process 'm | Log_Init | Log_Panic | Log_Dropped u32

fun applog_api :: "('m \<Rightarrow> byte list list) \<Rightarrow> 'm log_call \<Rightarrow> ring_buf \<Rightarrow> ring_buf" where
  "applog_api log_output_msg (Log_Process msg) r = applog_process log_output_msg msg r"
| "applog_api log_output_msg Log_Init r = applog_init r"
| "applog_api log_output_msg Log_Panic r = applog_panic r"
| "applog_api log_output_msg (Log_Dropped cnt) r = applog_dropped cnt r"

text \<open>\<open>None\<close>: nothing is written and 0 is returned. \<open>Some bs\<close>: \<open>bs\<close> and a NUL are written to \<open>out\<close>
  and the length of \<open>bs\<close> is returned.\<close>

definition applog_snapshot :: "bool \<Rightarrow> nat \<Rightarrow> ring_buf \<Rightarrow> byte list option" where
  "applog_snapshot out_nonnull cap r =
     (if \<not> out_nonnull \<or> cap = 0 then None
      else let n = ring_len r;
               n = (if n > cap - 1 then cap - 1 else n);
               start = (ring_head r + RING_SIZE r - n) mod RING_SIZE r
           in Some (map (\<lambda>i. ring r ! ((start + i) mod RING_SIZE r)) [0..<n]))"

section \<open>The contract: a sliding window over the history\<close>

definition last_n :: "nat \<Rightarrow> 'a list \<Rightarrow> 'a list" where
  "last_n n xs = drop (length xs - n) xs"

lemma length_last_n [simp]: "length (last_n n xs) = min n (length xs)"
  by (auto simp: last_n_def)

lemma last_n_all: "length xs \<le> n \<Longrightarrow> last_n n xs = xs"
  by (simp add: last_n_def)

lemma last_n_last_n: "last_n m (last_n n xs) = last_n (min m n) xs"
proof -
  have "length xs - (length xs - n) - m + (length xs - n) = length xs - min m n"
    by (simp add: min_def) arith
  then show ?thesis by (simp add: last_n_def)
qed

lemma last_n_append_last_n: "last_n n (last_n n xs @ ys) = last_n n (xs @ ys)"
  by (cases "length xs \<le> n") (auto simp: last_n_def add.commute)

lemma fold_fold_concat: "fold (fold f) xss s = fold f (concat xss) s"
  by (induction xss arbitrary: s) auto

locale sliding_window =
  fixes put :: "'b \<Rightarrow> 's \<Rightarrow> 's" and window :: "'s \<Rightarrow> 'b list" and size_of :: "'s \<Rightarrow> nat"
    and wf :: "'s \<Rightarrow> bool"
  assumes put_wf: "wf s \<Longrightarrow> wf (put b s)"
    and put_size: "wf s \<Longrightarrow> size_of (put b s) = size_of s"
    and put_window: "wf s \<Longrightarrow> window (put b s) = last_n (size_of s) (window s @ [b])"
    and window_size: "wf s \<Longrightarrow> length (window s) \<le> size_of s"
begin

lemma fold_put:
  "wf s \<Longrightarrow> wf (fold put bs s) \<and> size_of (fold put bs s) = size_of s
     \<and> window (fold put bs s) = last_n (size_of s) (window s @ bs)"
proof (induction bs arbitrary: s)
  case Nil
  then show ?case by (simp add: last_n_all window_size)
next
  case (Cons b bs)
  then show ?case
    by (simp add: put_wf put_size put_window last_n_append_last_n)
qed

lemma fold_pieces:
  "wf s \<Longrightarrow> wf (fold (fold put) bss s) \<and> size_of (fold (fold put) bss s) = size_of s
     \<and> window (fold (fold put) bss s) = last_n (size_of s) (window s @ concat bss)"
  using fold_put [of s "concat bss"] by (simp add: fold_fold_concat)

end

section \<open>The ring implements the window\<close>

definition ring_ok :: "ring_buf \<Rightarrow> bool" where
  "ring_ok r \<longleftrightarrow> ring_head r < RING_SIZE r \<and> ring_len r \<le> RING_SIZE r"

definition ring_window :: "ring_buf \<Rightarrow> byte list" where
  "ring_window r = map (\<lambda>i. ring r ! ((ring_head r + RING_SIZE r - ring_len r + i) mod RING_SIZE r)) [0..<ring_len r]"

lemma mod_shift_ne:
  fixes h k N :: nat
  assumes "h < N" "0 < k" "k < N"
  shows "(h + k) mod N \<noteq> h"
  using assms by (cases "h + k < N") (auto simp: mod_if)

lemma ring_window_put:
  assumes "ring_ok r"
  shows "ring_window (ring_put_byte b r) = last_n (RING_SIZE r) (ring_window r @ [b])"
proof -
  define h N l where "h = ring_head r" and "N = RING_SIZE r" and "l = ring_len r"
  note defs = h_def [symmetric] N_def [symmetric] l_def [symmetric]
  have b: "h < N" "l \<le> N" using assms by (simp_all add: ring_ok_def defs)
  have skip: "(ring r)[h := b] ! ((h + k) mod N) = ring r ! ((h + k) mod N)" if "0 < k" "k < N" for k
    using mod_shift_ne [OF b(1) that] by simp
  have hit: "(ring r)[h := b] ! ((h + N) mod N) = b" using b(1) by (simp add: N_def)
  show ?thesis
  proof (cases "l < N")
    case True
    have "(Suc h mod N + N - Suc l + i) mod N = (h + (N - l + i)) mod N" for i
    proof -
      have "Suc h mod N + N - Suc l + i = Suc h mod N + (N - Suc l + i)" using True by simp
      also have "\<dots> mod N = (Suc h + (N - Suc l + i)) mod N" by (simp add: mod_add_left_eq)
      finally show ?thesis using True by (simp add: Suc_diff_Suc)
    qed
    then have "ring_window (ring_put_byte b r) =
        map (\<lambda>i. (ring r)[h := b] ! ((h + (N - l + i)) mod N)) [0..<Suc l]"
      using True by (simp add: ring_window_def ring_put_byte_def defs)
    also have "\<dots> = map (\<lambda>i. ring r ! ((h + (N - l + i)) mod N)) [0..<l] @ [b]"
    proof -
      have "(ring r)[h := b] ! ((h + (N - l + i)) mod N) = ring r ! ((h + (N - l + i)) mod N)" if "i < l" for i
        by (rule skip) (use True that in arith)+
      then show ?thesis using hit b by (simp del: diff_add_assoc2 Nat.add_diff_assoc)
    qed
    also have "\<dots> = ring_window r @ [b]" using b by (simp add: ring_window_def defs add.assoc)
    finally show ?thesis using True by (simp add: last_n_all ring_window_def defs)
  next
    case False
    with b have l: "l = N" by simp
    have "(Suc h mod N + N - N + i) mod N = (h + Suc i) mod N" for i by (simp add: mod_add_left_eq)
    then have "ring_window (ring_put_byte b r) =
        map (\<lambda>i. (ring r)[h := b] ! ((h + Suc i) mod N)) [0..<N]"
      using False l by (simp add: ring_window_def ring_put_byte_def defs)
    also have "\<dots> = map (\<lambda>i. ring r ! ((h + Suc i) mod N)) [0..<N - 1] @ [b]"
    proof -
      have "(ring r)[h := b] ! ((h + Suc i) mod N) = ring r ! ((h + Suc i) mod N)" if "i < N - 1" for i
        by (rule skip) (use that in arith)+
      then show ?thesis using hit b by (cases N) auto
    qed
    also have "\<dots> = last_n N (ring_window r @ [b])"
      using b l by (cases N) (auto simp: last_n_def ring_window_def defs upt_conv_Cons map_Suc_upt [symmetric] simp del: upt_Suc)
    finally show ?thesis by (simp add: defs)
  qed
qed

lemma ring_ok_put: "ring_ok r \<Longrightarrow> ring_ok (ring_put_byte b r)"
  by (auto simp: ring_ok_def ring_put_byte_def intro: mod_less_divisor)

lemma ring_size_put [simp]: "RING_SIZE (ring_put_byte b r) = RING_SIZE r"
  by (simp add: ring_put_byte_def)

interpretation log_ring: sliding_window ring_put_byte ring_window "\<lambda>r. RING_SIZE r" ring_ok
  by unfold_locales (simp_all add: ring_ok_put ring_window_put, simp add: ring_window_def ring_ok_def)

lemma snapshot_window:
  assumes "ring_ok r" "0 < cap"
  shows "applog_snapshot True cap r = Some (last_n (cap - 1) (ring_window r))"
proof -
  define h N l n where "h = ring_head r" and "N = RING_SIZE r" and "l = ring_len r"
    and "n = min l (cap - 1)"
  note defs = h_def [symmetric] N_def [symmetric] l_def [symmetric]
  have b: "h < N" "l \<le> N" "n \<le> l" using assms by (simp_all add: ring_ok_def defs n_def)
  have "applog_snapshot True cap r = Some (map (\<lambda>i. ring r ! ((h + N - n + i) mod N)) [0..<n])"
    using assms(2) by (auto simp: applog_snapshot_def defs n_def Let_def min_def mod_add_left_eq)
  also have "map (\<lambda>i. ring r ! ((h + N - n + i) mod N)) [0..<n] = drop (l - n) (ring_window r)"
    using b by (auto simp: ring_window_def defs list_eq_iff_nth_eq add.commute)
  also have "drop (l - n) (ring_window r) = last_n (cap - 1) (ring_window r)"
    by (simp add: last_n_def ring_window_def defs n_def min_def)
  finally show ?thesis .
qed

lemma ring_start_window: "0 < N \<Longrightarrow> ring_ok (ring_start N) \<and> ring_window (ring_start N) = []"
  by (simp add: ring_ok_def ring_window_def ring_start_def)

lemma applog_process_window:
  assumes "ring_ok r"
  shows "ring_ok (applog_process fmt m r) \<and> RING_SIZE (applog_process fmt m r) = RING_SIZE r
    \<and> ring_window (applog_process fmt m r) = last_n (RING_SIZE r) (ring_window r @ concat (fmt m))"
proof -
  have "applog_process fmt m r = fold (fold ring_put_byte) (fmt m) r"
    by (simp add: applog_process_def out_write_def ring_put_def [abs_def])
  then show ?thesis using log_ring.fold_pieces [OF assms, of "fmt m"] by (simp only:)
qed

text \<open>The messages among the calls of the backend.\<close>

fun logged :: "'m log_call \<Rightarrow> 'm list" where
  "logged (Log_Process msg) = [msg]"
| "logged _ = []"

lemma applog_api_window:
  assumes "ring_ok r"
  shows "ring_ok (applog_api fmt c r) \<and> RING_SIZE (applog_api fmt c r) = RING_SIZE r
    \<and> ring_window (applog_api fmt c r) = last_n (RING_SIZE r) (ring_window r @ concat (concat (map fmt (logged c))))"
  using assms applog_process_window [OF assms] log_ring.window_size
  by (cases c) (simp_all add: applog_init_def applog_panic_def applog_dropped_def last_n_all)

lemma applog_api_all:
  assumes "ring_ok r"
  shows "ring_ok (fold (applog_api fmt) cs r) \<and> RING_SIZE (fold (applog_api fmt) cs r) = RING_SIZE r
    \<and> ring_window (fold (applog_api fmt) cs r)
      = last_n (RING_SIZE r) (ring_window r @ concat (concat (map fmt (concat (map logged cs)))))"
  using assms
proof (induction cs arbitrary: r)
  case Nil
  then show ?case using log_ring.window_size by (simp add: last_n_all)
next
  case (Cons c cs)
  then show ?case
    using applog_api_window [OF Cons.prems, of fmt c]
      Cons.IH [of "applog_api fmt c r"] by (simp add: last_n_append_last_n)
qed

text \<open>
  C29. Whatever the logging thread called the backend for, a snapshot into a buffer of \<open>cap\<close> bytes is exactly the newest
  bytes of the output of all processed messages, oldest first: as many as the ring holds and as leave room for the
  NUL. So nothing retained is lost, reordered or duplicated when the ring wraps.
\<close>

theorem applog_snapshot_newest:
  assumes "0 < N" and "0 < cap"
  shows "applog_snapshot True cap (fold (applog_api fmt) calls (ring_start N))
    = Some (last_n (min (cap - 1) N) (concat (concat (map fmt (concat (map logged calls))))))"
proof -
  have "RING_SIZE (ring_start N) = N" by (simp add: ring_start_def)
  with applog_api_all [of "ring_start N" fmt calls] ring_start_window [OF assms(1)]
  show ?thesis by (simp add: snapshot_window assms(2) last_n_last_n)
qed

theorem applog_snapshot_newest_witness:
  "applog_snapshot True 8 (fold (applog_api (\<lambda>m. [str m, [10]]))
       [Log_Init, Log_Process ''abcd'', Log_Dropped 2, Log_Process ''efg'', Log_Process ''hi'', Log_Panic] (ring_start 6))
     = Some (str ''fg'' @ [10] @ str ''hi'' @ [10])"
proof -
  have "last_n (min (8 - 1) 6) (concat (concat (map (\<lambda>m. [str m, [10]]) [''abcd'', ''efg'', ''hi''])))
      = str ''fg'' @ [10] @ str ''hi'' @ [10]" by (simp add: last_n_def)
  with applog_snapshot_newest [of 6 8 "\<lambda>m. [str m, [10]]"
      "[Log_Init, Log_Process ''abcd'', Log_Dropped 2, Log_Process ''efg'', Log_Process ''hi'', Log_Panic]"]
  show ?thesis by simp
qed

end
