(* ===== verification/Claim_Proto.thy ===== *)
theory Claim_Proto
  imports Ota "HOL-Library.Monad_Syntax"
begin

text \<open>
  The claim protocol's text handling, \<^verbatim>\<open>lib/provision/claim_proto.c\<close>: the JSON request, the
  field scanner for flat JSON objects and the PEM reader for the manifest key. A pointer into a C string is
  the list of the bytes from there to the NUL; dereferencing it at its end reads the NUL. \<open>None\<close> is the
  source's \<open>-1\<close> (or NULL), \<open>Some bs\<close> the bytes written before the NUL.
\<close>

section \<open>C strings\<close>

definition deref :: "byte list \<Rightarrow> byte" where
  "deref p = (case p of [] \<Rightarrow> 0 | c # _ \<Rightarrow> c)"

definition strchr :: "byte list \<Rightarrow> byte \<Rightarrow> byte list option" where
  "strchr s c = (case dropWhile (\<lambda>x. x \<noteq> c) s of [] \<Rightarrow> None | p \<Rightarrow> Some p)"

fun strstr :: "byte list \<Rightarrow> byte list \<Rightarrow> byte list option" where
  "strstr [] needle = (if needle = [] then Some [] else None)"
| "strstr (c # s) needle = (if take (length needle) (c # s) = needle then Some (c # s) else strstr s needle)"

section \<open>Building the request\<close>

definition esc_char :: "byte \<Rightarrow> byte list" where
  "esc_char c =
     (if c = 34 then [92, 34] else if c = 92 then [92, 92] else if c = 10 then [92, ch CHR ''n'']
      else if c = 13 then [92, ch CHR ''r''] else if c = 9 then [92, ch CHR ''t''] else [c])"

text \<open>The output so far is the first \<open>*w\<close> bytes of \<open>out\<close>.\<close>

fun append_escaped :: "nat \<Rightarrow> byte list \<Rightarrow> byte list \<Rightarrow> byte list option" where
  "append_escaped cap [] out = Some out"
| "append_escaped cap (c # s) out =
     (let esc = esc_char c in
      if length out + length esc \<ge> cap then None else append_escaped cap s (out @ esc))"

definition append_raw :: "nat \<Rightarrow> byte list \<Rightarrow> byte list \<Rightarrow> byte list option" where
  "append_raw cap s out = (if length out + length s \<ge> cap then None else Some (out @ s))"

definition claim_build_request ::
  "byte list option \<Rightarrow> byte list option \<Rightarrow> byte list option \<Rightarrow> bool \<Rightarrow> nat \<Rightarrow> byte list option" where
  \<open>claim_build_request claim_token device_id csr_pem out_nonnull cap =
     (case (claim_token, device_id, csr_pem) of
        (Some claim_token, Some device_id, Some csr_pem) \<Rightarrow>
          if \<not> out_nonnull \<or> cap = 0 then None
          else do {
            w \<leftarrow> append_raw cap (str ''{"claim_token":"'') [];
            w \<leftarrow> append_escaped cap claim_token w;
            w \<leftarrow> append_raw cap (str ''","device_id":"'') w;
            w \<leftarrow> append_escaped cap device_id w;
            w \<leftarrow> append_raw cap (str ''","csr_pem":"'') w;
            w \<leftarrow> append_escaped cap csr_pem w;
            append_raw cap (str ''"}'') w
          }
      | _ \<Rightarrow> None)\<close>

section \<open>Reading a field\<close>

definition skip_ws :: "byte list \<Rightarrow> byte list" where
  "skip_ws q = dropWhile (\<lambda>c. c = 32 \<or> c = 9) q"

lemma strchr_length: "strchr s c = Some p \<Longrightarrow> length (tl p) < length s"
  using length_dropWhile_le [of "\<lambda>x. x \<noteq> c" s]
  by (cases "dropWhile (\<lambda>x. x \<noteq> c) s") (auto simp: strchr_def)

function find_value_start :: "byte list \<Rightarrow> byte list \<Rightarrow> byte list option" where
  "find_value_start json field =
     (case strchr json 34 of
        None \<Rightarrow> None
      | Some p \<Rightarrow>
          let k = tl p in
          if take (length field) k = field \<and> deref (drop (length field) k) = 34
          then let q = skip_ws (drop (length field + 1) k) in
               if deref q \<noteq> ch CHR '':'' then find_value_start (tl p) field
               else let q = skip_ws (tl q) in
                    if deref q \<noteq> 34 then None else Some (tl q)
          else find_value_start (tl p) field)"
  by pat_completeness auto

termination
  by (relation "measure (\<lambda>(json, field). length json)") (auto dest: strchr_length)

declare find_value_start.simps [simp del]

definition unesc_char :: "byte \<Rightarrow> byte" where
  "unesc_char c =
     (if c = ch CHR ''n'' then 10 else if c = ch CHR ''t'' then 9 else if c = ch CHR ''r'' then 13 else c)"

fun extract_loop :: "nat \<Rightarrow> byte list \<Rightarrow> byte list \<Rightarrow> byte list option" where
  "extract_loop cap [] out = None"
| "extract_loop cap [v] out = (if v = 34 then Some out else None)"
| "extract_loop cap (v # v' # vs) out =
     (if v = 34 then Some out
      else if v = 92
      then if length out + 1 \<ge> cap then None else extract_loop cap vs (out @ [unesc_char v'])
      else if length out + 1 \<ge> cap then None else extract_loop cap (v' # vs) (out @ [v]))"

definition json_extract_string ::
  "byte list option \<Rightarrow> byte list option \<Rightarrow> bool \<Rightarrow> nat \<Rightarrow> byte list option" where
  "json_extract_string json field out_nonnull cap =
     (case (json, field) of
        (Some json, Some field) \<Rightarrow>
          if \<not> out_nonnull \<or> cap = 0 then None
          else (case find_value_start json field of None \<Rightarrow> None | Some v \<Rightarrow> extract_loop cap v [])
      | _ \<Rightarrow> None)"

section \<open>The manifest key\<close>

text \<open>\<open>None\<close> is the source's \<open>-1\<close>.\<close>

definition b64val :: "byte \<Rightarrow> u32 option" where
  "b64val c =
     (if in_range c CHR ''A'' CHR ''Z'' then Some (ucast (c - ch CHR ''A''))
      else if in_range c CHR ''a'' CHR ''z'' then Some (ucast (c - ch CHR ''a'') + 26)
      else if in_range c CHR ''0'' CHR ''9'' then Some (ucast (c - ch CHR ''0'') + 52)
      else if c = ch CHR ''+'' then Some 62
      else if c = ch CHR ''/'' then Some 63
      else None)"

definition ED25519_SPKI_PREFIX :: "byte list" where
  "ED25519_SPKI_PREFIX = [0x30, 0x2a, 0x30, 0x05, 0x06, 0x03, 0x2b, 0x65, 0x70, 0x03, 0x21, 0x00]"

text \<open>
  The accumulator is the 32-bit pattern of \<open>int acc\<close>; the source never masks it, so the shift wraps
  (for a C \<open>int\<close> that is undefined behaviour once the value leaves the range; the pattern is what
  two's-complement targets compute).
\<close>

fun b64_loop :: "byte list \<Rightarrow> byte list \<Rightarrow> u32 \<Rightarrow> nat \<Rightarrow> byte list option" where
  "b64_loop [] der acc nbits = Some der"
| "b64_loop (c # p) der acc nbits =
     (if c = ch CHR ''='' then Some der
      else case b64val c of
        None \<Rightarrow> b64_loop p der acc nbits
      | Some v \<Rightarrow>
          let acc = push_bit 6 acc OR v; nbits = nbits + 6 in
          if nbits \<ge> 8
          then let nbits = nbits - 8 in
               if length der \<ge> 48 then None
               else b64_loop p (der @ [ucast (drop_bit nbits acc)]) acc nbits
          else b64_loop p der acc nbits)"

definition claim_ed25519_pub_from_pem :: "byte list option \<Rightarrow> bool \<Rightarrow> byte list option" where
  "claim_ed25519_pub_from_pem pem out_nonnull =
     (case pem of None \<Rightarrow> None | Some pem \<Rightarrow>
      if \<not> out_nonnull then None
      else do {
        b \<leftarrow> strstr pem (str ''-----BEGIN'');
        b \<leftarrow> strchr b 10;
        let b = tl b;
        e \<leftarrow> strstr b (str ''-----END'');
        der \<leftarrow> b64_loop (take (length b - length e) b) [] 0 0;
        if length der \<noteq> 12 + 32 \<or> take 12 der \<noteq> ED25519_SPKI_PREFIX then None
        else Some (drop 12 der)
      })"

section \<open>Escaping and its inverse\<close>

definition esc :: "byte list \<Rightarrow> byte list" where
  "esc s = concat (map esc_char s)"

lemma esc_Nil [simp]: "esc [] = []"
  by (simp add: esc_def)

lemma esc_Cons [simp]: "esc (c # s) = esc_char c @ esc s"
  by (simp add: esc_def)

lemma esc_char_cases:
  obtains (plain) "esc_char c = [c]" "c \<noteq> 34" "c \<noteq> 92"
  | (escaped) e where "esc_char c = [92, e]" "unesc_char e = c"
proof (cases "c \<in> {34, 92, 10, 13, 9}")
  case True
  then have "\<exists>e. esc_char c = [92, e] \<and> unesc_char e = c" by (auto simp: esc_char_def unesc_char_def)
  with escaped show ?thesis by blast
next
  case False
  with plain show ?thesis by (simp add: esc_char_def)
qed

lemma append_escaped_eq:
  "length out < cap \<Longrightarrow>
   append_escaped cap s out = (if length (out @ esc s) < cap then Some (out @ esc s) else None)"
  by (induction s arbitrary: out) (auto simp: Let_def)

lemma extract_loop_esc:
  "length out < cap \<Longrightarrow> extract_loop cap (esc s @ 34 # rest) out =
     (if length (out @ s) < cap then Some (out @ s) else None)"
proof (induction s arbitrary: out)
  case Nil
  then show ?case by (cases rest) auto
next
  case (Cons c s)
  obtain x xs where x: "esc s @ 34 # rest = x # xs" by (cases "esc s") auto
  show ?case using Cons.IH [of "out @ [c]"] Cons.prems
    by (cases c rule: esc_char_cases) (simp_all add: x)
qed

section \<open>Flat JSON objects\<close>

definition json_entry :: "byte list \<times> byte list \<Rightarrow> byte list" where
  "json_entry = (\<lambda>(k, v). [34] @ k @ [34, 58, 34] @ esc v @ [34])"

fun json_entries :: "(byte list \<times> byte list) list \<Rightarrow> byte list" where
  "json_entries [] = []"
| "json_entries [e] = json_entry e"
| "json_entries (e # es) = json_entry e @ [44] @ json_entries es"

definition json_object :: "(byte list \<times> byte list) list \<Rightarrow> byte list" where
  "json_object es = [123] @ json_entries es @ [125]"

text \<open>A plain key has no quote and no backslash, and is not one of the separators.\<close>

definition plain_key :: "byte list \<Rightarrow> bool" where
  "plain_key k \<longleftrightarrow> k \<noteq> [] \<and> list_all (\<lambda>c. c = 95 \<or> in_range c CHR ''a'' CHR ''z'') k"

lemma find_skip:
  "\<forall>c \<in> set xs. c \<noteq> 34 \<Longrightarrow> find_value_start (xs @ ys) f = find_value_start ys f"
  by (subst (1 2) find_value_start.simps) (simp add: strchr_def dropWhile_append)

lemma find_quote:
  "find_value_start (34 # k) f =
     (if take (length f) k = f \<and> deref (drop (length f) k) = 34
      then let q = skip_ws (drop (length f + 1) k) in
           if deref q \<noteq> 58 then find_value_start k f
           else let q = skip_ws (tl q) in if deref q \<noteq> 34 then None else Some (tl q)
      else find_value_start k f)"
  by (subst find_value_start.simps) (simp add: strchr_def Let_def)

text \<open>Inside an escaped value every quote follows a backslash, so no key matches there.\<close>

lemma plain_key_mem: "plain_key f \<Longrightarrow> c \<in> set f \<Longrightarrow> c \<noteq> 34 \<and> c \<noteq> 92 \<and> c \<noteq> 58 \<and> c \<noteq> 44 \<and> c \<noteq> 125"
  by (auto simp: plain_key_def list_all_iff)

abbreviation key_match :: "byte list \<Rightarrow> byte list \<Rightarrow> bool" where
  "key_match f k \<equiv> take (length f) k = f \<and> deref (drop (length f) k) = 34"

lemma key_match_esc:
  "key_match f (esc s @ 34 # rest) \<Longrightarrow> \<forall>c \<in> set f. c \<noteq> 34 \<and> c \<noteq> 92 \<Longrightarrow> esc s = f"
proof (induction s arbitrary: f)
  case Nil
  then show ?case by (cases f) (auto simp: deref_def)
next
  case (Cons c s)
  show ?case
  proof (cases f)
    case Nil
    with Cons.prems show ?thesis by (cases c rule: esc_char_cases) (simp_all add: deref_def)
  next
    case (Cons d f')
    have "esc_char c = [c]" "c = d"
      using Cons.prems Cons by (cases c rule: esc_char_cases; simp)+
    with Cons.prems Cons Cons.IH [of f'] show ?thesis by simp
  qed
qed

lemma esc_plain: "plain_key k \<Longrightarrow> esc k = k"
proof -
  have "list_all (\<lambda>c. c = 95 \<or> in_range c CHR ''a'' CHR ''z'') k \<Longrightarrow> esc k = k"
    by (induction k) (auto simp: esc_char_def)
  then show "plain_key k \<Longrightarrow> esc k = k" by (simp add: plain_key_def)
qed

lemma key_match_plain: "plain_key k \<Longrightarrow> plain_key f \<Longrightarrow> key_match f (k @ 34 # rest) \<Longrightarrow> k = f"
  using key_match_esc [of f k rest] plain_key_mem [of f] by (auto simp: esc_plain)

lemma find_not_match: "\<not> key_match f k \<Longrightarrow> find_value_start (34 # k) f = find_value_start k f"
  by (subst find_quote) auto

lemma find_no_colon:
  "skip_ws (drop (length f + 1) k) = c # r \<Longrightarrow> c \<noteq> 58 \<Longrightarrow> find_value_start (34 # k) f = find_value_start k f"
  by (subst find_quote) (auto simp: deref_def)

lemma find_Cons: "c \<noteq> 34 \<Longrightarrow> find_value_start (c # ys) f = find_value_start ys f"
  using find_skip [of "[c]"] by simp

text \<open>\<open>c\<close> is what follows a value: a comma or the closing brace.\<close>

lemma find_open_value:
  assumes "plain_key f" "c = 44 \<or> c = 125"
  shows "find_value_start (34 # esc s @ 34 # c # r) f = find_value_start (esc s @ 34 # c # r) f"
proof (cases "key_match f (esc s @ 34 # c # r)")
  case True
  with assms plain_key_mem have "esc s = f" by (intro key_match_esc) blast+
  then have "skip_ws (drop (length f + 1) (esc s @ 34 # c # r)) = c # r"
    using assms(2) by (auto simp: skip_ws_def)
  then show ?thesis using assms(2) by (intro find_no_colon) auto
qed (rule find_not_match)

lemma find_in_value:
  assumes "plain_key f" "c = 44 \<or> c = 125"
  shows "find_value_start (esc s @ 34 # c # r) f = find_value_start r f"
proof (induction s)
  case Nil
  have "\<not> key_match f (c # r)" using assms plain_key_mem [of f c] by (cases f) (auto simp: plain_key_def)
  then show ?case using assms(2) find_not_match [of f "c # r"] by (auto simp: find_Cons)
next
  case (Cons d s)
  have "find_value_start (e # esc s @ 34 # c # r) f = find_value_start r f" for e
    using find_open_value [OF assms] Cons by (cases "e = 34") (simp_all add: find_Cons)
  then show ?case by (cases d rule: esc_char_cases) (simp_all add: find_Cons)
qed

lemma find_entry:
  assumes "plain_key f" "plain_key k" "c = 44 \<or> c = 125"
  shows "find_value_start (json_entry (k, v) @ c # r) f
    = (if k = f then Some (esc v @ 34 # c # r) else find_value_start r f)"
proof (cases "k = f")
  case True
  then show ?thesis
    by (simp add: json_entry_def find_quote skip_ws_def deref_def)
next
  case False
  with assms have "\<not> key_match f (k @ 34 # 58 # 34 # esc v @ 34 # c # r)"
    using key_match_plain by blast
  then have "find_value_start (json_entry (k, v) @ c # r) f
      = find_value_start (k @ 34 # 58 # 34 # esc v @ 34 # c # r) f"
    by (simp add: json_entry_def find_not_match)
  also have "\<dots> = find_value_start (34 # 58 # 34 # esc v @ 34 # c # r) f"
    using plain_key_mem [OF assms(2)] by (intro find_skip) auto
  also have "\<dots> = find_value_start (34 # esc v @ 34 # c # r) f"
  proof -
    have "\<not> key_match f (58 # 34 # esc v @ 34 # c # r)"
      using plain_key_mem [OF assms(1), of 58] assms(1) by (cases f) (auto simp: plain_key_def)
    then show ?thesis by (simp add: find_not_match find_Cons)
  qed
  also have "\<dots> = find_value_start r f"
    using find_open_value [OF assms(1,3)] find_in_value [OF assms(1,3)] by simp
  finally show ?thesis using False by simp
qed

lemma find_entries:
  assumes "plain_key f"
  shows "\<forall>e \<in> set es. plain_key (fst e) \<Longrightarrow>
    case map_of es f of None \<Rightarrow> find_value_start (json_entries es @ 125 # r) f = find_value_start r f
    | Some v \<Rightarrow> \<exists>rest. find_value_start (json_entries es @ 125 # r) f = Some (esc v @ 34 # rest)"
proof (induction es rule: json_entries.induct)
  case 1
  then show ?case by (simp add: find_Cons)
next
  case (2 e)
  obtain k v where e: "e = (k, v)" by force
  with 2 show ?case using find_entry [OF assms, of k 125 v r] by auto
next
  case (3 e e' es)
  obtain k v where e: "e = (k, v)" by force
  have je: "json_entries (e # e' # es) @ 125 # r = json_entry (k, v) @ 44 # json_entries (e' # es) @ 125 # r"
    and mo: "map_of (e # e' # es) f = (if k = f then Some v else map_of (e' # es) f)"
    by (simp_all add: e)
  from 3 e have "plain_key k" "\<forall>e \<in> set (e' # es). plain_key (fst e)" by simp_all
  with 3 show ?case unfolding je mo
    using find_entry [OF assms, of k 44 v "json_entries (e' # es) @ 125 # r"]
    by (cases "k = f") (simp_all del: map_of.simps json_entries.simps split: option.splits)
qed

lemma json_extract_entries:
  assumes "plain_key f" "\<forall>e \<in> set es. plain_key (fst e)" "0 < cap"
  shows "json_extract_string (Some (json_object es)) (Some f) True cap
    = (case map_of es f of None \<Rightarrow> None | Some v \<Rightarrow> if length v < cap then Some v else None)"
proof -
  have "find_value_start (json_object es) f = find_value_start (json_entries es @ [125]) f"
    by (simp add: json_object_def find_Cons)
  moreover have "find_value_start [] f = None" by (subst find_value_start.simps) (simp add: strchr_def)
  ultimately show ?thesis
    using find_entries [OF assms(1,2), of "[]"] assms(3)
    by (auto simp: json_extract_string_def extract_loop_esc split: option.splits)
qed

text \<open>
  C26. In every flat JSON object of string entries with lower-case keys, whatever bytes the values hold,
  \<open>json_extract_string\<close> finds the first entry with the requested key and returns exactly its value when
  it fits, and fails when the key is missing or the value does not fit. In particular no value, even one
  that contains a quoted key and a colon, is ever taken for an entry.
\<close>

theorem json_extract_object:
  assumes "plain_key f" "\<forall>e \<in> set es. plain_key (fst e)" "0 < cap"
  shows "json_extract_string (Some (json_object es)) (Some f) True cap
    = (case map_of es f of None \<Rightarrow> None | Some v \<Rightarrow> if length v < cap then Some v else None)"
  by (rule json_extract_entries [OF assms])

theorem json_extract_object_witness:
  "json_extract_string (Some (json_object [(str ''key_id'', str ''alg''), (str ''alg'', [34, 58, 92, 10])]))
     (Some (str ''alg'')) True 8 = Some [34, 58, 92, 10]"
proof -
  have "plain_key (str ''alg'')" "plain_key (str ''key_id'')" by (simp_all add: plain_key_def)
  with json_extract_object [of "str ''alg''" "[(str ''key_id'', str ''alg''), (str ''alg'', [34, 58, 92, 10])]" 8]
  show ?thesis by simp
qed

section \<open>The claim request\<close>

definition request_text :: "byte list \<Rightarrow> byte list \<Rightarrow> byte list \<Rightarrow> byte list" where
  "request_text tok did csr =
     json_object [(str ''claim_token'', tok), (str ''device_id'', did), (str ''csr_pem'', csr)]"

lemma claim_build_request_eq:
  "claim_build_request (Some tok) (Some did) (Some csr) True cap
     = (if length (request_text tok did csr) < cap then Some (request_text tok did csr) else None)"
proof -
  have esc: "append_raw cap xs out \<bind> (\<lambda>w. append_escaped cap s w \<bind> f)
      = (if length (out @ xs @ esc s) < cap then f (out @ xs @ esc s) else None)" for xs s out f
    by (simp add: append_raw_def append_escaped_eq not_less)
  show ?thesis
    unfolding claim_build_request_def prod.case option.case esc
    by (simp add: append_raw_def request_text_def json_object_def json_entry_def not_le)
qed


lemma length_esc: "length s \<le> length (esc s)"
proof (induction s)
  case (Cons c s)
  then show ?case by (cases c rule: esc_char_cases) simp_all
qed simp

lemma extract_request:
  assumes "length (request_text tok did csr) < cap"
  shows "json_extract_string (Some (request_text tok did csr)) (Some (str ''claim_token'')) True cap = Some tok"
    and "json_extract_string (Some (request_text tok did csr)) (Some (str ''device_id'')) True cap = Some did"
    and "json_extract_string (Some (request_text tok did csr)) (Some (str ''csr_pem'')) True cap = Some csr"
proof -
  have keys: "plain_key (str ''claim_token'')" "plain_key (str ''device_id'')" "plain_key (str ''csr_pem'')"
    by (simp_all add: plain_key_def)
  have "length tok < cap" "length did < cap" "length csr < cap"
    using assms length_esc [of tok] length_esc [of did] length_esc [of csr]
    by (simp_all add: request_text_def json_object_def json_entry_def)
  note facts = keys this
  let ?es = "[(str ''claim_token'', tok), (str ''device_id'', did), (str ''csr_pem'', csr)]"
  have ext: "plain_key f \<Longrightarrow> map_of ?es f = Some v \<Longrightarrow> length v < cap \<Longrightarrow>
      json_extract_string (Some (request_text tok did csr)) (Some f) True cap = Some v" for f v
    using json_extract_entries [of f ?es cap] keys by (simp add: request_text_def del: map_of.simps str_Cons)
  show "json_extract_string (Some (request_text tok did csr)) (Some (str ''claim_token'')) True cap = Some tok"
    "json_extract_string (Some (request_text tok did csr)) (Some (str ''device_id'')) True cap = Some did"
    "json_extract_string (Some (request_text tok did csr)) (Some (str ''csr_pem'')) True cap = Some csr"
    by (rule ext; use facts in simp)+
qed

text \<open>
  C27. The claim request round-trips: for arbitrary token, device id and CSR, \<open>claim_build_request\<close> fails
  exactly when the escaped text and its NUL do not fit the buffer, and otherwise its output is below
  the capacity and each of the three fields reads back as the value put in.
\<close>

theorem claim_request_roundtrip:
  "case claim_build_request (Some tok) (Some did) (Some csr) True cap of
     None \<Rightarrow> cap \<le> length (request_text tok did csr)
   | Some body \<Rightarrow> length body < cap
       \<and> json_extract_string (Some body) (Some (str ''claim_token'')) True cap = Some tok
       \<and> json_extract_string (Some body) (Some (str ''device_id'')) True cap = Some did
       \<and> json_extract_string (Some body) (Some (str ''csr_pem'')) True cap = Some csr"
  by (simp add: claim_build_request_eq extract_request not_less del: str_Cons)

section \<open>The manifest key in PEM form\<close>

text \<open>The standard encoder: three bytes as four characters, padded at the end.\<close>

definition b64chr :: "byte \<Rightarrow> byte" where
  "b64chr v = (if v < 26 then 65 + v else if v < 52 then 97 + (v - 26) else if v < 62 then 48 + (v - 52)
     else if v = 62 then 43 else 47)"

definition sextet1 :: "byte \<Rightarrow> byte" where
  "sextet1 a = drop_bit 2 a"

definition sextet2 :: "byte \<Rightarrow> byte \<Rightarrow> byte" where
  "sextet2 a b = (push_bit 4 a AND 48) OR drop_bit 4 b"

definition sextet3 :: "byte \<Rightarrow> byte \<Rightarrow> byte" where
  "sextet3 b c = (push_bit 2 b AND 60) OR drop_bit 6 c"

definition sextet4 :: "byte \<Rightarrow> byte" where
  "sextet4 c = c AND 63"

fun b64_encode :: "byte list \<Rightarrow> byte list" where
  "b64_encode (a # b # c # s) =
     [b64chr (sextet1 a), b64chr (sextet2 a b), b64chr (sextet3 b c), b64chr (sextet4 c)] @ b64_encode s"
| "b64_encode [a, b] = [b64chr (sextet1 a), b64chr (sextet2 a b), b64chr (sextet3 b 0), 61]"
| "b64_encode [a] = [b64chr (sextet1 a), b64chr (sextet2 a 0), 61, 61]"
| "b64_encode [] = []"

lemma b64val_b64chr: "v < 64 \<Longrightarrow> b64val (b64chr v) = Some (ucast v) \<and> b64chr v \<noteq> 61 \<and> b64chr v \<noteq> 45"
proof -
  have "list_all (\<lambda>n. b64val (b64chr (of_nat n)) = Some (ucast (of_nat n :: byte)) \<and> b64chr (of_nat n) \<noteq> 61
      \<and> b64chr (of_nat n) \<noteq> 45) [0..<64]" by code_simp
  moreover assume "v < 64"
  then have "unat v \<in> set [0..<64]" by (simp add: word_less_nat_alt)
  ultimately show ?thesis unfolding list_all_iff by (auto dest: bspec [of _ _ "unat v"])
qed

lemma less_8_cases: "n < 8 \<Longrightarrow> n = 0 \<or> n = 1 \<or> n = 2 \<or> n = 3 \<or> n = 4 \<or> n = 5 \<or> n = 6 \<or> n = (7::nat)"
  by auto

lemma byte_eqI:
  assumes "bit x 0 = bit y 0" "bit x 1 = bit y 1" "bit x 2 = bit y 2" "bit x 3 = bit y 3"
    "bit x 4 = bit y 4" "bit x 5 = bit y 5" "bit x 6 = bit y 6" "bit x 7 = bit y 7"
  shows "x = (y :: byte)"
  using assms less_8_cases by (intro bit_word_eqI) auto

lemma bit_sextet_masks:
  "bit (48 :: int) n \<longleftrightarrow> 4 \<le> n \<and> n < 6" "bit (60 :: int) n \<longleftrightarrow> 2 \<le> n \<and> n < 6" "bit (63 :: int) n \<longleftrightarrow> n < 6"
proof -
  have "(48 :: int) = push_bit 4 (mask 2)" "(60 :: int) = push_bit 2 (mask 4)" "(63 :: int) = mask 6"
    by (simp_all add: mask_eq_exp_minus_1 push_bit_eq_mult)
  then show "bit (48 :: int) n \<longleftrightarrow> 4 \<le> n \<and> n < 6" "bit (60 :: int) n \<longleftrightarrow> 2 \<le> n \<and> n < 6"
    "bit (63 :: int) n \<longleftrightarrow> n < 6"
    by (simp_all only: bit_mask_iff bit_push_bit_iff) auto
qed

lemma byte_bit_high [simp]: "8 \<le> n \<Longrightarrow> \<not> bit (b :: byte) n"
  using bit_imp_le_length [of b n] by auto

lemmas sextet_defs = sextet1_def sextet2_def sextet3_def sextet4_def

definition acc_push :: "u32 \<Rightarrow> byte \<Rightarrow> u32" where
  "acc_push acc v = push_bit 6 acc OR ucast v"

lemma sextet_bytes [simp]:
  "ucast (drop_bit 4 (acc_push (acc_push acc (sextet1 a)) (sextet2 a b))) = a"
  "ucast (drop_bit 2 (acc_push (acc_push acc (sextet2 a b)) (sextet3 b c))) = b"
  "ucast (acc_push (acc_push acc (sextet3 b c)) (sextet4 c)) = c"
  by (rule byte_eqI; simp add: acc_push_def sextet_defs bit_simps bit_sextet_masks)+

lemma sextet_less:
  "sextet1 a < 64" "sextet2 a b < 64" "sextet3 b c < 64" "sextet4 c < 64"
proof -
  have lt: "x < 64" if "\<And>n. bit x n \<Longrightarrow> n < 6" for x :: byte
  proof -
    have "x AND mask 6 = x" using that by (intro bit_word_eqI) (auto simp: bit_simps)
    moreover have "x AND mask 6 < 2 ^ 6" by (rule and_mask_less') simp
    ultimately have "x < 2 ^ 6" by simp
    then show ?thesis by simp
  qed
  show "sextet1 a < 64" "sextet2 a b < 64" "sextet3 b c < 64" "sextet4 c < 64"
    by (rule lt; auto simp: sextet_defs bit_simps bit_sextet_masks dest: bit_imp_le_length)+
qed

lemma b64_loop_sextet:
  assumes "v < 64"
  shows "b64_loop (b64chr v # p) der acc nbits =
     (if nbits + 6 \<ge> 8
      then if length der \<ge> 48 then None
           else b64_loop p (der @ [ucast (drop_bit (nbits + 6 - 8) (acc_push acc v))])
                  (acc_push acc v) (nbits + 6 - 8)
      else b64_loop p der (acc_push acc v) (nbits + 6))"
  using b64val_b64chr [OF assms] by (simp add: Let_def acc_push_def)

lemma b64_loop_stop:
  "b64_loop (61 # p) der acc nbits = Some der" "b64_loop [10] der acc nbits = Some der"
  by (simp_all add: b64val_def)

lemma b64_decode_encode:
  "length der + length bs \<le> 48 \<Longrightarrow> b64_loop (b64_encode bs @ [10]) der acc 0 = Some (der @ bs)"
proof (induction bs arbitrary: der acc rule: b64_encode.induct)
  case (1 a b c s)
  then show ?case
    by (simp add: b64_loop_sextet sextet_less del: b64_loop.simps)
qed (simp_all add: b64_loop_sextet sextet_less b64_loop_stop del: b64_loop.simps(2))


lemma b64_encode_chars: "c \<in> set (b64_encode bs) \<Longrightarrow> c \<noteq> 45"
  by (induction bs rule: b64_encode.induct) (auto simp: b64val_b64chr sextet_less)

lemma strstr_skip: "\<forall>c \<in> set xs. c \<noteq> n \<Longrightarrow> strstr (xs @ ys) (n # ns) = strstr ys (n # ns)"
  by (induction xs) auto

lemma strstr_here: "ns \<noteq> [] \<Longrightarrow> strstr (ns @ ys) ns = Some (ns @ ys)"
  by (cases ns) auto

definition spki_pem :: "byte list \<Rightarrow> byte list" where
  "spki_pem key = str ''-----BEGIN PUBLIC KEY-----'' @ [10] @ b64_encode (ED25519_SPKI_PREFIX @ key) @ [10]
     @ str ''-----END PUBLIC KEY-----'' @ [10]"

lemma pub_from_pem_spki:
  assumes "length key = 32"
  shows "claim_ed25519_pub_from_pem (Some (spki_pem key)) True = Some key"
proof -
  define body where "body = b64_encode (ED25519_SPKI_PREFIX @ key) @ [10]"
  define tail where "tail = str '' PUBLIC KEY-----'' @ [10]"
  have pem: "spki_pem key = str ''-----BEGIN'' @ str '' PUBLIC KEY-----'' @ 10 # body @ str ''-----END'' @ tail"
    by (simp add: spki_pem_def body_def tail_def)
  have b: "strstr (spki_pem key) (str ''-----BEGIN'') = Some (spki_pem key)"
    unfolding pem by (rule strstr_here) simp
  have nl: "strchr (spki_pem key) 10 = Some (10 # body @ str ''-----END'' @ tail)"
    unfolding pem by (simp add: strchr_def)
  have "\<forall>c \<in> set body. c \<noteq> 45" using b64_encode_chars by (auto simp: body_def)
  then have e: "strstr (body @ str ''-----END'' @ tail) (str ''-----END'') = Some (str ''-----END'' @ tail)"
    using strstr_skip [of body 45 _ "str ''----END''"] strstr_here [of "str ''-----END''" tail] by simp
  have "length ED25519_SPKI_PREFIX = 12" by (simp add: ED25519_SPKI_PREFIX_def)
  moreover have "b64_loop body [] 0 0 = Some (ED25519_SPKI_PREFIX @ key)"
    using b64_decode_encode [of "[]" "ED25519_SPKI_PREFIX @ key" 0] assms calculation by (simp add: body_def)
  ultimately show ?thesis
    using assms by (simp add: claim_ed25519_pub_from_pem_def b nl e del: str_Cons)
qed

text \<open>
  C28. Reading the key inverts writing it: the PEM text of the SubjectPublicKeyInfo of any 32-byte Ed25519 key,
  base64 padding included, decodes to exactly that key, although the 32-bit accumulator overflows on the way.
\<close>

theorem pub_from_pem_roundtrip:
  assumes "length key = 32"
  shows "claim_ed25519_pub_from_pem (Some (spki_pem key)) True = Some key"
  by (rule pub_from_pem_spki [OF assms])

theorem pub_from_pem_roundtrip_witness:
  "claim_ed25519_pub_from_pem (Some (spki_pem (replicate 32 0xd7))) True = Some (replicate 32 0xd7)"
  by (rule pub_from_pem_roundtrip) simp

text \<open>What is accepted: exactly 44 decoded bytes behind the fixed prefix.\<close>

lemma b64_loop_bound: "length der \<le> 48 \<Longrightarrow> b64_loop p der acc n = Some d \<Longrightarrow> length d \<le> 48"
  by (induction p der acc n rule: b64_loop.induct) (auto simp: Let_def split: if_splits option.splits)

lemma pub_from_pem_length: "claim_ed25519_pub_from_pem pem nn = Some key \<Longrightarrow> length key = 32"
  by (auto simp: claim_ed25519_pub_from_pem_def Let_def Option.bind_eq_Some_conv split: option.splits if_splits)

end
