(* ===== verification/Claim_Proto_Test.thy ===== *)
theory Claim_Proto_Test
  imports Claim_Proto
begin

text \<open>
  The host test of the claim protocol, \<^verbatim>\<open>lib/provision/test/claim_proto_test.c\<close>, run on the model: each of its checks is a
  boolean, in the order of the source, and every one of them holds. A returned \<open>-1\<close> is \<open>None\<close>.
\<close>

section \<open>The inputs of the test\<close>

definition nl :: "byte list" where "nl = [10]"

definition test_csr :: "byte list" where
  "test_csr = str ''-----BEGIN CERTIFICATE REQUEST-----'' @ nl @ str ''MIIBezCCASEC'' @ nl
     @ str ''-----END CERTIFICATE REQUEST-----'' @ nl"

definition test_resp :: "byte list" where
  \<open>test_resp = str ''{"device_cert_pem":"-----BEGIN CERTIFICATE-----'' @ [92, 110] @ str ''AAAA'' @ [92, 110]
     @ str ''-----END CERTIFICATE-----'' @ [92, 110] @ str ''","ca_cert_pem":"CA'' @ [92, 110] @ str ''",''
     @ str ''"device_host":"ota.meshanics.com"}''\<close>

definition test_key_resp :: "byte list" where
  \<open>test_key_resp = str ''{"alg":"ed25519","key_id":"abc123de","public_key_pem":"K'' @ [92, 110] @ str ''"}''\<close>

definition test_tricky :: "byte list" where
  \<open>test_tricky = str ''{"x":"key_id is not a key here","key_id":"real"}''\<close>

definition test_ed_b64 :: "byte list" where
  "test_ed_b64 = str ''MCowBQYDK2VwAyEAAAECAwQFBgcICQoLDA0ODxAREhMUFRYXGBkaGxwdHh8=''"

definition test_ed_pem :: "byte list" where
  "test_ed_pem = str ''-----BEGIN PUBLIC KEY-----'' @ nl @ test_ed_b64 @ nl @ str ''-----END PUBLIC KEY-----'' @ nl"

definition test_key_full :: "byte list" where
  \<open>test_key_full = str ''{"alg":"ed25519","key_id":"abc123de","public_key_pem":''
     @ str ''"-----BEGIN PUBLIC KEY-----'' @ [92, 110] @ test_ed_b64 @ [92, 110]
     @ str ''-----END PUBLIC KEY-----'' @ [92, 110] @ str ''"}''\<close>

section \<open>The checks\<close>

definition found :: "byte list \<Rightarrow> byte list \<Rightarrow> bool" where
  "found hay needle \<longleftrightarrow> strstr hay needle \<noteq> None"

definition request_checks :: "bool list" where
  \<open>request_checks =
     (case claim_build_request (Some (str ''mesh_abc123'')) (Some (str ''esp32-aabbcc'')) (Some test_csr) True 1024 of
        None \<Rightarrow> [False]
      | Some buf \<Rightarrow>
          [length buf > 0, found buf (str ''"claim_token":"mesh_abc123"''), found buf (str ''"device_id":"esp32-aabbcc"''),
           found buf [92, 110], \<not> found buf (nl @ str ''-----END'') \<or> found buf (str ''csr_pem''),
           json_extract_string (Some buf) (Some (str ''csr_pem'')) True 512 = Some test_csr])\<close>

definition response_checks :: "bool list" where
  "response_checks =
     (case json_extract_string (Some test_resp) (Some (str ''device_cert_pem'')) True 512 of
        None \<Rightarrow> [False]
      | Some cert \<Rightarrow>
          [length cert > 0, take 28 cert = str ''-----BEGIN CERTIFICATE-----'' @ nl,
           found cert (nl @ str ''-----END CERTIFICATE-----'' @ nl)])
     @ [json_extract_string (Some test_resp) (Some (str ''device_host'')) True 128 = Some (str ''ota.meshanics.com''),
        json_extract_string (Some test_key_resp) (Some (str ''key_id'')) True 128 = Some (str ''abc123de'')]"

definition rejection_checks :: "bool list" where
  "rejection_checks =
     [json_extract_string (Some test_resp) (Some (str ''nope'')) True 1024 = None,
      json_extract_string (Some test_resp) (Some (str ''device_cert_pem'')) True 4 = None,
      claim_build_request (Some (str ''t'')) (Some (str ''d'')) (Some test_csr) True 10 = None,
      json_extract_string (Some test_tricky) (Some (str ''key_id'')) True 64 = Some (str ''real'')]"

definition key_checks :: "bool list" where
  "key_checks =
     (case claim_ed25519_pub_from_pem (Some test_ed_pem) True of
        None \<Rightarrow> [False]
      | Some pub \<Rightarrow>
          [pub = map of_nat [0..<32],
           (case json_extract_string (Some test_key_full) (Some (str ''public_key_pem'')) True 256 of
              None \<Rightarrow> False
            | Some pem \<Rightarrow> claim_ed25519_pub_from_pem (Some pem) True = Some pub)])
     @ [claim_ed25519_pub_from_pem
          (Some (str ''-----BEGIN PUBLIC KEY-----'' @ nl @ str ''QUJD'' @ nl @ str ''-----END PUBLIC KEY-----'' @ nl)) True = None,
        claim_ed25519_pub_from_pem (Some (str ''not a pem at all'')) True = None]"

lemma request_checks_pass: "list_all id request_checks"
  by code_simp

lemma response_checks_pass: "list_all id response_checks"
  by code_simp

lemma rejection_checks_pass: "list_all id rejection_checks"
  by code_simp

lemma key_checks_pass: "list_all id key_checks"
  by code_simp

end
