(* ===== verification/Plat_Store.thy ===== *)
theory Plat_Store
  imports Mcu_Prelude
begin

text \<open>
  The record store, \<^verbatim>\<open>lib/plat/plat_store.c\<close>. Zephyr's flash and NVS calls are parameters: functions
  of an abstract world \<open>'w\<close>, collected in a record that later components extend with the calls they make.
  The program's static variables are a record that is extended the same way. The contract of the store is the locale
  \<open>record_store\<close>; \<open>nvs_ok\<close> states what the NVS documentation promises of a working flash.
\<close>

section \<open>The external calls and the static state\<close>

record nvs_fs =
  fs_offset :: nat
  fs_sector_size :: nat
  fs_sector_count :: u16

record 'w nvs_api =
  storage_offset :: nat
  storage_size :: nat
  device_is_ready :: "'w \<Rightarrow> bool"
  flash_get_page_info_by_offs :: "nat \<Rightarrow> int \<times> nat"
  nvs_mount :: "nvs_fs \<Rightarrow> 'w \<Rightarrow> int \<times> 'w"
  nvs_read :: "nvs_fs \<Rightarrow> u16 \<Rightarrow> nat \<Rightarrow> 'w \<Rightarrow> (int \<times> byte list) \<times> 'w"
  nvs_write :: "nvs_fs \<Rightarrow> u16 \<Rightarrow> byte list \<Rightarrow> 'w \<Rightarrow> int \<times> 'w"
  nvs_delete :: "nvs_fs \<Rightarrow> u16 \<Rightarrow> 'w \<Rightarrow> int \<times> 'w"

record 'w store_state =
  world :: 'w
  store_fs :: nvs_fs
  store_ready :: bool

section \<open>The operations\<close>

definition store_mount ::
  "('w, 'x) nvs_api_scheme \<Rightarrow> ('w, 'y) store_state_scheme \<Rightarrow> int \<times> ('w, 'y) store_state_scheme" where
  "store_mount api s =
     (if store_ready s then (0, s)
      else if \<not> device_is_ready api (world s) then (-1, s)
      else let s = s\<lparr>store_fs := (store_fs s)\<lparr>fs_offset := storage_offset api\<rparr>\<rparr>;
               (rc, info_size) = flash_get_page_info_by_offs api (fs_offset (store_fs s))
           in if rc \<noteq> 0 then (-1, s)
              else let sectors = storage_size api div info_size;
                       s = s\<lparr>store_fs := (store_fs s)\<lparr>fs_sector_size := info_size,
                               fs_sector_count := of_nat (if sectors < 2 then 2 else sectors)\<rparr>\<rparr>;
                       (rc, w) = nvs_mount api (store_fs s) (world s);
                       s = s\<lparr>world := w\<rparr>
                   in if rc \<noteq> 0 then (-1, s) else (0, s\<lparr>store_ready := True\<rparr>))"

text \<open>The result of a read is the returned count and the bytes copied into the caller's buffer.\<close>

definition plat_store_read ::
  "('w, 'x) nvs_api_scheme \<Rightarrow> u16 \<Rightarrow> nat \<Rightarrow> ('w, 'y) store_state_scheme
     \<Rightarrow> (int \<times> byte list) \<times> ('w, 'y) store_state_scheme" where
  "plat_store_read api rid len s =
     (let (rc, s) = store_mount api s in
      if rc \<noteq> 0 then ((-1, []), s)
      else let ((n, bs), w) = nvs_read api (store_fs s) rid len (world s);
               s = s\<lparr>world := w\<rparr>
           in ((if n < 0 then -1 else n, bs), s))"

definition plat_store_write ::
  "('w, 'x) nvs_api_scheme \<Rightarrow> u16 \<Rightarrow> byte list \<Rightarrow> ('w, 'y) store_state_scheme
     \<Rightarrow> int \<times> ('w, 'y) store_state_scheme" where
  "plat_store_write api rid buf s =
     (let (rc, s) = store_mount api s in
      if rc \<noteq> 0 then (-1, s)
      else let (n, w) = nvs_write api (store_fs s) rid buf (world s);
               s = s\<lparr>world := w\<rparr>
           in (if n = int (length buf) \<or> n = 0 then 0 else -1, s))"

definition plat_store_delete ::
  "('w, 'x) nvs_api_scheme \<Rightarrow> u16 \<Rightarrow> ('w, 'y) store_state_scheme
     \<Rightarrow> int \<times> ('w, 'y) store_state_scheme" where
  "plat_store_delete api rid s =
     (let (rc, s) = store_mount api s in
      if rc \<noteq> 0 then (-1, s)
      else let (n, w) = nvs_delete api (store_fs s) rid (world s);
               s = s\<lparr>world := w\<rparr>
           in (if n = 0 then 0 else -1, s))"

definition plat_store_exists ::
  "('w, 'x) nvs_api_scheme \<Rightarrow> u16 \<Rightarrow> ('w, 'y) store_state_scheme
     \<Rightarrow> bool \<times> ('w, 'y) store_state_scheme" where
  "plat_store_exists api rid s =
     (let (rc, s) = store_mount api s in
      if rc \<noteq> 0 then (False, s)
      else let ((n, probe), w) = nvs_read api (store_fs s) rid 1 (world s);
               s = s\<lparr>world := w\<rparr>
           in (n \<ge> 0, s))"

section \<open>The contract of a record store\<close>

text \<open>
  \<open>view r s\<close> is the map of records a state holds, read through an abstraction \<open>r\<close>; \<open>good\<close> says the store behind
  the state works. Writes and deletions may fail: then the record is the old or the new one. Writing no bytes deletes,
  as NVS does.
\<close>

definition put_record :: "byte list \<Rightarrow> byte list option" where
  "put_record bs = (if bs = [] then None else Some bs)"

locale record_store =
  fixes get :: "'api \<Rightarrow> u16 \<Rightarrow> nat \<Rightarrow> 's \<Rightarrow> (int \<times> byte list) \<times> 's"
    and put :: "'api \<Rightarrow> u16 \<Rightarrow> byte list \<Rightarrow> 's \<Rightarrow> int \<times> 's"
    and del :: "'api \<Rightarrow> u16 \<Rightarrow> 's \<Rightarrow> int \<times> 's"
    and has :: "'api \<Rightarrow> u16 \<Rightarrow> 's \<Rightarrow> bool \<times> 's"
    and good :: "'api \<Rightarrow> 'r \<Rightarrow> 's \<Rightarrow> bool"
    and view :: "'r \<Rightarrow> 's \<Rightarrow> u16 \<Rightarrow> byte list option"
  assumes read_present:
      "good a r s \<Longrightarrow> view r s rid = Some bs \<Longrightarrow> fst (get a rid len s) = (int (length bs), take len bs)"
    and read_absent: "good a r s \<Longrightarrow> view r s rid = None \<Longrightarrow> fst (fst (get a rid len s)) < 0"
    and read_good: "good a r s \<Longrightarrow> good a r (snd (get a rid len s))"
    and read_view: "good a r s \<Longrightarrow> view r (snd (get a rid len s)) = view r s"
    and write_good: "good a r s \<Longrightarrow> good a r (snd (put a rid bs s))"
    and write_ok: "good a r s \<Longrightarrow> fst (put a rid bs s) = 0 \<Longrightarrow>
      view r (snd (put a rid bs s)) = (view r s)(rid := put_record bs)"
    and write_fail: "good a r s \<Longrightarrow> fst (put a rid bs s) \<noteq> 0 \<Longrightarrow>
      view r (snd (put a rid bs s)) \<in> {view r s, (view r s)(rid := put_record bs)}"
    and delete_good: "good a r s \<Longrightarrow> good a r (snd (del a rid s))"
    and delete_ok: "good a r s \<Longrightarrow> fst (del a rid s) = 0 \<Longrightarrow>
      view r (snd (del a rid s)) = (view r s)(rid := None)"
    and delete_fail: "good a r s \<Longrightarrow> fst (del a rid s) \<noteq> 0 \<Longrightarrow>
      view r (snd (del a rid s)) \<in> {view r s, (view r s)(rid := None)}"
    and exists_iff: "good a r s \<Longrightarrow> fst (has a rid s) \<longleftrightarrow> view r s rid \<noteq> None"
    and exists_good: "good a r s \<Longrightarrow> good a r (snd (has a rid s))"
    and exists_view: "good a r s \<Longrightarrow> view r (snd (has a rid s)) = view r s"
begin

lemma write_view:
  "good a r s \<Longrightarrow> view r (snd (put a rid bs s)) \<in> {view r s, (view r s)(rid := put_record bs)}"
  using write_ok write_fail by (cases "fst (put a rid bs s) = 0") auto

lemma delete_view:
  "good a r s \<Longrightarrow> view r (snd (del a rid s)) \<in> {view r s, (view r s)(rid := None)}"
  using delete_ok delete_fail by (cases "fst (del a rid s) = 0") auto

lemma write_frame: "good a r s \<Longrightarrow> j \<noteq> rid \<Longrightarrow> view r (snd (put a rid bs s)) j = view r s j"
  using write_view [of a r s rid bs] by auto

lemma delete_frame: "good a r s \<Longrightarrow> j \<noteq> rid \<Longrightarrow> view r (snd (del a rid s)) j = view r s j"
  using delete_view [of a r s rid] by auto

text \<open>What was written is get back in full when the buffer is large enough.\<close>

lemma read_after_write:
  assumes "good a r s" "fst (put a rid bs s) = 0" "bs \<noteq> []" "length bs \<le> len"
  shows "fst (get a rid len (snd (put a rid bs s))) = (int (length bs), bs)"
  using read_present [OF write_good [OF assms(1)], of rid bs rid bs len] assms write_ok [OF assms(1,2)]
  by (simp add: put_record_def)

text \<open>A record get into a buffer of \<open>cap - 1\<close> bytes with the size check every client makes.\<close>

lemma read_bounded:
  assumes "good a r s" "fst (get a rid (cap - 1) s) = (n, bs)" "0 < n" "n < int cap"
  shows "view r s rid = Some bs \<and> length bs = nat n"
proof (cases "view r s rid")
  case None
  with read_absent [OF assms(1) None, of "cap - 1"] assms(2,3) show ?thesis by simp
next
  case (Some xs)
  with read_present [OF assms(1) Some, of "cap - 1"] assms(2-) show ?thesis by auto
qed

end

section \<open>The operations meet the contract on a working flash\<close>

text \<open>The geometry \<open>store_mount\<close> computes from the partition and the page size.\<close>

definition store_geometry :: "('w, 'x) nvs_api_scheme \<Rightarrow> nvs_fs" where
  "store_geometry api =
     (let page = snd (flash_get_page_info_by_offs api (storage_offset api));
          sectors = storage_size api div page
      in \<lparr>fs_offset = storage_offset api, fs_sector_size = page,
          fs_sector_count = of_nat (if sectors < 2 then 2 else sectors)\<rparr>)"

text \<open>
  The documented behaviour of NVS over a flash whose reads work: mounting and reading keep the records,
  a read reports the size of the record and copies as much of it as fits, a write reports the length written
  or 0 when the record already has this value, and a write or deletion that fails leaves the old or the new record.
\<close>

definition nvs_ok :: "('w, 'x) nvs_api_scheme \<Rightarrow> ('w \<Rightarrow> u16 \<Rightarrow> byte list option) \<Rightarrow> bool" where
  "nvs_ok api recs \<longleftrightarrow>
     fst (flash_get_page_info_by_offs api (storage_offset api)) = 0
     \<and> (\<forall>w. device_is_ready api w)
     \<and> (\<forall>w. case nvs_mount api (store_geometry api) w of (rc, w') \<Rightarrow> rc = 0 \<and> recs w' = recs w)
     \<and> (\<forall>w rid len. case nvs_read api (store_geometry api) rid len w of ((n, bs), w') \<Rightarrow>
          recs w' = recs w \<and>
          (case recs w rid of None \<Rightarrow> n < 0 | Some v \<Rightarrow> n = int (length v) \<and> bs = take len v))
     \<and> (\<forall>w rid v. case nvs_write api (store_geometry api) rid v w of (n, w') \<Rightarrow>
          if n = int (length v) \<or> n = 0 then recs w' = (recs w)(rid := put_record v)
          else recs w' \<in> {recs w, (recs w)(rid := put_record v)})
     \<and> (\<forall>w rid. case nvs_delete api (store_geometry api) rid w of (n, w') \<Rightarrow>
          if n = 0 then recs w' = (recs w)(rid := None) else recs w' \<in> {recs w, (recs w)(rid := None)})"

definition store_good ::
  "('w, 'x) nvs_api_scheme \<Rightarrow> ('w \<Rightarrow> u16 \<Rightarrow> byte list option) \<Rightarrow> ('w, 'y) store_state_scheme \<Rightarrow> bool" where
  "store_good api recs s \<longleftrightarrow> nvs_ok api recs \<and> (store_ready s \<longrightarrow> store_fs s = store_geometry api)"

definition records ::
  "('w \<Rightarrow> u16 \<Rightarrow> byte list option) \<Rightarrow> ('w, 'y) store_state_scheme \<Rightarrow> u16 \<Rightarrow> byte list option" where
  "records recs s = recs (world s)"

lemma store_mount_good:
  assumes "store_good api recs s"
  obtains s' where "store_mount api s = (0, s')" "store_fs s' = store_geometry api"
    "recs (world s') = recs (world s)" "store_good api recs s'"
proof (cases "store_ready s")
  case True
  with assms that [of s] show ?thesis by (simp add: store_mount_def store_good_def)
next
  case False
  define w where "w = snd (nvs_mount api (store_geometry api) (world s))"
  let ?s = "s\<lparr>store_fs := store_geometry api, world := w, store_ready := True\<rparr>"
  from assms have ok: "nvs_ok api recs" by (simp add: store_good_def)
  then have m: "nvs_mount api (store_geometry api) (world s) = (0, w)" and w: "recs w = recs (world s)"
    by (auto simp: nvs_ok_def w_def prod_eq_iff split: prod.splits)
  have p: "fst (flash_get_page_info_by_offs api (storage_offset api)) = 0" "device_is_ready api (world s)"
    using ok by (simp_all add: nvs_ok_def)
  have g: "(store_fs s)\<lparr>fs_offset := storage_offset api,
      fs_sector_size := snd (flash_get_page_info_by_offs api (storage_offset api)),
      fs_sector_count := of_nat (if storage_size api div snd (flash_get_page_info_by_offs api (storage_offset api)) < 2
        then 2 else storage_size api div snd (flash_get_page_info_by_offs api (storage_offset api)))\<rparr>
      = store_geometry api"
    by (simp add: store_geometry_def Let_def)
  have "store_mount api s = (0, ?s)"
    using p m g False by (simp add: store_mount_def Let_def split_beta prod_eq_iff)
  with that [of ?s] w ok show ?thesis by (simp add: store_good_def)
qed


lemma nvs_readD:
  assumes "nvs_ok api recs"
  obtains n bs w' where "nvs_read api (store_geometry api) rid len w = ((n, bs), w')" "recs w' = recs w"
    "recs w rid = None \<Longrightarrow> n < 0" "\<And>v. recs w rid = Some v \<Longrightarrow> n = int (length v) \<and> bs = take len v"
proof -
  obtain n bs w' where r: "nvs_read api (store_geometry api) rid len w = ((n, bs), w')"
    by (metis prod.collapse)
  have "case nvs_read api (store_geometry api) rid len w of ((n, bs), w') \<Rightarrow> recs w' = recs w \<and>
      (case recs w rid of None \<Rightarrow> n < 0 | Some v \<Rightarrow> n = int (length v) \<and> bs = take len v)"
    using assms by (simp add: nvs_ok_def)
  with r that show ?thesis by (auto split: option.splits)
qed

lemma nvs_writeD:
  assumes "nvs_ok api recs" "nvs_write api (store_geometry api) rid v w = (n, w')"
  shows "n = int (length v) \<or> n = 0 \<Longrightarrow> recs w' = (recs w)(rid := put_record v)"
    and "recs w' \<in> {recs w, (recs w)(rid := put_record v)}"
proof -
  have "case nvs_write api (store_geometry api) rid v w of (n, w') \<Rightarrow>
      if n = int (length v) \<or> n = 0 then recs w' = (recs w)(rid := put_record v)
      else recs w' \<in> {recs w, (recs w)(rid := put_record v)}"
    using assms(1) by (simp add: nvs_ok_def)
  with assms(2) show "n = int (length v) \<or> n = 0 \<Longrightarrow> recs w' = (recs w)(rid := put_record v)"
    "recs w' \<in> {recs w, (recs w)(rid := put_record v)}" by (auto split: if_splits)
qed

lemma nvs_deleteD:
  assumes "nvs_ok api recs" "nvs_delete api (store_geometry api) rid w = (n, w')"
  shows "n = 0 \<Longrightarrow> recs w' = (recs w)(rid := None)" and "recs w' \<in> {recs w, (recs w)(rid := None)}"
proof -
  have "case nvs_delete api (store_geometry api) rid w of (n, w') \<Rightarrow>
      if n = 0 then recs w' = (recs w)(rid := None) else recs w' \<in> {recs w, (recs w)(rid := None)}"
    using assms(1) by (simp add: nvs_ok_def)
  with assms(2) show "n = 0 \<Longrightarrow> recs w' = (recs w)(rid := None)" "recs w' \<in> {recs w, (recs w)(rid := None)}"
    by (auto split: if_splits)
qed

lemma store_good_world:
  "store_good api recs s \<Longrightarrow> store_good api recs (s\<lparr>world := w\<rparr>)"
  by (simp add: store_good_def)

lemma store_read_good:
  assumes "store_good api recs s"
  obtains n bs s' where "plat_store_read api rid len s = ((n, bs), s')" "store_good api recs s'"
    "records recs s' = records recs s" "records recs s rid = None \<Longrightarrow> n < 0"
    "\<And>v. records recs s rid = Some v \<Longrightarrow> n = int (length v) \<and> bs = take len v"
proof -
  obtain t where t: "store_mount api s = (0, t)" "store_fs t = store_geometry api"
    "recs (world t) = recs (world s)" "store_good api recs t" using store_mount_good [OF assms] by blast
  have ok: "nvs_ok api recs" using assms by (simp add: store_good_def)
  obtain n bs w' where "nvs_read api (store_geometry api) rid len (world t) = ((n, bs), w')"
    "recs w' = recs (world t)" "recs (world t) rid = None \<Longrightarrow> n < 0"
    "\<And>v. recs (world t) rid = Some v \<Longrightarrow> n = int (length v) \<and> bs = take len v"
    using nvs_readD [OF ok, of rid len "world t" thesis] by blast
  with t show ?thesis
    by (intro that [of "if n < 0 then -1 else n" bs "t\<lparr>world := w'\<rparr>"])
      (auto simp: plat_store_read_def records_def store_good_world)
qed

lemma store_write_good:
  assumes "store_good api recs s" "plat_store_write api rid v s = (n, s')"
  shows "store_good api recs s'" "n = 0 \<Longrightarrow> records recs s' = (records recs s)(rid := put_record v)"
    "records recs s' \<in> {records recs s, (records recs s)(rid := put_record v)}"
proof -
  obtain t where t: "store_mount api s = (0, t)" "store_fs t = store_geometry api"
    "recs (world t) = recs (world s)" "store_good api recs t" using store_mount_good [OF assms(1)] by blast
  have ok: "nvs_ok api recs" using assms by (simp add: store_good_def)
  obtain m w' where m: "nvs_write api (store_geometry api) rid v (world t) = (m, w')" by fastforce
  have s': "s' = t\<lparr>world := w'\<rparr>" "n = (if m = int (length v) \<or> m = 0 then 0 else -1)"
    using assms(2) t m by (simp_all add: plat_store_write_def)
  show "store_good api recs s'" using t by (simp add: s' store_good_world)
  show "n = 0 \<Longrightarrow> records recs s' = (records recs s)(rid := put_record v)"
    "records recs s' \<in> {records recs s, (records recs s)(rid := put_record v)}"
    using nvs_writeD [OF ok m] t by (auto simp: s' records_def split: if_splits)
qed

lemma store_delete_good:
  assumes "store_good api recs s" "plat_store_delete api rid s = (n, s')"
  shows "store_good api recs s'" "n = 0 \<Longrightarrow> records recs s' = (records recs s)(rid := None)"
    "records recs s' \<in> {records recs s, (records recs s)(rid := None)}"
proof -
  obtain t where t: "store_mount api s = (0, t)" "store_fs t = store_geometry api"
    "recs (world t) = recs (world s)" "store_good api recs t" using store_mount_good [OF assms(1)] by blast
  have ok: "nvs_ok api recs" using assms by (simp add: store_good_def)
  obtain m w' where m: "nvs_delete api (store_geometry api) rid (world t) = (m, w')" by fastforce
  have s': "s' = t\<lparr>world := w'\<rparr>" "n = (if m = 0 then 0 else -1)"
    using assms(2) t m by (simp_all add: plat_store_delete_def)
  show "store_good api recs s'" using t by (simp add: s' store_good_world)
  show "n = 0 \<Longrightarrow> records recs s' = (records recs s)(rid := None)"
    "records recs s' \<in> {records recs s, (records recs s)(rid := None)}"
    using nvs_deleteD [OF ok m] t by (auto simp: s' records_def split: if_splits)
qed

lemma store_exists_good:
  assumes "store_good api recs s" "plat_store_exists api rid s = (b, s')"
  shows "store_good api recs s'" "b \<longleftrightarrow> records recs s rid \<noteq> None" "records recs s' = records recs s"
proof -
  obtain t where t: "store_mount api s = (0, t)" "store_fs t = store_geometry api"
    "recs (world t) = recs (world s)" "store_good api recs t" using store_mount_good [OF assms(1)] by blast
  have ok: "nvs_ok api recs" using assms by (simp add: store_good_def)
  obtain n bs w' where r: "nvs_read api (store_geometry api) rid 1 (world t) = ((n, bs), w')"
    "recs w' = recs (world t)" "recs (world t) rid = None \<Longrightarrow> n < 0"
    "\<And>v. recs (world t) rid = Some v \<Longrightarrow> n = int (length v) \<and> bs = take 1 v"
    using nvs_readD [OF ok, of rid 1 "world t" thesis] by blast
  have s': "s' = t\<lparr>world := w'\<rparr>" "b \<longleftrightarrow> n \<ge> 0"
    using assms(2) t r by (simp_all add: plat_store_exists_def)
  show "store_good api recs s'" using t by (simp add: s' store_good_world)
  show "b \<longleftrightarrow> records recs s rid \<noteq> None" "records recs s' = records recs s"
    using r t by (cases "recs (world t) rid"; auto simp: s' records_def)+
qed

lemmas store_write_collapse = store_write_good [OF _ prod.collapse [symmetric]]
lemmas store_delete_collapse = store_delete_good [OF _ prod.collapse [symmetric]]
lemmas store_exists_collapse = store_exists_good [OF _ prod.collapse [symmetric]]

interpretation nvs: record_store plat_store_read plat_store_write plat_store_delete plat_store_exists
  store_good records
proof (unfold_locales, goal_cases)
  case (1 a r s rid bs len)
  then show ?case by (metis store_read_good fst_conv)
next
  case (2 a r s rid len)
  then show ?case by (metis store_read_good fst_conv)
next
  case (3 a r s rid len)
  then show ?case by (metis store_read_good snd_conv)
next
  case (4 a r s rid len)
  then show ?case by (metis store_read_good snd_conv)
qed (erule (1) store_write_collapse store_delete_collapse store_exists_collapse
      | erule store_write_collapse store_delete_collapse store_exists_collapse)+


section \<open>A store in memory\<close>

text \<open>A flash that never fails, as an instance of the parameters on which properties are evaluated.\<close>

definition ram_nvs :: "(u16 \<Rightarrow> byte list option) nvs_api" where
  "ram_nvs = \<lparr>storage_offset = 0x3f0000, storage_size = 0x10000,
     device_is_ready = (\<lambda>w. True),
     flash_get_page_info_by_offs = (\<lambda>off. (0, 4096)),
     nvs_mount = (\<lambda>fs w. (0, w)),
     nvs_read = (\<lambda>fs rid len w. (case w rid of None \<Rightarrow> (-2, []) | Some v \<Rightarrow> (int (length v), take len v), w)),
     nvs_write = (\<lambda>fs rid v w. (if w rid = Some v then 0 else int (length v), w(rid := put_record v))),
     nvs_delete = (\<lambda>fs rid w. (0, w(rid := None)))\<rparr>"

definition ram_start :: "(u16 \<Rightarrow> byte list option) store_state" where
  "ram_start = \<lparr>world = (\<lambda>_. None), store_fs = \<lparr>fs_offset = 0, fs_sector_size = 0, fs_sector_count = 0\<rparr>,
     store_ready = False\<rparr>"

lemma ram_nvs_ok: "nvs_ok ram_nvs (\<lambda>w. w)"
  by (auto simp: nvs_ok_def ram_nvs_def split: option.splits)

lemma ram_start_good: "store_good ram_nvs (\<lambda>w. w) ram_start"
  by (simp add: store_good_def ram_nvs_ok ram_start_def)

lemma ram_write: "fst (plat_store_write ram_nvs rid v ram_start) = 0"
  by (simp add: plat_store_write_def store_mount_def ram_nvs_def ram_start_def)

end
