(* ===== verification/Plat_Counter.thy ===== *)
theory Plat_Counter
  imports Plat_Store
begin

text \<open>
  The anti-rollback counters, \<^verbatim>\<open>lib/plat/plat_counter.c\<close>: three \<open>uint64_t\<close> records and the version string of
  the image last committed, all through the record store. \<open>counter_of\<close> and \<open>version_of\<close> are their abstract values; the
  lemmas show what every operation does to them, through the laws of \<open>record_store\<close>.
\<close>

section \<open>The operations\<close>

definition COUNTER_NVS_ID :: u16 where "COUNTER_NVS_ID = 1"
definition PENDING_NVS_ID :: u16 where "PENDING_NVS_ID = 2"
definition FAILED_NVS_ID :: u16 where "FAILED_NVS_ID = 3"
definition ATTEMPTED_VERSION_NVS_ID :: u16 where "ATTEMPTED_VERSION_NVS_ID = 4"

lemmas counter_ids = COUNTER_NVS_ID_def PENDING_NVS_ID_def FAILED_NVS_ID_def ATTEMPTED_VERSION_NVS_ID_def

definition read_counter ::
  "('w, 'x) nvs_api_scheme \<Rightarrow> u16 \<Rightarrow> ('w, 'y) store_state_scheme \<Rightarrow> u64 \<times> ('w, 'y) store_state_scheme" where
  "read_counter api rid s =
     (let ((n, v), s) = plat_store_read api rid 8 s in (if n = 8 then bytes_u64 v else 0, s))"

definition plat_applied_counter ::
  "('w, 'x) nvs_api_scheme \<Rightarrow> ('w, 'y) store_state_scheme \<Rightarrow> u64 \<times> ('w, 'y) store_state_scheme" where
  "plat_applied_counter api s = read_counter api COUNTER_NVS_ID s"

definition plat_store_counter ::
  "('w, 'x) nvs_api_scheme \<Rightarrow> u64 \<Rightarrow> ('w, 'y) store_state_scheme \<Rightarrow> int \<times> ('w, 'y) store_state_scheme" where
  "plat_store_counter api counter s = plat_store_write api COUNTER_NVS_ID (u64_bytes counter) s"

definition plat_pending_counter ::
  "('w, 'x) nvs_api_scheme \<Rightarrow> ('w, 'y) store_state_scheme \<Rightarrow> u64 \<times> ('w, 'y) store_state_scheme" where
  "plat_pending_counter api s = read_counter api PENDING_NVS_ID s"

definition plat_store_pending ::
  "('w, 'x) nvs_api_scheme \<Rightarrow> u64 \<Rightarrow> ('w, 'y) store_state_scheme \<Rightarrow> int \<times> ('w, 'y) store_state_scheme" where
  "plat_store_pending api counter s = plat_store_write api PENDING_NVS_ID (u64_bytes counter) s"

definition plat_clear_pending ::
  "('w, 'x) nvs_api_scheme \<Rightarrow> ('w, 'y) store_state_scheme \<Rightarrow> int \<times> ('w, 'y) store_state_scheme" where
  "plat_clear_pending api s = plat_store_delete api PENDING_NVS_ID s"

definition plat_failed_counter ::
  "('w, 'x) nvs_api_scheme \<Rightarrow> ('w, 'y) store_state_scheme \<Rightarrow> u64 \<times> ('w, 'y) store_state_scheme" where
  "plat_failed_counter api s = read_counter api FAILED_NVS_ID s"

definition plat_store_failed ::
  "('w, 'x) nvs_api_scheme \<Rightarrow> u64 \<Rightarrow> ('w, 'y) store_state_scheme \<Rightarrow> int \<times> ('w, 'y) store_state_scheme" where
  "plat_store_failed api counter s = plat_store_write api FAILED_NVS_ID (u64_bytes counter) s"

definition plat_clear_failed ::
  "('w, 'x) nvs_api_scheme \<Rightarrow> ('w, 'y) store_state_scheme \<Rightarrow> int \<times> ('w, 'y) store_state_scheme" where
  "plat_clear_failed api s = plat_store_delete api FAILED_NVS_ID s"

text \<open>A version argument is a C string or NULL.\<close>

definition plat_store_attempted_version ::
  "('w, 'x) nvs_api_scheme \<Rightarrow> byte list option \<Rightarrow> ('w, 'y) store_state_scheme
     \<Rightarrow> int \<times> ('w, 'y) store_state_scheme" where
  "plat_store_attempted_version api version s =
     (case version of None \<Rightarrow> (-1, s)
      | Some v \<Rightarrow> plat_store_write api ATTEMPTED_VERSION_NVS_ID v s)"

text \<open>\<open>None\<close> is the error; \<open>Some v\<close> is success with the C string \<open>v\<close> in the caller's buffer.\<close>

definition plat_attempted_version ::
  "('w, 'x) nvs_api_scheme \<Rightarrow> bool \<Rightarrow> nat \<Rightarrow> ('w, 'y) store_state_scheme
     \<Rightarrow> byte list option \<times> ('w, 'y) store_state_scheme" where
  "plat_attempted_version api out_nonnull cap s =
     (if \<not> out_nonnull \<or> cap = 0 then (None, s)
      else let ((n, v), s) = plat_store_read api ATTEMPTED_VERSION_NVS_ID (cap - 1) s
           in if n \<le> 0 \<or> n \<ge> int cap then (None, s) else (Some (cstr v), s))"

definition plat_clear_attempted_version ::
  "('w, 'x) nvs_api_scheme \<Rightarrow> ('w, 'y) store_state_scheme \<Rightarrow> int \<times> ('w, 'y) store_state_scheme" where
  "plat_clear_attempted_version api s = plat_store_delete api ATTEMPTED_VERSION_NVS_ID s"

lemmas counter_ops = plat_applied_counter_def plat_store_counter_def plat_pending_counter_def
  plat_store_pending_def plat_clear_pending_def plat_failed_counter_def plat_store_failed_def
  plat_clear_failed_def plat_clear_attempted_version_def

section \<open>The abstract counters\<close>

definition counter_of :: "(u16 \<Rightarrow> byte list option) \<Rightarrow> u16 \<Rightarrow> u64" where
  "counter_of m rid = (case m rid of Some v \<Rightarrow> if length v = 8 then bytes_u64 v else 0 | None \<Rightarrow> 0)"

lemma counter_of_put [simp]: "counter_of (m(rid := put_record (u64_bytes c))) rid = c"
proof -
  have "u64_bytes c \<noteq> []" by (metis length_u64_bytes list.size(3) zero_neq_numeral)
  then show ?thesis by (simp add: counter_of_def put_record_def)
qed

lemma counter_of_del [simp]: "counter_of (m(rid := None)) rid = 0"
  by (simp add: counter_of_def)

lemma counter_of_other [simp]: "j \<noteq> rid \<Longrightarrow> counter_of (m(rid := v)) j = counter_of m j"
  by (simp add: counter_of_def)

lemma read_counter_good:
  assumes "store_good api recs s"
  shows "fst (read_counter api rid s) = counter_of (records recs s) rid"
    and "store_good api recs (snd (read_counter api rid s))"
    and "records recs (snd (read_counter api rid s)) = records recs s"
proof -
  obtain n v s' where r: "plat_store_read api rid 8 s = ((n, v), s')" by (metis prod.collapse)
  have c: "n = 8 \<longrightarrow> counter_of (records recs s) rid = bytes_u64 v"
    "n \<noteq> 8 \<longrightarrow> counter_of (records recs s) rid = 0"
    using nvs.read_present [OF assms, of rid _ 8] nvs.read_absent [OF assms, of rid 8] r
    by (cases "records recs s rid"; force simp: counter_of_def)+
  show "fst (read_counter api rid s) = counter_of (records recs s) rid"
    using c by (simp add: read_counter_def r)
  show "store_good api recs (snd (read_counter api rid s))"
    "records recs (snd (read_counter api rid s)) = records recs s"
    using nvs.read_good [OF assms, of rid 8] nvs.read_view [OF assms, of rid 8]
    by (simp_all add: read_counter_def r)
qed

text \<open>
  A counter that was stored is read back, and storing it disturbs neither of the other counters: the applied,
  pending and failed counters are independent 64-bit cells, whatever value they hold (0 and \<open>2^64 - 1\<close> included).
\<close>

lemma stored_counter_read_back:
  assumes "store_good api recs s" and "plat_store_counter api c s = (0, s')"
  shows "fst (plat_applied_counter api s') = c
    \<and> fst (plat_pending_counter api s') = fst (plat_pending_counter api s)
    \<and> fst (plat_failed_counter api s') = fst (plat_failed_counter api s)"
proof -
  have s': "store_good api recs s'" "records recs s' = (records recs s)(COUNTER_NVS_ID := put_record (u64_bytes c))"
    using assms store_write_good unfolding plat_store_counter_def by blast+
  then show ?thesis
    by (simp add: counter_ops read_counter_good [OF assms(1)] read_counter_good [OF s'(1)] counter_ids)
qed

lemma stored_counter_read_back_witness:
  "fst (plat_applied_counter ram_nvs (snd (plat_store_counter ram_nvs 7 ram_start))) = 7"
proof -
  have "fst (plat_store_counter ram_nvs 7 ram_start) = 0" by (simp add: plat_store_counter_def ram_write)
  then have "plat_store_counter ram_nvs 7 ram_start = (0, snd (plat_store_counter ram_nvs 7 ram_start))"
    by (simp add: prod_eq_iff)
  from stored_counter_read_back [OF ram_start_good this] show ?thesis by simp
qed

section \<open>The version of the last attempt\<close>

lemma cstr_id: "0 \<notin> set v \<Longrightarrow> cstr v = v"
  by (auto simp: cstr_def takeWhile_eq_all_conv)

text \<open>
  The version string recorded at commit is the one reported after a revert: a nonempty C string that fits the
  caller's buffer with its NUL reads back unchanged, and the counters keep their values.
\<close>

lemma attempted_version_read_back:
  assumes "store_good api recs s" and "plat_store_attempted_version api (Some v) s = (0, s')"
    and "v \<noteq> []" "0 \<notin> set v" "length v < cap"
  shows "fst (plat_attempted_version api True cap s') = Some v
    \<and> fst (plat_applied_counter api s') = fst (plat_applied_counter api s)
    \<and> fst (plat_failed_counter api s') = fst (plat_failed_counter api s)"
proof -
  have w: "plat_store_write api ATTEMPTED_VERSION_NVS_ID v s = (0, s')"
    using assms(2) by (simp add: plat_store_attempted_version_def)
  then have "fst (plat_store_read api ATTEMPTED_VERSION_NVS_ID (cap - 1) s') = (int (length v), v)"
    using nvs.read_after_write [OF assms(1), of ATTEMPTED_VERSION_NVS_ID v "cap - 1"] assms(3,5) by simp
  then have "fst (plat_attempted_version api True cap s') = Some v"
    using assms(3-5) by (auto simp: plat_attempted_version_def cstr_id split: prod.splits)
  moreover have s': "store_good api recs s'"
    "records recs s' = (records recs s)(ATTEMPTED_VERSION_NVS_ID := put_record v)"
    using store_write_good [OF assms(1) w] by simp_all
  ultimately show ?thesis
    by (simp add: counter_ops read_counter_good [OF assms(1)] read_counter_good [OF s'(1)] counter_ids)
qed

lemma attempted_version_read_back_witness:
  "fst (plat_attempted_version ram_nvs True 32
     (snd (plat_store_attempted_version ram_nvs (Some (str ''1.2.0'')) ram_start))) = Some (str ''1.2.0'')"
proof -
  let ?p = "plat_store_attempted_version ram_nvs (Some (str ''1.2.0'')) ram_start"
  have "fst ?p = 0" by (simp add: plat_store_attempted_version_def ram_write)
  then have "?p = (0, snd ?p)" by (simp add: prod_eq_iff)
  from attempted_version_read_back [OF ram_start_good this, of 32] show ?thesis by simp
qed

end
