(* ===== verification/Identity.thy ===== *)
theory Identity
  imports Plat_Counter
begin

text \<open>
  The enrolled identity in the record store, \<^verbatim>\<open>lib/provision/identity.c\<close>. The character arrays of the struct are the C
  strings they hold. What a failed load leaves in the output struct is not modelled (no caller reads it).
\<close>

section \<open>The operations\<close>

record meshanics_identity =
  device_cert_pem :: "byte list"
  device_key_pem :: "byte list"
  manifest_pub :: "byte list"
  key_id :: "byte list"

definition CERT_CAP :: nat where "CERT_CAP = 1024"
definition KEY_CAP :: nat where "KEY_CAP = 512"
definition KEYID_CAP :: nat where "KEYID_CAP = 80"

definition ID_CERT :: u16 where "ID_CERT = 10"
definition ID_KEY :: u16 where "ID_KEY = 11"
definition ID_PUB :: u16 where "ID_PUB = 12"
definition ID_KEYID :: u16 where "ID_KEYID = 13"

lemmas identity_ids = ID_CERT_def ID_KEY_def ID_PUB_def ID_KEYID_def

definition meshanics_identity_exists ::
  "('w, 'x) nvs_api_scheme \<Rightarrow> ('w, 'y) store_state_scheme \<Rightarrow> bool \<times> ('w, 'y) store_state_scheme" where
  "meshanics_identity_exists api s =
     (let (b, s) = plat_store_exists api ID_CERT s in if \<not> b then (False, s) else
      let (b, s) = plat_store_exists api ID_KEY s in if \<not> b then (False, s) else
      let (b, s) = plat_store_exists api ID_PUB s in if \<not> b then (False, s) else
      plat_store_exists api ID_KEYID s)"

definition load_str ::
  "('w, 'x) nvs_api_scheme \<Rightarrow> u16 \<Rightarrow> nat \<Rightarrow> ('w, 'y) store_state_scheme
     \<Rightarrow> byte list option \<times> ('w, 'y) store_state_scheme" where
  "load_str api rid cap s =
     (let ((n, out), s) = plat_store_read api rid (cap - 1) s
      in if n \<le> 0 \<or> n \<ge> int cap then (None, s) else (Some (cstr out), s))"

text \<open>The \<open>out\<close> pointer is never NULL in the agent; a NULL is the argument \<open>False\<close>.\<close>

definition meshanics_identity_load ::
  "('w, 'x) nvs_api_scheme \<Rightarrow> bool \<Rightarrow> ('w, 'y) store_state_scheme
     \<Rightarrow> meshanics_identity option \<times> ('w, 'y) store_state_scheme" where
  "meshanics_identity_load api out_nonnull s =
     (if \<not> out_nonnull then (None, s) else
      let (cert, s) = load_str api ID_CERT CERT_CAP s in case cert of None \<Rightarrow> (None, s) | Some cert \<Rightarrow>
      let (key, s) = load_str api ID_KEY KEY_CAP s in case key of None \<Rightarrow> (None, s) | Some key \<Rightarrow>
      let (kid, s) = load_str api ID_KEYID KEYID_CAP s in case kid of None \<Rightarrow> (None, s) | Some kid \<Rightarrow>
      let ((n, pub), s) = plat_store_read api ID_PUB 32 s in
      if n \<noteq> 32 then (None, s)
      else (Some \<lparr>device_cert_pem = cert, device_key_pem = key, manifest_pub = pub, key_id = kid\<rparr>, s))"

definition meshanics_identity_save ::
  "('w, 'x) nvs_api_scheme \<Rightarrow> meshanics_identity option \<Rightarrow> ('w, 'y) store_state_scheme
     \<Rightarrow> int \<times> ('w, 'y) store_state_scheme" where
  "meshanics_identity_save api idn s =
     (case idn of None \<Rightarrow> (-1, s) | Some idn \<Rightarrow>
      let (rc, s) = plat_store_write api ID_CERT (device_cert_pem idn) s in if rc \<noteq> 0 then (-1, s) else
      let (rc, s) = plat_store_write api ID_KEY (device_key_pem idn) s in if rc \<noteq> 0 then (-1, s) else
      let (rc, s) = plat_store_write api ID_KEYID (key_id idn) s in if rc \<noteq> 0 then (-1, s) else
      let (rc, s) = plat_store_write api ID_PUB (manifest_pub idn) s in if rc \<noteq> 0 then (-1, s) else (0, s))"

section \<open>Stored identities\<close>

definition identity_ok :: "meshanics_identity \<Rightarrow> bool" where
  "identity_ok i \<longleftrightarrow>
     device_cert_pem i \<noteq> [] \<and> 0 \<notin> set (device_cert_pem i) \<and> length (device_cert_pem i) < CERT_CAP
   \<and> device_key_pem i \<noteq> [] \<and> 0 \<notin> set (device_key_pem i) \<and> length (device_key_pem i) < KEY_CAP
   \<and> key_id i \<noteq> [] \<and> 0 \<notin> set (key_id i) \<and> length (key_id i) < KEYID_CAP
   \<and> length (manifest_pub i) = 32"

definition holds_identity :: "(u16 \<Rightarrow> byte list option) \<Rightarrow> meshanics_identity \<Rightarrow> bool" where
  "holds_identity m i \<longleftrightarrow> m ID_CERT = Some (device_cert_pem i) \<and> m ID_KEY = Some (device_key_pem i)
     \<and> m ID_KEYID = Some (key_id i) \<and> m ID_PUB = Some (manifest_pub i)"

lemma exists_good:
  assumes "store_good api recs s"
  shows "fst (meshanics_identity_exists api s) \<longleftrightarrow>
      records recs s ID_CERT \<noteq> None \<and> records recs s ID_KEY \<noteq> None
      \<and> records recs s ID_PUB \<noteq> None \<and> records recs s ID_KEYID \<noteq> None"
    and "store_good api recs (snd (meshanics_identity_exists api s))"
    and "records recs (snd (meshanics_identity_exists api s)) = records recs s"
proof -
  obtain b1 s1 b2 s2 b3 s3 b4 s4 where p: "plat_store_exists api ID_CERT s = (b1, s1)"
    "plat_store_exists api ID_KEY s1 = (b2, s2)" "plat_store_exists api ID_PUB s2 = (b3, s3)"
    "plat_store_exists api ID_KEYID s3 = (b4, s4)" by fastforce
  note g1 = store_exists_good [OF assms p(1)]
  note g2 = store_exists_good [OF g1(1) p(2)]
  note g3 = store_exists_good [OF g2(1) p(3)]
  note g4 = store_exists_good [OF g3(1) p(4)]
  show "fst (meshanics_identity_exists api s) \<longleftrightarrow>
      records recs s ID_CERT \<noteq> None \<and> records recs s ID_KEY \<noteq> None
      \<and> records recs s ID_PUB \<noteq> None \<and> records recs s ID_KEYID \<noteq> None"
    "store_good api recs (snd (meshanics_identity_exists api s))"
    "records recs (snd (meshanics_identity_exists api s)) = records recs s"
    using g1 g2 g3 g4 by (auto simp: meshanics_identity_exists_def p)
qed

lemma load_str_good:
  assumes "store_good api recs s" "load_str api rid cap s = (r, s')"
  shows "store_good api recs s'" "records recs s' = records recs s"
    "records recs s rid = Some v \<Longrightarrow> v \<noteq> [] \<Longrightarrow> 0 \<notin> set v \<Longrightarrow> length v < cap \<Longrightarrow> r = Some v"
proof -
  obtain n bs t where p: "plat_store_read api rid (cap - 1) s = ((n, bs), t)" by (metis prod.collapse)
  have t: "s' = t" "r = (if n \<le> 0 \<or> n \<ge> int cap then None else Some (cstr bs))"
    using assms(2) by (auto simp: load_str_def p simp del: One_nat_def split: if_splits)
  show "store_good api recs s'" "records recs s' = records recs s"
    using nvs.read_good [OF assms(1), of rid "cap - 1"] nvs.read_view [OF assms(1), of rid "cap - 1"]
    by (simp_all add: t p del: One_nat_def)
  show "records recs s rid = Some v \<Longrightarrow> v \<noteq> [] \<Longrightarrow> 0 \<notin> set v \<Longrightarrow> length v < cap \<Longrightarrow> r = Some v"
    using nvs.read_present [OF assms(1), of rid v "cap - 1"] by (auto simp: t p cstr_id simp del: One_nat_def)
qed

lemma load_good:
  assumes "store_good api recs s" "holds_identity (records recs s) i" "identity_ok i"
  shows "fst (meshanics_identity_load api True s) = Some i"
proof -
  obtain r1 s1 r2 s2 r3 s3 n pub s4 where p: "load_str api ID_CERT CERT_CAP s = (r1, s1)"
    "load_str api ID_KEY KEY_CAP s1 = (r2, s2)" "load_str api ID_KEYID KEYID_CAP s2 = (r3, s3)"
    "plat_store_read api ID_PUB 32 s3 = ((n, pub), s4)" by (metis prod.collapse)
  note g1 = load_str_good [OF assms(1) p(1)]
  note g2 = load_str_good [OF g1(1) p(2)]
  note g3 = load_str_good [OF g2(1) p(3)]
  have "r1 = Some (device_cert_pem i)" "r2 = Some (device_key_pem i)" "r3 = Some (key_id i)"
    using g1(3) g2(3) g3(3) assms(2,3) g1(2) g2(2) by (auto simp: holds_identity_def identity_ok_def)
  moreover have "n = 32 \<and> pub = manifest_pub i"
    using nvs.read_present [OF g3(1), of ID_PUB "manifest_pub i" 32] p(4) assms(2,3) g1(2) g2(2) g3(2)
    by (simp add: holds_identity_def identity_ok_def)
  ultimately show ?thesis by (simp add: meshanics_identity_load_def p)
qed

lemma load_frame:
  assumes "store_good api recs s"
  shows "store_good api recs (snd (meshanics_identity_load api nn s))
    \<and> records recs (snd (meshanics_identity_load api nn s)) = records recs s"
proof -
  obtain r1 s1 r2 s2 r3 s3 n pub s4 where p: "load_str api ID_CERT CERT_CAP s = (r1, s1)"
    "load_str api ID_KEY KEY_CAP s1 = (r2, s2)" "load_str api ID_KEYID KEYID_CAP s2 = (r3, s3)"
    "plat_store_read api ID_PUB 32 s3 = ((n, pub), s4)" by (metis prod.collapse)
  note g1 = load_str_good [OF assms p(1)]
  note g2 = load_str_good [OF g1(1) p(2)]
  note g3 = load_str_good [OF g2(1) p(3)]
  have g4: "store_good api recs s4" "records recs s4 = records recs s3"
    using nvs.read_good [OF g3(1), of ID_PUB 32] nvs.read_view [OF g3(1), of ID_PUB 32] by (simp_all add: p)
  show ?thesis using g1(1,2) g2(1,2) g3(1,2) g4 assms
    by (simp add: meshanics_identity_load_def p split: option.splits)
qed

text \<open>The writes of a save, one after the other; a failure (or a power cut, which a failing write covers) stops it.\<close>

lemma save_good:
  assumes "store_good api recs s" "identity_ok i" "meshanics_identity_save api (Some i) s = (rc, s')"
  shows "store_good api recs s'" "rc = 0 \<Longrightarrow> holds_identity (records recs s') i"
    "holds_identity (records recs s') i \<or> records recs s' ID_PUB = records recs s ID_PUB"
    "rid \<notin> {ID_CERT, ID_KEY, ID_KEYID, ID_PUB} \<Longrightarrow> records recs s' rid = records recs s rid"
proof -
  obtain r1 s1 r2 s2 r3 s3 r4 s4 where p: "plat_store_write api ID_CERT (device_cert_pem i) s = (r1, s1)"
    "plat_store_write api ID_KEY (device_key_pem i) s1 = (r2, s2)"
    "plat_store_write api ID_KEYID (key_id i) s2 = (r3, s3)"
    "plat_store_write api ID_PUB (manifest_pub i) s3 = (r4, s4)" by fastforce
  note g1 = store_write_good [OF assms(1) p(1)]
  note g2 = store_write_good [OF g1(1) p(2)]
  note g3 = store_write_good [OF g2(1) p(3)]
  note g4 = store_write_good [OF g3(1) p(4)]
  have ids: "ID_CERT \<noteq> ID_KEY" "ID_CERT \<noteq> ID_KEYID" "ID_CERT \<noteq> ID_PUB" "ID_KEY \<noteq> ID_KEYID" "ID_KEY \<noteq> ID_PUB"
    "ID_KEYID \<noteq> ID_PUB" by (simp_all add: identity_ids)
  have pub: "put_record (device_cert_pem i) = Some (device_cert_pem i)"
    "put_record (device_key_pem i) = Some (device_key_pem i)"
    "put_record (key_id i) = Some (key_id i)" "put_record (manifest_pub i) = Some (manifest_pub i)"
    using assms(2) by (auto simp: identity_ok_def put_record_def)
  have out: "(rc, s') = (if r1 \<noteq> 0 then (-1, s1) else if r2 \<noteq> 0 then (-1, s2) else if r3 \<noteq> 0 then (-1, s3)
      else if r4 \<noteq> 0 then (-1, s4) else (0, s4))"
    using assms(3) by (simp add: meshanics_identity_save_def p split: if_splits)
  show "store_good api recs s'" using out g1(1) g2(1) g3(1) g4(1) by (auto split: if_splits)
  show "rc = 0 \<Longrightarrow> holds_identity (records recs s') i"
    using out g1(2) g2(2) g3(2) g4(2) ids by (auto simp: holds_identity_def pub split: if_splits)
  show "holds_identity (records recs s') i \<or> records recs s' ID_PUB = records recs s ID_PUB"
  proof (cases "r1 = 0 \<and> r2 = 0 \<and> r3 = 0")
    case True
    then have "s' = s4" using out by (auto split: if_splits)
    moreover have "records recs s3 = (records recs s)(ID_CERT := Some (device_cert_pem i),
        ID_KEY := Some (device_key_pem i), ID_KEYID := Some (key_id i))"
      using True g1(2) g2(2) g3(2) by (simp add: pub)
    ultimately show ?thesis using g4(3) ids by (auto simp: holds_identity_def pub)
  next
    case False
    then show ?thesis using out g1(3) g2(3) g3(3) g1(2) g2(2) ids by (auto split: if_splits)
  qed
  show "rid \<notin> {ID_CERT, ID_KEY, ID_KEYID, ID_PUB} \<Longrightarrow> records recs s' rid = records recs s rid"
    using out g1(3) g2(3) g3(3) g4(3) by (auto split: if_splits)
qed


section \<open>Properties\<close>

text \<open>
  C17. Enrollment is crash-atomic. From a store without a manifest key record, in which an earlier save may have left any of
  the other records, a save that completes, fails, or is cut off at any write leaves one of two situations: no identity
  exists (so the next boot enrolls again), or the identity that exists is complete and loads as exactly the one saved.
  A reported success is the second.
\<close>

theorem identity_save_atomic:
  assumes "store_good api recs s" and "records recs s ID_PUB = None" and "identity_ok i"
    and "meshanics_identity_save api (Some i) s = (rc, s')"
  shows "(\<not> fst (meshanics_identity_exists api s')
      \<or> fst (meshanics_identity_exists api s') \<and> fst (meshanics_identity_load api True s') = Some i)
    \<and> (rc = 0 \<longrightarrow> fst (meshanics_identity_exists api s') \<and> fst (meshanics_identity_load api True s') = Some i)"
proof -
  note g = save_good [OF assms(1,3,4)]
  have full: "fst (meshanics_identity_exists api s') \<and> fst (meshanics_identity_load api True s') = Some i"
    if "holds_identity (records recs s') i"
    using load_good [OF g(1) that assms(3)] exists_good(1) [OF g(1)] that by (simp add: holds_identity_def)
  show ?thesis
  proof (cases "holds_identity (records recs s') i")
    case True
    with full show ?thesis by blast
  next
    case False
    with g(2,3) assms(2) have "rc \<noteq> 0" "records recs s' ID_PUB = None" by auto
    then show ?thesis using exists_good(1) [OF g(1)] by simp
  qed
qed

definition sample_identity :: meshanics_identity where
  "sample_identity = \<lparr>device_cert_pem = str ''CERT'', device_key_pem = str ''KEY'',
     manifest_pub = replicate 32 0xd7, key_id = str ''abcd''\<rparr>"

theorem identity_save_atomic_witness:
  "fst (meshanics_identity_load ram_nvs True (snd (meshanics_identity_save ram_nvs (Some sample_identity) ram_start)))
     = Some sample_identity"
proof -
  let ?p = "meshanics_identity_save ram_nvs (Some sample_identity) ram_start"
  have "fst ?p = 0"
    by (simp add: meshanics_identity_save_def sample_identity_def plat_store_write_def store_mount_def
        ram_nvs_def ram_start_def)
  moreover have "identity_ok sample_identity"
    by (simp add: identity_ok_def sample_identity_def CERT_CAP_def KEY_CAP_def KEYID_CAP_def)
  moreover have "records (\<lambda>w. w) ram_start ID_PUB = None" by (simp add: records_def ram_start_def)
  ultimately show ?thesis
    using identity_save_atomic [OF ram_start_good _ _ prod.collapse [symmetric], of sample_identity] by simp
qed

text \<open>
  The identity and the counters share one store without interference: saving an identity, successfully or not, changes
  none of the anti-rollback counters and not the attempted version.
\<close>

lemma identity_save_keeps_counters:
  assumes "store_good api recs s" and "identity_ok i"
  shows "let s' = snd (meshanics_identity_save api (Some i) s) in
      fst (plat_applied_counter api s') = fst (plat_applied_counter api s)
    \<and> fst (plat_pending_counter api s') = fst (plat_pending_counter api s)
    \<and> fst (plat_failed_counter api s') = fst (plat_failed_counter api s)
    \<and> fst (plat_attempted_version api True cap s') = fst (plat_attempted_version api True cap s)"
proof -
  define s' where "s' = snd (meshanics_identity_save api (Some i) s)"
  have p: "meshanics_identity_save api (Some i) s = (fst (meshanics_identity_save api (Some i) s), s')"
    by (simp add: s'_def)
  note g = save_good [OF assms p]
  have same: "records recs s' rid = records recs s rid" if "rid \<in> {1, 2, 3, 4}" for rid
    by (rule g(4)) (use that in \<open>auto simp: identity_ids\<close>)
  have c: "counter_of (records recs s') rid = counter_of (records recs s) rid" if "rid \<in> {1, 2, 3}" for rid
    using same [of rid] that by (auto simp: counter_of_def)
  have v: "fst (plat_attempted_version api True cap s') = fst (plat_attempted_version api True cap s)"
    using nvs.read_present [OF assms(1), of ATTEMPTED_VERSION_NVS_ID _ "cap - 1"]
      nvs.read_present [OF g(1), of ATTEMPTED_VERSION_NVS_ID _ "cap - 1"]
      nvs.read_absent [OF assms(1), of ATTEMPTED_VERSION_NVS_ID "cap - 1"]
      nvs.read_absent [OF g(1), of ATTEMPTED_VERSION_NVS_ID "cap - 1"] same [of 4]
    by (cases "records recs s ATTEMPTED_VERSION_NVS_ID")
      (auto simp: plat_attempted_version_def counter_ids split: prod.splits)
  show ?thesis using v
    by (simp add: s'_def [symmetric] counter_ops read_counter_good [OF assms(1)] read_counter_good [OF g(1)]
        c counter_ids)
qed

lemma identity_save_keeps_counters_witness:
  "fst (plat_applied_counter ram_nvs (snd (meshanics_identity_save ram_nvs (Some sample_identity)
     (snd (plat_store_counter ram_nvs 7 ram_start))))) = 7"
proof -
  let ?s = "snd (plat_store_counter ram_nvs 7 ram_start)"
  have ok: "identity_ok sample_identity"
    by (simp add: identity_ok_def sample_identity_def CERT_CAP_def KEY_CAP_def KEYID_CAP_def)
  have "store_good ram_nvs (\<lambda>w. w) ?s"
    using nvs.write_good [OF ram_start_good] by (simp add: plat_store_counter_def)
  moreover have "fst (plat_applied_counter ram_nvs ?s) = 7"
    using nvs.write_ok [OF ram_start_good ram_write] read_counter_good(1) [OF calculation, of COUNTER_NVS_ID]
    by (simp add: plat_applied_counter_def plat_store_counter_def)
  ultimately show ?thesis using identity_save_keeps_counters [OF _ ok, of ram_nvs "\<lambda>w. w" ?s] by (simp add: Let_def)
qed

end
