(* ===== verification/Provisioning.thy ===== *)
theory Provisioning
  imports Mcu_Prelude
begin

text \<open>
  The root of trust, \<^verbatim>\<open>lib/provision/provisioning.c\<close>. The compile-time header \<^verbatim>\<open>meshanics_provisioning.h\<close> is not part
  of the repository: whether it exists, and the values it defines, are the parameter \<open>hdr\<close>. C strings are byte lists.
\<close>

record meshanics_provisioning =
  wifi_ssid :: "byte list"
  wifi_psk :: "byte list"
  claim_host :: "byte list"
  claim_ip :: "byte list"
  claim_port :: u16
  claim_ca :: "byte list"
  claim_token :: "byte list"
  server_host :: "byte list"
  server_ip :: "byte list"
  artifact_port :: u16
  fleet_port :: u16
  server_ca :: "byte list"
  artifact_name :: "byte list"
  target_profile :: "byte list"

definition meshanics_provisioning_get :: "meshanics_provisioning option \<Rightarrow> meshanics_provisioning option" where
  "meshanics_provisioning_get hdr = (case hdr of Some prov \<Rightarrow> Some prov | None \<Rightarrow> None)"

end
