(* ===== verification/Plat_Net.thy ===== *)
theory Plat_Net
  imports Identity Provisioning Claim_Proto
begin

text \<open>
  Networking, \<^verbatim>\<open>lib/plat/plat_net.c\<close>. Sockets, TLS credentials, WiFi management and sleeping are parameters over the
  abstract world, added to the record of external calls; \<open>cfg\<close> and \<open>wifi_connected\<close> are added to the static state. A function
  that only talks to a socket is a function of the world; \<open>cfg\<close> is an argument where the source reads the static pointer.
  A receive is \<open>None\<close> for a negative result and otherwise the bytes delivered; POSIX lets it deliver no more than asked
  for, so the model keeps at most that many. Logging has no effect on the state and is left out.
\<close>

section \<open>The external calls and the static state\<close>

datatype sockopt =
  TLS_SEC_TAG_LIST "u32 list" | TLS_HOSTNAME "byte list" | TLS_PEER_VERIFY_REQUIRED | SO_RCVTIMEO nat | SO_REUSEADDR int

datatype tls_credential_type =
  TLS_CREDENTIAL_CA_CERTIFICATE | TLS_CREDENTIAL_PUBLIC_CERTIFICATE | TLS_CREDENTIAL_PRIVATE_KEY

text \<open>A network management event: whether it is \<open>NET_EVENT_WIFI_CONNECT_RESULT\<close>, and its status.\<close>

datatype wifi_event = Wifi_Event (is_connect_result: bool) (wifi_status: int)

record 'w net_api = "'w nvs_api" +
  zsock_socket :: "bool \<Rightarrow> 'w \<Rightarrow> int \<times> 'w"
  zsock_setsockopt :: "int \<Rightarrow> sockopt \<Rightarrow> 'w \<Rightarrow> 'w"
  zsock_inet_pton :: "byte list \<Rightarrow> u32"
  zsock_connect :: "int \<Rightarrow> u32 \<Rightarrow> u16 \<Rightarrow> 'w \<Rightarrow> int \<times> 'w"
  zsock_send :: "int \<Rightarrow> byte list \<Rightarrow> 'w \<Rightarrow> int \<times> 'w"
  zsock_recv :: "int \<Rightarrow> nat \<Rightarrow> 'w \<Rightarrow> byte list option \<times> 'w"
  zsock_close :: "int \<Rightarrow> 'w \<Rightarrow> 'w"
  tls_credential_add :: "u32 \<Rightarrow> tls_credential_type \<Rightarrow> byte list \<Rightarrow> 'w \<Rightarrow> int \<times> 'w"
  tls_credential_delete :: "u32 \<Rightarrow> tls_credential_type \<Rightarrow> 'w \<Rightarrow> int \<times> 'w"
  net_mgmt_add_event_callback :: "'w \<Rightarrow> 'w"
  net_mgmt_wifi_connect :: "byte list \<Rightarrow> byte list \<Rightarrow> 'w \<Rightarrow> int \<times> wifi_event list \<times> 'w"
  k_msleep :: "nat \<Rightarrow> 'w \<Rightarrow> wifi_event list \<times> 'w"
  net_dhcpv4_start :: "'w \<Rightarrow> 'w"

record 'w net_state = "'w store_state" +
  cfg :: meshanics_provisioning
  wifi_connected :: bool

definition SEC_TAG :: u32 where "SEC_TAG = 0x10"

definition SDK_AGENT_VERSION :: "byte list" where
  "SDK_AGENT_VERSION = str ''meshanics-mcu-0.1.0''"

section \<open>WiFi and credentials\<close>

definition wifi_evt :: "wifi_event \<Rightarrow> ('w, 'y) net_state_scheme \<Rightarrow> ('w, 'y) net_state_scheme" where
  "wifi_evt ev s = (if is_connect_result ev \<and> wifi_status ev = 0 then s\<lparr>wifi_connected := True\<rparr> else s)"

text \<open>The callback runs whenever the agent thread waits: at a sleep or in the management request.\<close>

definition sleep_ms ::
  "('w, 'x) net_api_scheme \<Rightarrow> nat \<Rightarrow> ('w, 'y) net_state_scheme \<Rightarrow> ('w, 'y) net_state_scheme" where
  "sleep_ms api ms s = (let (evs, w) = k_msleep api ms (world s) in fold wifi_evt evs (s\<lparr>world := w\<rparr>))"

fun wifi_request_loop ::
  "('w, 'x) net_api_scheme \<Rightarrow> meshanics_provisioning \<Rightarrow> nat \<Rightarrow> ('w, 'y) net_state_scheme \<Rightarrow> ('w, 'y) net_state_scheme" where
  "wifi_request_loop api prov 0 s = s"
| "wifi_request_loop api prov (Suc tries) s =
     (let (rc, evs, w) = net_mgmt_wifi_connect api (wifi_ssid prov) (wifi_psk prov) (world s);
          s = fold wifi_evt evs (s\<lparr>world := w\<rparr>)
      in if rc \<noteq> 0 then wifi_request_loop api prov tries (sleep_ms api 500 s) else s)"

fun wifi_wait_loop ::
  "('w, 'x) net_api_scheme \<Rightarrow> nat \<Rightarrow> ('w, 'y) net_state_scheme \<Rightarrow> ('w, 'y) net_state_scheme" where
  "wifi_wait_loop api 0 s = s"
| "wifi_wait_loop api (Suc tries) s =
     (if \<not> wifi_connected s then wifi_wait_loop api tries (sleep_ms api 100 s) else s)"

definition plat_net_wifi_up ::
  "('w, 'x) net_api_scheme \<Rightarrow> meshanics_provisioning option \<Rightarrow> ('w, 'y) net_state_scheme
     \<Rightarrow> int \<times> ('w, 'y) net_state_scheme" where
  "plat_net_wifi_up api prov s =
     (case prov of None \<Rightarrow> (-1, s) | Some prov \<Rightarrow>
      let s = s\<lparr>cfg := prov\<rparr>;
          s = s\<lparr>world := net_mgmt_add_event_callback api (world s)\<rparr>;
          s = wifi_request_loop api prov 10 s;
          s = wifi_wait_loop api 200 s
      in if \<not> wifi_connected s then (-1, s)
         else let s = s\<lparr>world := net_dhcpv4_start api (world s)\<rparr>;
                  s = sleep_ms api 3000 s
              in (0, s))"

definition plat_net_set_identity ::
  "('w, 'x) net_api_scheme \<Rightarrow> meshanics_provisioning option \<Rightarrow> meshanics_identity option
     \<Rightarrow> ('w, 'y) net_state_scheme \<Rightarrow> int \<times> ('w, 'y) net_state_scheme" where
  "plat_net_set_identity api prov idn s =
     (case (prov, idn) of (Some prov, Some idn) \<Rightarrow>
        let s = s\<lparr>cfg := prov\<rparr>;
            (rc, w) = tls_credential_add api SEC_TAG TLS_CREDENTIAL_CA_CERTIFICATE (server_ca prov @ [0]) (world s);
            s = s\<lparr>world := w\<rparr>
        in if rc \<noteq> 0 then (-1, s) else
        let (rc, w) = tls_credential_add api SEC_TAG TLS_CREDENTIAL_PUBLIC_CERTIFICATE (device_cert_pem idn @ [0]) (world s);
            s = s\<lparr>world := w\<rparr>
        in if rc \<noteq> 0 then (-1, s) else
        let (rc, w) = tls_credential_add api SEC_TAG TLS_CREDENTIAL_PRIVATE_KEY (device_key_pem idn @ [0]) (world s);
            s = s\<lparr>world := w\<rparr>
        in if rc \<noteq> 0 then (-1, s) else (0, s)
      | _ \<Rightarrow> (-1, s))"

section \<open>Connections and HTTP\<close>

definition tls_connect ::
  "('w, 'x) net_api_scheme \<Rightarrow> meshanics_provisioning \<Rightarrow> u16 \<Rightarrow> 'w \<Rightarrow> int \<times> 'w" where
  "tls_connect api conf port w =
     (let (fd, w) = zsock_socket api True w in
      if fd < 0 then (-1, w)
      else let w = zsock_setsockopt api fd (TLS_SEC_TAG_LIST [SEC_TAG]) w;
               w = zsock_setsockopt api fd (TLS_HOSTNAME (server_host conf)) w;
               w = zsock_setsockopt api fd TLS_PEER_VERIFY_REQUIRED w;
               w = zsock_setsockopt api fd (SO_RCVTIMEO 20) w;
               (rc, w) = zsock_connect api fd (zsock_inet_pton api (server_ip conf)) port w
           in if rc < 0 then (-2, zsock_close api fd w) else (fd, w))"

definition http_status :: "byte list \<Rightarrow> int" where
  "http_status buf =
     (if length buf < 12 \<or> take 7 buf \<noteq> str ''HTTP/1.'' then -1
      else (int (unat (buf ! 9)) - 48) * 100 + (int (unat (buf ! 10)) - 48) * 10 + (int (unat (buf ! 11)) - 48))"

definition recv :: "('w, 'x) net_api_scheme \<Rightarrow> int \<Rightarrow> nat \<Rightarrow> 'w \<Rightarrow> byte list option \<times> 'w" where
  "recv api fd len w =
     (case zsock_recv api fd len w of (None, w) \<Rightarrow> (None, w) | (Some bs, w) \<Rightarrow> (Some (take len bs), w))"

function recv_all_loop ::
  "('w, 'x) net_api_scheme \<Rightarrow> int \<Rightarrow> nat \<Rightarrow> byte list \<Rightarrow> 'w \<Rightarrow> byte list option \<times> 'w" where
  "recv_all_loop api fd lim acc w =
     (if length acc < lim
      then case recv api fd (lim - length acc) w of
             (None, w) \<Rightarrow> (None, w)
           | (Some bs, w) \<Rightarrow> if bs = [] then (Some acc, w) else recv_all_loop api fd lim (acc @ bs) w
      else (Some acc, w))"
  by pat_completeness auto
termination
  by (relation "measure (\<lambda>(api, fd, lim, acc, w). lim - length acc)") (auto intro!: diff_less_mono2)

declare recv_all_loop.simps [simp del]

text \<open>\<open>Some bs\<close>: the buffer starts with \<open>bs\<close> and a NUL, and the length of \<open>bs\<close> is returned.\<close>

definition recv_all :: "('w, 'x) net_api_scheme \<Rightarrow> int \<Rightarrow> nat \<Rightarrow> 'w \<Rightarrow> byte list option \<times> 'w" where
  "recv_all api fd cap w = recv_all_loop api fd (cap - 1) [] w"

definition CRLF2 :: "byte list" where
  "CRLF2 = [13, 10, 13, 10]"

definition body_offset :: "byte list \<Rightarrow> nat option" where
  "body_offset buf =
     (case find (\<lambda>i. take 4 (drop i buf) = CRLF2) [0..<length buf - 3] of None \<Rightarrow> None | Some i \<Rightarrow> Some (i + 4))"

definition get_request :: "byte list \<Rightarrow> meshanics_provisioning \<Rightarrow> byte list" where
  "get_request path conf =
     str ''GET '' @ path @ str ''?artifact_name='' @ artifact_name conf @ str ''&target_profile='' @ target_profile conf
     @ str '' HTTP/1.1'' @ [13, 10] @ str ''Host: '' @ server_host conf @ [13, 10] @ str ''Connection: close'' @ CRLF2"

text \<open>
  The result is the returned value and, where it is positive, the written front of the caller's buffer: the body moved to
  the front, followed by what the response left behind it.
\<close>

definition plat_fetch_manifest ::
  "('w, 'x) net_api_scheme \<Rightarrow> nat \<Rightarrow> ('w, 'y) net_state_scheme \<Rightarrow> (int \<times> byte list) \<times> ('w, 'y) net_state_scheme" where
  "plat_fetch_manifest api cap s =
     (let (fd, w) = tls_connect api (cfg s) (artifact_port (cfg s)) (world s) in
      if fd < 0 then ((fd, []), s\<lparr>world := w\<rparr>)
      else let req = get_request (str ''/device/manifest'') (cfg s) in
      if length req \<ge> 256 then ((-3, []), s\<lparr>world := zsock_close api fd w\<rparr>)
      else let (rc, w) = zsock_send api fd req w in
      if rc < 0 then ((-3, []), s\<lparr>world := zsock_close api fd w\<rparr>)
      else let (r, w) = recv_all api fd cap w;
               s = s\<lparr>world := zsock_close api fd w\<rparr>
      in case r of None \<Rightarrow> ((-3, []), s)
         | Some buf \<Rightarrow>
             let code = http_status buf in
             if code = 204 then ((0, []), s)
             else if code \<noteq> 200 then ((-4, []), s)
             else case body_offset buf of None \<Rightarrow> ((-4, []), s)
                  | Some off \<Rightarrow>
                      let blen = length buf - off
                      in ((int blen, drop off buf @ drop blen (buf @ [0])), s))"

definition post_request :: "byte list \<Rightarrow> meshanics_provisioning \<Rightarrow> byte list \<Rightarrow> byte list" where
  "post_request path conf body =
     str ''POST '' @ path @ str '' HTTP/1.1'' @ [13, 10] @ str ''Host: '' @ server_host conf @ [13, 10]
     @ str ''Content-Type: application/json'' @ [13, 10] @ str ''Content-Length: '' @ dec (length body) @ [13, 10]
     @ str ''Connection: close'' @ CRLF2 @ body"

definition post_device ::
  "('w, 'x) net_api_scheme \<Rightarrow> meshanics_provisioning \<Rightarrow> u16 \<Rightarrow> byte list \<Rightarrow> byte list \<Rightarrow> nat \<Rightarrow> 'w
     \<Rightarrow> (int \<times> byte list) \<times> 'w" where
  "post_device api conf port path body cap w =
     (let (fd, w) = tls_connect api conf port w in
      if fd < 0 then ((fd, []), w)
      else let req = post_request path conf body in
      if length req \<ge> 512 then ((-3, []), zsock_close api fd w)
      else let (rc, w) = zsock_send api fd req w in
      if rc < 0 then ((-3, []), zsock_close api fd w)
      else let (r, w) = recv_all api fd cap w;
               w = zsock_close api fd w
      in case r of None \<Rightarrow> ((-3, []), w) | Some resp \<Rightarrow> ((http_status resp, resp), w))"

section \<open>Register and heartbeat\<close>

definition plat_register ::
  "('w, 'x) net_api_scheme \<Rightarrow> ('w, 'y) net_state_scheme \<Rightarrow> int \<times> ('w, 'y) net_state_scheme" where
  \<open>plat_register api s =
     (let body = str ''{"hw_profile":"'' @ target_profile (cfg s) @ str ''","agent_version":"'' @ SDK_AGENT_VERSION
                   @ str ''"}'' in
      if length body \<ge> 160 then (-3, s)
      else let ((code, resp), w) = post_device api (cfg s) (fleet_port (cfg s)) (str ''/device/register'') body 512 (world s);
               s = s\<lparr>world := w\<rparr>
           in if code < 0 then (code, s) else if code = 200 then (0, s) else (-5, s))\<close>

text \<open>\<open>log_cap\<close> is the capacity of \<open>log_req_id\<close>, \<open>None\<close> for a NULL pointer; the second result is the C string left there.\<close>

definition plat_heartbeat ::
  "('w, 'x) net_api_scheme \<Rightarrow> bool \<Rightarrow> byte list \<Rightarrow> u64 \<Rightarrow> bool \<Rightarrow> byte list \<Rightarrow> nat option
     \<Rightarrow> ('w, 'y) net_state_scheme \<Rightarrow> (int \<times> byte list) \<times> ('w, 'y) net_state_scheme" where
  \<open>plat_heartbeat api char_signed applied_version applied_counter probe_healthy probe_detail log_cap s =
     (let (failed, s) = plat_failed_counter api s;
          (rev, s) = (if failed \<noteq> 0 then plat_attempted_version api True 32 s else (None, s));
          reverted = (case rev of Some v \<Rightarrow> v | None \<Rightarrow> [])
      in case ota_heartbeat_json char_signed True 256 (Some SDK_AGENT_VERSION) (Some applied_version) applied_counter
                probe_healthy (Some probe_detail) (Some reverted) of
           None \<Rightarrow> ((-3, []), s)
         | Some body \<Rightarrow>
             let ((code, resp), w) = post_device api (cfg s) (fleet_port (cfg s)) (str ''/device/heartbeat'') body 512 (world s);
                 s = s\<lparr>world := w\<rparr>
             in if code < 0 then ((code, []), s)
                else if code \<noteq> 200 then ((-6, []), s)
                else if strstr (cstr resp) (str ''"decommissioned":true'') \<noteq> None then ((0, []), s)
                else ((1, case log_cap of None \<Rightarrow> []
                          | Some cap \<Rightarrow> if cap = 0 then []
                              else (case json_extract_string (Some (cstr resp)) (Some (str ''request_id'')) True cap of
                                      None \<Rightarrow> [] | Some rid \<Rightarrow> rid)), s))\<close>

section \<open>Log upload\<close>

function send_loop :: "('w, 'x) net_api_scheme \<Rightarrow> int \<Rightarrow> byte list \<Rightarrow> 'w \<Rightarrow> bool \<times> 'w" where
  "send_loop api fd body w =
     (if body = [] then (True, w)
      else let (n, w) = zsock_send api fd body w
           in if n \<le> 0 then (False, w) else send_loop api fd (drop (nat n) body) w)"
  by pat_completeness auto
termination
  by (relation "measure (\<lambda>(api, fd, body, w). length body)") auto

declare send_loop.simps [simp del]

definition log_header :: "byte list \<Rightarrow> meshanics_provisioning \<Rightarrow> nat \<Rightarrow> byte list" where
  "log_header request_id conf len =
     str ''POST /device/logs/'' @ request_id @ str ''?status=ok HTTP/1.1'' @ [13, 10] @ str ''Host: '' @ server_host conf
     @ [13, 10] @ str ''Content-Type: text/plain'' @ [13, 10] @ str ''Content-Length: '' @ dec len @ [13, 10]
     @ str ''Connection: close'' @ CRLF2"

definition plat_net_upload_logs ::
  "('w, 'x) net_api_scheme \<Rightarrow> byte list option \<Rightarrow> byte list \<Rightarrow> ('w, 'y) net_state_scheme
     \<Rightarrow> int \<times> ('w, 'y) net_state_scheme" where
  "plat_net_upload_logs api request_id body s =
     (case request_id of None \<Rightarrow> (-3, s) | Some request_id \<Rightarrow>
      if request_id = [] then (-3, s)
      else let (fd, w) = tls_connect api (cfg s) (fleet_port (cfg s)) (world s) in
      if fd < 0 then (fd, s\<lparr>world := w\<rparr>)
      else let hdr = log_header request_id (cfg s) (length body) in
      if length hdr \<ge> 256 then (-3, s\<lparr>world := zsock_close api fd w\<rparr>)
      else let (rc, w) = zsock_send api fd hdr w in
      if rc < 0 then (-3, s\<lparr>world := zsock_close api fd w\<rparr>)
      else let (sent, w) = send_loop api fd body w in
      if \<not> sent then (-3, s\<lparr>world := zsock_close api fd w\<rparr>)
      else let (r, w) = recv_all api fd 256 w;
               s = s\<lparr>world := zsock_close api fd w\<rparr>
      in case r of None \<Rightarrow> (-3, s)
         | Some resp \<Rightarrow> let sc = http_status resp in (if sc = 204 \<or> sc = 200 then 0 else -6, s))"

section \<open>Firmware download\<close>

text \<open>Reading up to the end of the headers; the result is the bytes received and the offset of the body, or the error.\<close>

definition FW_BUF :: nat where "FW_BUF = 1536"

function header_loop ::
  "('w, 'x) net_api_scheme \<Rightarrow> int \<Rightarrow> byte list \<Rightarrow> 'w \<Rightarrow> (int + byte list \<times> nat) \<times> 'w" where
  "header_loop api fd acc w =
     (case recv api fd (FW_BUF - length acc) w of
        (None, w) \<Rightarrow> (Inl (-3), w)
      | (Some bs, w) \<Rightarrow>
          if bs = [] then (Inl (-3), w)
          else let acc' = acc @ bs in
               case body_offset acc' of
                 Some off \<Rightarrow> (Inr (acc', off), w)
               | None \<Rightarrow> if length acc' = FW_BUF then (Inl (-4), w) else header_loop api fd acc' w)"
  by pat_completeness auto

termination
  by (relation "measure (\<lambda>(api, fd, acc, w). FW_BUF - length acc)") (auto simp: recv_def split: prod.splits option.splits intro!: diff_less_mono2)

declare header_loop.simps [simp del]

text \<open>
  The body loop; \<open>got\<close> is the source's 64-bit counter, so for sizes next to \<open>2^64\<close> the sum may wrap and nothing bounds
  the loop: not returning is \<open>None\<close>. A sink gets a chunk, the last flag, its context and the world.
\<close>

definition fw_take :: "u64 \<Rightarrow> u64 \<Rightarrow> nat \<Rightarrow> u64" where
  "fw_take expect_size got n = (if got + of_nat n > expect_size then expect_size - got else of_nat n)"

partial_function (option) body_loop ::
  "('w, 'x) net_api_scheme \<Rightarrow> int \<Rightarrow> (byte list \<Rightarrow> bool \<Rightarrow> 'c \<Rightarrow> 'w \<Rightarrow> int \<times> 'c \<times> 'w) \<Rightarrow> u64 \<Rightarrow> u64 \<Rightarrow> 'c \<Rightarrow> 'w
     \<Rightarrow> (int \<times> u64 \<times> 'c \<times> 'w) option" where
  "body_loop api fd sink expect_size got c w =
     (if got < expect_size
      then case recv api fd FW_BUF w of
             (None, w) \<Rightarrow> Some (0, got, c, w)
           | (Some bs, w) \<Rightarrow>
               if bs = [] then Some (0, got, c, w)
               else let tk = fw_take expect_size got (length bs);
                        r = sink (take (unat tk) bs) (got + tk \<ge> expect_size) c w
                    in if fst r \<noteq> 0 then Some (-5, got, fst (snd r), snd (snd r))
                       else body_loop api fd sink expect_size (got + tk) (fst (snd r)) (snd (snd r))
      else Some (0, got, c, w))"

text \<open>The body bytes that arrived with the headers.\<close>

definition deliver_first ::
  "(byte list \<Rightarrow> bool \<Rightarrow> 'c \<Rightarrow> 'w \<Rightarrow> int \<times> 'c \<times> 'w) \<Rightarrow> u64 \<Rightarrow> byte list \<Rightarrow> 'c \<Rightarrow> 'w \<Rightarrow> int \<times> u64 \<times> 'c \<times> 'w" where
  "deliver_first sink expect_size first c w =
     (if length first > 0
      then let tk = fw_take expect_size 0 (length first);
               (rc, c, w) = sink (take (unat tk) first) (tk \<ge> expect_size) c w
           in (rc, tk, c, w)
      else (0, 0, c, w))"

definition plat_net_firmware_download ::
  "('w, 'x) net_api_scheme \<Rightarrow> u64 \<Rightarrow> (byte list \<Rightarrow> bool \<Rightarrow> 'c \<Rightarrow> 'w \<Rightarrow> int \<times> 'c \<times> 'w) \<Rightarrow> 'c
     \<Rightarrow> ('w, 'y) net_state_scheme \<Rightarrow> (int \<times> 'c \<times> ('w, 'y) net_state_scheme) option" where
  "plat_net_firmware_download api expect_size sink c s =
     (let (fd, w) = tls_connect api (cfg s) (artifact_port (cfg s)) (world s) in
      if fd < 0 then Some (fd, c, s\<lparr>world := w\<rparr>)
      else let req = get_request (str ''/device/firmware'') (cfg s) in
      if length req \<ge> 256 then Some (-3, c, s\<lparr>world := zsock_close api fd w\<rparr>)
      else let (rc, w) = zsock_send api fd req w in
      if rc < 0 then Some (-3, c, s\<lparr>world := zsock_close api fd w\<rparr>)
      else case header_loop api fd [] w of
        (Inl e, w) \<Rightarrow> Some (e, c, s\<lparr>world := zsock_close api fd w\<rparr>)
      | (Inr (buf, boff), w) \<Rightarrow>
          let code = http_status buf in
          if code \<noteq> 200 \<and> code \<noteq> 206 then Some (-4, c, s\<lparr>world := zsock_close api fd w\<rparr>)
          else let (rc, got, c, w) = deliver_first sink expect_size (drop boff buf) c w
          in if rc \<noteq> 0 then Some (-5, c, s\<lparr>world := zsock_close api fd w\<rparr>)
             else Option.bind (body_loop api fd sink expect_size got c w) (\<lambda>(rc, got, c, w).
               let s = s\<lparr>world := zsock_close api fd w\<rparr>
               in if rc \<noteq> 0 then Some (rc, c, s) else if got \<noteq> expect_size then Some (-1, c, s) else Some (0, c, s)))"

section \<open>Bounds of what is received\<close>

lemma recv_length: "recv api fd len w = (Some bs, w') \<Longrightarrow> length bs \<le> len"
  by (auto simp: recv_def split: prod.splits option.splits)

lemma recv_all_loop_length:
  "recv_all_loop api fd lim acc w = (Some bs, w') \<Longrightarrow> length acc \<le> lim \<Longrightarrow> length bs \<le> lim"
proof (induction api fd lim acc w rule: recv_all_loop.induct)
  case (1 api fd lim acc w)
  show ?case
  proof (cases "length acc < lim")
    case True
    obtain r v where r: "recv api fd (lim - length acc) w = (r, v)" by fastforce
    show ?thesis
    proof (cases "r = None \<or> r = Some []")
      case True
      then show ?thesis using "1.prems" r by (subst (asm) recv_all_loop.simps) (auto split: if_splits)
    next
      case False
      then obtain xs where xs: "r = Some xs" "xs \<noteq> []" by auto
      have "length (acc @ xs) \<le> lim" using recv_length r xs True by fastforce
      moreover have "recv_all_loop api fd lim (acc @ xs) v = (Some bs, w')"
        using "1.prems"(1) True r xs by (subst (asm) recv_all_loop.simps) simp
      ultimately show ?thesis using "1.IH" [OF True r [symmetric] xs] by blast
    qed
  next
    case False
    then show ?thesis using "1.prems" by (subst (asm) recv_all_loop.simps) simp
  qed
qed

lemma recv_all_length: "recv_all api fd cap w = (Some bs, w') \<Longrightarrow> length bs \<le> cap - 1"
  using recv_all_loop_length [of api fd "cap - 1" "[]"] by (simp add: recv_all_def)

lemma body_offset_SomeD:
  assumes "body_offset buf = Some off"
  shows "off \<le> length buf" "4 \<le> off" "take 4 (drop (off - 4) buf) = CRLF2"
    "\<And>i. i + 4 < off \<Longrightarrow> take 4 (drop i buf) \<noteq> CRLF2"
proof -
  from assms obtain i where i: "find (\<lambda>i. take 4 (drop i buf) = CRLF2) [0..<length buf - 3] = Some i" "off = i + 4"
    by (auto simp: body_offset_def split: option.splits)
  then obtain k where k: "k < length buf - 3" "take 4 (drop k buf) = CRLF2" "i = k"
    "\<And>j. j < k \<Longrightarrow> take 4 (drop j buf) \<noteq> CRLF2"
    by (auto simp: find_Some_iff)
  show "off \<le> length buf" "4 \<le> off" "take 4 (drop (off - 4) buf) = CRLF2"
    "\<And>i. i + 4 < off \<Longrightarrow> take 4 (drop i buf) \<noteq> CRLF2"
    using i k by auto
qed

lemma body_offset_header:
  assumes "body_offset buf = Some off"
  shows "body_offset (take off buf) = Some (length (take off buf))"
proof -
  note d = body_offset_SomeD [OF assms]
  have pre: "take 4 (drop i (take off buf)) = take 4 (drop i buf)" if "i + 4 \<le> off" for i
    using that by (simp add: drop_take min_def)
  define P where "P i \<longleftrightarrow> take 4 (drop i (take off buf)) = CRLF2" for i
  have "P (off - 4)" "\<And>j. j < off - 4 \<Longrightarrow> \<not> P j" using d pre by (simp_all add: P_def del: take_all drop_eq_Nil)
  then have "find P [0..<off - 3] = Some (off - 4)"
    unfolding find_Some_iff using d(2) by (intro exI [of _ "off - 4"]) simp
  moreover have "length (take off buf) = off" using d(1) by simp
  ultimately show ?thesis using d(2) unfolding body_offset_def P_def by simp
qed


section \<open>The contract between the download and its sink\<close>

text \<open>
  \<open>sock_ok\<close>: a receive delivers the front of what the peer still has to say on that socket, and no more than asked for.
  \<open>net_frame api f\<close>: no socket call changes the observation \<open>f\<close> of the world (such as the contents of a flash).
\<close>

definition sock_ok :: "('w, 'x) net_api_scheme \<Rightarrow> (int \<Rightarrow> 'w \<Rightarrow> byte list) \<Rightarrow> bool" where
  "sock_ok api unread \<longleftrightarrow> (\<forall>fd n w. case zsock_recv api fd n w of
     (None, w') \<Rightarrow> True | (Some bs, w') \<Rightarrow> length bs \<le> n \<and> unread fd w = bs @ unread fd w')"

definition net_frame :: "('w, 'x) net_api_scheme \<Rightarrow> ('w \<Rightarrow> 'f) \<Rightarrow> bool" where
  "net_frame api f \<longleftrightarrow>
     (\<forall>b w. f (snd (zsock_socket api b w)) = f w)
     \<and> (\<forall>fd opt w. f (zsock_setsockopt api fd opt w) = f w)
     \<and> (\<forall>fd ip port w. f (snd (zsock_connect api fd ip port w)) = f w)
     \<and> (\<forall>fd bs w. f (snd (zsock_send api fd bs w)) = f w)
     \<and> (\<forall>fd n w. f (snd (zsock_recv api fd n w)) = f w)
     \<and> (\<forall>fd w. f (zsock_close api fd w) = f w)"

lemma recv_stream:
  "sock_ok api unread \<Longrightarrow> recv api fd n w = (Some bs, w') \<Longrightarrow> unread fd w = bs @ unread fd w' \<and> length bs \<le> n"
  by (fastforce simp: sock_ok_def recv_def split: prod.splits option.splits)

lemma recv_frame: "net_frame api f \<Longrightarrow> recv api fd n w = (r, w') \<Longrightarrow> f w' = f w"
  by (auto simp: net_frame_def recv_def split: prod.splits option.splits) (metis snd_conv)+

lemma send_frame: "net_frame api f \<Longrightarrow> zsock_send api fd bs w = (r, w') \<Longrightarrow> f w' = f w"
  by (metis net_frame_def snd_conv)

lemma close_frame: "net_frame api f \<Longrightarrow> f (zsock_close api fd w) = f w"
  by (simp add: net_frame_def)

lemma connect_frame:
  assumes "net_frame api f" "tls_connect api conf port w = (fd, w')"
  shows "f w' = f w"
proof -
  obtain fd1 w1 where s: "zsock_socket api True w = (fd1, w1)" by fastforce
  have "f w1 = f w" using assms(1) s by (metis net_frame_def snd_conv)
  moreover have "f (snd (zsock_connect api fd1 ip port (zsock_setsockopt api fd1 a (zsock_setsockopt api fd1 b
      (zsock_setsockopt api fd1 c (zsock_setsockopt api fd1 d w1)))))) = f w1" for ip a b c d
    using assms(1) by (simp add: net_frame_def)
  ultimately show ?thesis
    using assms(2) by (auto simp: tls_connect_def s Let_def split_beta close_frame [OF assms(1)] split: if_splits)
qed

lemma header_loop_stream:
  "sock_ok api unread \<Longrightarrow> header_loop api fd acc w = (Inr (buf, off), w') \<Longrightarrow>
   body_offset buf = Some off \<and> (\<exists>bs. buf = acc @ bs \<and> unread fd w = bs @ unread fd w')"
proof (induction api fd acc w rule: header_loop.induct)
  case (1 api fd acc w)
  obtain r v where r: "recv api fd (FW_BUF - length acc) w = (r, v)" by fastforce
  from "1.prems"(2) r obtain bs where bs: "r = Some bs" "bs \<noteq> []"
    by (subst (asm) header_loop.simps) (auto split: option.splits if_splits)
  have st: "unread fd w = bs @ unread fd v" using recv_stream [OF "1.prems"(1)] r bs by blast
  show ?case
  proof (cases "body_offset (acc @ bs)")
    case (Some o')
    with "1.prems"(2) r bs st show ?thesis
      by (subst (asm) header_loop.simps) (auto simp: Let_def)
  next
    case None
    with "1.prems"(2) r bs have rec: "length (acc @ bs) \<noteq> FW_BUF" "header_loop api fd (acc @ bs) v = (Inr (buf, off), w')"
      by (subst (asm) header_loop.simps, auto simp: Let_def split: if_splits)+
    with "1.IH" [OF r [symmetric] bs refl None rec(1) "1.prems"(1) rec(2)] st show ?thesis by auto
  qed
qed

lemma header_loop_frame:
  "net_frame api f \<Longrightarrow> header_loop api fd acc w = (r', w') \<Longrightarrow> f w' = f w"
proof (induction api fd acc w rule: header_loop.induct)
  case (1 api fd acc w)
  obtain r v where r: "recv api fd (FW_BUF - length acc) w = (r, v)" by fastforce
  have v: "f v = f w" using recv_frame [OF "1.prems"(1) r] .
  show ?case
  proof (cases "\<exists>bs. r = Some bs \<and> bs \<noteq> [] \<and> body_offset (acc @ bs) = None \<and> length (acc @ bs) \<noteq> FW_BUF")
    case True
    then obtain bs where bs: "r = Some bs" "bs \<noteq> []" "body_offset (acc @ bs) = None" "length (acc @ bs) \<noteq> FW_BUF"
      by blast
    have "header_loop api fd (acc @ bs) v = (r', w')"
      using "1.prems"(2) r bs by (subst (asm) header_loop.simps) (simp add: Let_def)
    with "1.IH" [OF r [symmetric] bs(1,2) refl bs(3,4) "1.prems"(1)] v show ?thesis by simp
  next
    case False
    with "1.prems"(2) r v show ?thesis
      by (subst (asm) header_loop.simps) (auto simp: Let_def split: option.splits if_splits)
  qed
qed

lemma fw_take_bounds:
  assumes "got < E" "0 < n" "n \<le> FW_BUF" "unat E + FW_BUF < 2 ^ 64"
  shows "unat (fw_take E got n) = min (unat E - unat got) n" "0 < unat (fw_take E got n)"
    "unat (got + fw_take E got n) = unat got + unat (fw_take E got n)"
    "got + fw_take E got n \<le> E" "got + fw_take E got n \<ge> E \<longleftrightarrow> got + fw_take E got n = E"
proof -
  have n: "unat (of_nat n :: u64) = n" using assms(3) by (simp add: unat_of_nat FW_BUF_def)
  have gE: "unat got < unat E" using assms(1) by (simp add: word_less_nat_alt)
  have "unat (got + of_nat n) = unat got + n"
    using assms(3,4) gE n by (simp add: unat_word_ariths FW_BUF_def)
  then show tk: "unat (fw_take E got n) = min (unat E - unat got) n"
    using n gE assms(1)
    by (auto simp: fw_take_def word_less_nat_alt unat_sub_le order.strict_implies_order min_def)
  then show "0 < unat (fw_take E got n)" using gE assms(2) by simp
  show sum: "unat (got + fw_take E got n) = unat got + unat (fw_take E got n)"
    using assms(4) tk gE by (simp add: unat_word_ariths FW_BUF_def)
  show "got + fw_take E got n \<le> E" "got + fw_take E got n \<ge> E \<longleftrightarrow> got + fw_take E got n = E"
    using sum tk gE by (auto simp: word_le_nat_alt word_unat_eq_iff)
qed

text \<open>A chunk in front of the stream and what is taken after it are one take of the stream.\<close>

lemma take_chunk:
  assumes "k \<le> length bs" "k \<noteq> length bs \<longrightarrow> m = 0"
  shows "take k bs @ take m xs = take (k + m) (bs @ xs)"
    and "m \<le> length xs \<Longrightarrow> k + m \<le> length (bs @ xs)"
  using assms by (cases "k = length bs"; simp)+

locale byte_sink =
  fixes sink :: "'api \<Rightarrow> byte list \<Rightarrow> bool \<Rightarrow> 'c \<Rightarrow> 'w \<Rightarrow> int \<times> 'c \<times> 'w"
    and good :: "'api \<Rightarrow> 'r \<Rightarrow> bool"
    and written :: "'r \<Rightarrow> 'c \<Rightarrow> 'w \<Rightarrow> byte list"
    and flushed :: "'r \<Rightarrow> 'c \<Rightarrow> 'w \<Rightarrow> bool"
    and unread :: "'r \<Rightarrow> int \<Rightarrow> 'w \<Rightarrow> byte list"
  assumes sink_written: "good a r \<Longrightarrow> \<not> flushed r c w \<Longrightarrow> sink a d l c w = (0, c', w') \<Longrightarrow>
      written r c' w' = written r c w @ d"
    and sink_flushed: "good a r \<Longrightarrow> \<not> flushed r c w \<Longrightarrow> sink a d l c w = (0, c', w') \<Longrightarrow>
      flushed r c' w' \<longleftrightarrow> l"
    and sink_quiet: "good a r \<Longrightarrow> sink a d l c w = (n, c', w') \<Longrightarrow> unread r fd w' = unread r fd w"
begin

definition seen :: "'r \<Rightarrow> 'w \<Rightarrow> 'c \<Rightarrow> byte list \<times> bool" where
  "seen r w c = (written r c w, flushed r c w)"

lemma seen_eq: "seen r w = seen r w' \<Longrightarrow> written r c w = written r c w' \<and> flushed r c w = flushed r c w'"
  by (auto simp: seen_def fun_eq_iff)

text \<open>The body loop returns, and delivers to the sink the bytes that follow on the socket, in order and without surplus.\<close>

definition delivered :: "'r \<Rightarrow> int \<Rightarrow> u64 \<Rightarrow> u64 \<Rightarrow> 'c \<Rightarrow> 'w \<Rightarrow> int \<times> u64 \<times> 'c \<times> 'w \<Rightarrow> bool" where
  "delivered r fd E got c w = (\<lambda>(rc, got', c', w'). rc = 0 \<longrightarrow>
     unat got \<le> unat got' \<and> unat got' \<le> unat E \<and> unat got' - unat got \<le> length (unread r fd w)
     \<and> written r c' w' = written r c w @ take (unat got' - unat got) (unread r fd w)
     \<and> (got' = E \<longrightarrow> flushed r c' w'))"

lemma delivered_step:
  assumes "delivered r fd E (got + tk) c1 w1 (rc, g, c', w')" "unread r fd w = bs @ unread r fd w1"
    "written r c1 w1 = written r c w @ take (unat tk) bs" "unat tk = min (unat E - unat got) (length bs)"
    "unat (got + tk) = unat got + unat tk"
  shows "delivered r fd E got c w (rc, g, c', w')"
proof (cases "rc = 0")
  case True
  define m where "m = unat g - unat (got + tk)"
  from assms(1) True have g: "unat (got + tk) \<le> unat g" "unat g \<le> unat E" "m \<le> length (unread r fd w1)"
    "written r c' w' = written r c1 w1 @ take m (unread r fd w1)" "g = E \<longrightarrow> flushed r c' w'"
    by (auto simp: delivered_def m_def)
  have k: "unat tk \<le> length bs" "unat tk \<noteq> length bs \<longrightarrow> m = 0" "unat tk + m = unat g - unat got"
    using assms(4,5) g(1,2) by (auto simp: m_def)
  show ?thesis
    using g take_chunk [OF k(1,2), of "unread r fd w1"] assms(2,3,5) k(3) by (simp add: delivered_def)
qed (simp add: delivered_def)

lemma body_loop_delivers:
  assumes "good a r" "sock_ok api (unread r)" "net_frame api (seen r)" "unat E + FW_BUF < 2 ^ 64"
  shows "got \<le> E \<Longrightarrow> flushed r c w \<longleftrightarrow> got = E \<Longrightarrow>
    \<exists>res. body_loop api fd (sink a) E got c w = Some res \<and> delivered r fd E got c w res"
proof (induction "unat E - unat got" arbitrary: got c w rule: less_induct)
  case less
  obtain rb v where rv: "recv api fd FW_BUF w = (rb, v)" by fastforce
  have v: "written r c v = written r c w" "flushed r c v = flushed r c w"
    using recv_frame [OF assms(3) rv] seen_eq by blast+
  show ?case
  proof (cases "got < E \<and> (\<exists>bs. rb = Some bs \<and> bs \<noteq> [])")
    case False
    then have "body_loop api fd (sink a) E got c w = Some (0, got, c, if got < E then v else w)"
      by (subst body_loop.simps) (auto simp: rv split: option.splits)
    then show ?thesis using less.prems v by (auto simp: delivered_def word_le_nat_alt)
  next
    case True
    then obtain bs where bs: "rb = Some bs" "bs \<noteq> []" and lt: "got < E" by blast
    have st: "unread r fd w = bs @ unread r fd v" "length bs \<le> FW_BUF"
      using recv_stream [OF assms(2), of fd FW_BUF w bs v] rv bs by blast+
    define tk where "tk = fw_take E got (length bs)"
    note t = fw_take_bounds [OF lt _ st(2) assms(4), folded tk_def, simplified, OF bs(2)]
    obtain q c1 w1 where sk: "sink a (take (unat tk) bs) (got + tk \<ge> E) c v = (q, c1, w1)" by (metis prod.collapse)
    have step: "body_loop api fd (sink a) E got c w =
        (if q \<noteq> 0 then Some (-5, got, c1, w1) else body_loop api fd (sink a) E (got + tk) c1 w1)"
      using lt bs rv by (subst body_loop.simps) (simp add: tk_def [symmetric] sk Let_def)
    show ?thesis
    proof (cases "q = 0")
      case False
      then show ?thesis by (simp add: step delivered_def)
    next
      case True
      have nf: "\<not> flushed r c v" using less.prems lt v by auto
      have w1: "written r c1 w1 = written r c w @ take (unat tk) bs" "flushed r c1 w1 \<longleftrightarrow> got + tk = E"
        using sink_written [OF assms(1) nf] sink_flushed [OF assms(1) nf] sk True v t(5) by auto
      have "unat E - unat (got + tk) < unat E - unat got" using t(2,3) lt by (simp add: word_less_nat_alt)
      from less.hyps [OF this t(4) w1(2)] obtain res where
        res: "body_loop api fd (sink a) E (got + tk) c1 w1 = Some res" "delivered r fd E (got + tk) c1 w1 res" by blast
      moreover have "unread r fd w = bs @ unread r fd w1" using st(1) sink_quiet [OF assms(1) sk] by simp
      ultimately show ?thesis
        using step True delivered_step [OF _ _ w1(1) t(1,3)] by (cases res) simp
    qed
  qed
qed

end

lemma http_status_append: "12 \<le> length buf \<Longrightarrow> http_status (buf @ xs) = http_status buf"
  by (simp add: http_status_def nth_append)

lemma http_status_length: "0 \<le> http_status buf \<Longrightarrow> 12 \<le> length buf"
  by (auto simp: http_status_def split: if_splits)

lemma header_loop_result:
  "header_loop api fd acc w = (res, w') \<Longrightarrow> length acc \<le> FW_BUF \<Longrightarrow>
   case res of Inl e \<Rightarrow> e < 0 | Inr (buf, off) \<Rightarrow> length buf \<le> FW_BUF"
proof (induction api fd acc w rule: header_loop.induct)
  case (1 api fd acc w)
  obtain r v where r: "recv api fd (FW_BUF - length acc) w = (r, v)" by fastforce
  show ?case
  proof (cases "\<exists>bs. r = Some bs \<and> bs \<noteq> []")
    case False
    with "1.prems"(1) r show ?thesis by (subst (asm) header_loop.simps) (auto split: option.splits)
  next
    case True
    then obtain bs where bs: "r = Some bs" "bs \<noteq> []" by blast
    have len: "length (acc @ bs) \<le> FW_BUF" using recv_length [OF r [unfolded bs(1)]] "1.prems"(2) by simp
    show ?thesis
    proof (cases "body_offset (acc @ bs) = None \<and> length (acc @ bs) \<noteq> FW_BUF")
      case True
      then have "header_loop api fd (acc @ bs) v = (res, w')"
        using "1.prems"(1) r bs by (subst (asm) header_loop.simps) (simp add: Let_def)
      with "1.IH" [OF r [symmetric] bs refl conjunct1 [OF True] conjunct2 [OF True]] len show ?thesis by blast
    next
      case False
      with "1.prems"(1) r bs len show ?thesis
        by (subst (asm) header_loop.simps) (auto simp: Let_def split: option.splits)
    qed
  qed
qed

context byte_sink
begin

text \<open>What a successful download leaves: the whole image, flushed, taken from the body of one response.\<close>

definition image_from_body :: "'r \<Rightarrow> u64 \<Rightarrow> byte list \<Rightarrow> 'c \<Rightarrow> 'w \<Rightarrow> bool" where
  "image_from_body r E old c' w' \<longleftrightarrow> flushed r c' w' \<and>
     (\<exists>fd w0 hdr body. unread r fd w0 = hdr @ body \<and> body_offset hdr = Some (length hdr)
        \<and> http_status (hdr @ body) \<in> {200, 206} \<and> unat E \<le> length body
        \<and> written r c' w' = old @ take (unat E) body)"

lemma first_chunk:
  assumes "good a r" "net_frame api (seen r)" "sock_ok api (unread r)" "unat E + FW_BUF < 2 ^ 64" "0 < E"
    "\<not> flushed r c w" "length bs \<le> FW_BUF" "unread r fd w = rest"
    "deliver_first (sink a) E bs c w = (0, tk, c1, w1)"
  shows "\<exists>res. body_loop api fd (sink a) E tk c1 w1 = Some res
    \<and> (\<forall>c' w'. res = (0, E, c', w') \<longrightarrow> flushed r c' w' \<and> unat E \<le> length (bs @ rest)
        \<and> written r c' w' = written r c w @ take (unat E) (bs @ rest))"
proof -
  have tk: "tk = (if length bs > 0 then fw_take E 0 (length bs) else 0)"
    using assms(9) by (auto simp: deliver_first_def Let_def split: if_splits prod.splits)
  have t: "unat tk = min (unat E) (length bs)" "tk \<le> E"
    using fw_take_bounds [OF assms(5) _ assms(7,4)] by (auto simp: tk)
  have c1: "written r c1 w1 = written r c w @ take (unat tk) bs" "unread r fd w1 = rest" "flushed r c1 w1 \<longleftrightarrow> tk = E"
    using assms(5,6,8,9) sink_written [OF assms(1,6)] sink_flushed [OF assms(1,6)] sink_quiet [OF assms(1)] t(2)
    by (auto simp: tk deliver_first_def Let_def split: if_splits prod.splits)
  obtain rc g c' w' where res: "body_loop api fd (sink a) E tk c1 w1 = Some (rc, g, c', w')"
    "delivered r fd E tk c1 w1 (rc, g, c', w')"
    using body_loop_delivers [OF assms(1,3,2,4) t(2) c1(3), of fd] by (metis prod.collapse)
  have k: "unat tk \<le> length bs" "unat tk \<noteq> length bs \<longrightarrow> unat E - unat tk = 0" "unat tk + (unat E - unat tk) = unat E"
    using t by auto
  have "flushed r c' w' \<and> unat E \<le> length (bs @ rest) \<and> written r c' w' = written r c w @ take (unat E) (bs @ rest)"
    if "rc = 0" "g = E"
    using res(2) that take_chunk [OF k(1,2), of rest] k(3) c1 by (simp add: delivered_def)
  then show ?thesis using res(1) by auto
qed

lemma download_delivers:
  assumes "good a r" "sock_ok api (unread r)" "net_frame api (seen r)" "unat E + FW_BUF < 2 ^ 64" "0 < E"
    "\<not> flushed r c (world s)"
  shows "\<exists>rc c' s'. plat_net_firmware_download api E (sink a) c s = Some (rc, c', s')
    \<and> (rc = 0 \<longrightarrow> image_from_body r E (written r c (world s)) c' (world s'))"
proof -
  obtain fd w where cn: "tls_connect api (cfg s) (artifact_port (cfg s)) (world s) = (fd, w)" by fastforce
  obtain sc w1 where sd: "zsock_send api fd (get_request (str ''/device/firmware'') (cfg s)) w = (sc, w1)" by fastforce
  obtain h w2 where hl: "header_loop api fd [] w1 = (h, w2)" by fastforce
  have eq: "seen r w2 = seen r (world s)"
    using connect_frame [OF assms(3) cn] send_frame [OF assms(3) sd] header_loop_frame [OF assms(3) hl] by simp
  note D = plat_net_firmware_download_def [of api E "sink a" c s]
  show ?thesis
  proof (cases "fd < 0 \<or> length (get_request (str ''/device/firmware'') (cfg s)) \<ge> 256 \<or> sc < 0 \<or> (\<exists>e. h = Inl e)")
    case True
    have "e < 0" if "h = Inl e" for e using header_loop_result [OF hl] that by simp
    then show ?thesis using True by (auto simp: D cn sd hl Let_def simp del: str_Cons)
  next
    case False
    then obtain buf off where h: "h = Inr (buf, off)" by (cases h) auto
    let ?bs = "drop off buf" and ?hdr = "take off buf"
    note hs = header_loop_stream [OF assms(2) hl [unfolded h]]
    then have un: "unread r fd w1 = ?hdr @ (?bs @ unread r fd w2)" by simp
    have len: "length ?bs \<le> FW_BUF" using header_loop_result [OF hl] h by simp
    have nf: "\<not> flushed r c w2" "written r c w2 = written r c (world s)" using assms(6) seen_eq [OF eq] by auto
    obtain q tk c1 w3 where sk: "deliver_first (sink a) E ?bs c w2 = (q, tk, c1, w3)" by (metis prod.collapse)
    show ?thesis
    proof (cases "http_status buf \<in> {200, 206} \<and> q = 0")
      case bad: False
      then show ?thesis using False h
        by (cases "http_status buf \<in> {200, 206}") (auto simp: D cn sd hl Let_def sk simp del: str_Cons)
    next
      case True
      then have st: "http_status (?hdr @ (?bs @ unread r fd w2)) \<in> {200, 206}"
        using http_status_append [OF http_status_length, of buf "unread r fd w2"]
        by (auto simp: append_assoc [symmetric] simp del: append_assoc)
      obtain rc g c' w' where bl: "body_loop api fd (sink a) E tk c1 w3 = Some (rc, g, c', w')"
        "rc = 0 \<and> g = E \<longrightarrow> flushed r c' w' \<and> unat E \<le> length (?bs @ unread r fd w2)
           \<and> written r c' w' = written r c w2 @ take (unat E) (?bs @ unread r fd w2)"
        using first_chunk [OF assms(1,3,2,4,5) nf(1) len refl] sk True by (metis prod.collapse)
      have "image_from_body r E (written r c (world s)) c' (zsock_close api fd w')" if "rc = 0" "g = E"
        unfolding image_from_body_def
        using bl(2) that nf(2) un st body_offset_header [of buf off] hs
          seen_eq [OF close_frame [OF assms(3)]] by metis
      then show ?thesis using False h True bl(1) sk
        by (auto simp: D cn sd hl Let_def simp del: str_Cons)
    qed
  qed
qed
end

section \<open>A simulated network\<close>

text \<open>
  An instance of the parameters on which the properties are evaluated: a memory for the records, and a server that answers
  the connections in turn with a list of prepared responses. Every call succeeds while there are responses left.
\<close>

record sim =
  sim_nvs :: "u16 \<Rightarrow> byte list option"
  sim_responses :: "byte list list"
  sim_rx :: "byte list"
  sim_creds :: "(u32 \<times> tls_credential_type) list"

definition sim_net :: "'x \<Rightarrow> ('a sim_scheme, 'x) net_api_scheme" where
  "sim_net ext = \<lparr>storage_offset = 0x3f0000, storage_size = 0x10000,
     device_is_ready = (\<lambda>w. True),
     flash_get_page_info_by_offs = (\<lambda>off. (0, 4096)),
     nvs_mount = (\<lambda>fs w. (0, w)),
     nvs_read = (\<lambda>fs rid len w.
       (case sim_nvs w rid of None \<Rightarrow> (-2, []) | Some v \<Rightarrow> (int (length v), take len v), w)),
     nvs_write = (\<lambda>fs rid v w. (if sim_nvs w rid = Some v then 0 else int (length v),
       w\<lparr>sim_nvs := (sim_nvs w)(rid := put_record v)\<rparr>)),
     nvs_delete = (\<lambda>fs rid w. (0, w\<lparr>sim_nvs := (sim_nvs w)(rid := None)\<rparr>)),
     zsock_socket = (\<lambda>tls w. (3, w)),
     zsock_setsockopt = (\<lambda>fd opt w. w),
     zsock_inet_pton = (\<lambda>s. 0),
     zsock_connect = (\<lambda>fd ip port w. case sim_responses w of [] \<Rightarrow> (-1, w)
       | r # rs \<Rightarrow> (0, w\<lparr>sim_responses := rs, sim_rx := r\<rparr>)),
     zsock_send = (\<lambda>fd bs w. (int (length bs), w)),
     zsock_recv = (\<lambda>fd n w. (Some (take n (sim_rx w)), w\<lparr>sim_rx := drop n (sim_rx w)\<rparr>)),
     zsock_close = (\<lambda>fd w. w),
     tls_credential_add = (\<lambda>tag ty bs w. (0, w\<lparr>sim_creds := (tag, ty) # sim_creds w\<rparr>)),
     tls_credential_delete = (\<lambda>tag ty w. (0, w\<lparr>sim_creds := removeAll (tag, ty) (sim_creds w)\<rparr>)),
     net_mgmt_add_event_callback = (\<lambda>w. w),
     net_mgmt_wifi_connect = (\<lambda>ssid psk w. (0, [], w)),
     k_msleep = (\<lambda>ms w. ([Wifi_Event True 0], w)),
     net_dhcpv4_start = (\<lambda>w. w), \<dots> = ext\<rparr>"

lemma sim_net_nvs: "nvs_ok (sim_net ext) sim_nvs"
  by (auto simp: nvs_ok_def sim_net_def split: option.splits)

lemma sim_net_sock: "sock_ok (sim_net ext) (\<lambda>fd. sim_rx)"
  by (simp add: sock_ok_def sim_net_def)

lemma sim_net_frame:
  assumes "\<And>w rs r. f (w\<lparr>sim_responses := rs, sim_rx := r\<rparr>) = f w" "\<And>w r. f (w\<lparr>sim_rx := r\<rparr>) = f w"
  shows "net_frame (sim_net ext) f"
  using assms by (auto simp: net_frame_def sim_net_def split: list.splits)

definition sample_prov :: meshanics_provisioning where
  "sample_prov = \<lparr>wifi_ssid = str ''lab'', wifi_psk = str ''secret'', claim_host = str ''claim.example'',
     claim_ip = str ''192.0.2.1'', claim_port = 443, claim_ca = str ''CA'', claim_token = str ''tok'',
     server_host = str ''cp.example'', server_ip = str ''192.0.2.2'', artifact_port = 8443, fleet_port = 8444,
     server_ca = str ''CA'', artifact_name = str ''sensor'', target_profile = str ''esp32s3''\<rparr>"

definition sim_start :: "'a sim_scheme \<Rightarrow> 'a sim_scheme net_state" where
  "sim_start w = \<lparr>world = w, store_fs = \<lparr>fs_offset = 0, fs_sector_size = 0, fs_sector_count = 0\<rparr>,
     store_ready = False, cfg = sample_prov, wifi_connected = False\<rparr>"

definition http_ok :: "byte list \<Rightarrow> byte list" where
  "http_ok body = str ''HTTP/1.1 200 OK'' @ CRLF2 @ body"

lemma sim_recv: "recv (sim_net ext) fd n w = (Some (take n (sim_rx w)), w\<lparr>sim_rx := drop n (sim_rx w)\<rparr>)"
  by (simp add: recv_def sim_net_def)

lemma sim_recv_all_loop:
  assumes "length acc \<le> lim"
  shows "recv_all_loop (sim_net ext) fd lim acc w = (Some (acc @ take (lim - length acc) (sim_rx w)),
    w\<lparr>sim_rx := drop (lim - length acc) (sim_rx w)\<rparr>)"
proof -
  have drained: "recv_all_loop (sim_net ext) fd lim acc' w' = (Some acc', w')"
    if "length acc' = lim \<or> sim_rx w' = []" for acc' w'
    using that by (subst recv_all_loop.simps) (auto simp: sim_recv)
  show ?thesis
  proof (cases "length acc = lim \<or> sim_rx w = []")
    case True
    then show ?thesis using drained [OF True] by auto
  next
    case False
    then have "recv_all_loop (sim_net ext) fd lim acc w = recv_all_loop (sim_net ext) fd lim
        (acc @ take (lim - length acc) (sim_rx w)) (w\<lparr>sim_rx := drop (lim - length acc) (sim_rx w)\<rparr>)"
      using assms by (subst recv_all_loop.simps) (simp add: sim_recv)
    also have "\<dots> = (Some (acc @ take (lim - length acc) (sim_rx w)),
        w\<lparr>sim_rx := drop (lim - length acc) (sim_rx w)\<rparr>)"
      using assms by (intro drained) auto
    finally show ?thesis .
  qed
qed

lemma sim_recv_all:
  "recv_all (sim_net ext) fd cap w = (Some (take (cap - 1) (sim_rx w)), w\<lparr>sim_rx := drop (cap - 1) (sim_rx w)\<rparr>)"
  by (simp add: recv_all_def sim_recv_all_loop)

lemma sim_tls_connect:
  "sim_responses w = r # rs \<Longrightarrow> tls_connect (sim_net ext) conf port w = (3, w\<lparr>sim_responses := rs, sim_rx := r\<rparr>)"
  by (simp add: tls_connect_def sim_net_def)

lemma sim_send: "zsock_send (sim_net ext) fd bs w = (int (length bs), w)" and sim_close: "zsock_close (sim_net ext) fd w = w"
  by (simp_all add: sim_net_def)

lemmas sim_calls = sim_recv_all sim_tls_connect sim_send sim_close

lemma body_offset_simple:
  assumes "13 \<notin> set hdr"
  shows "body_offset (hdr @ CRLF2 @ body) = Some (length hdr + 4)"
proof -
  define P where "P i \<longleftrightarrow> take 4 (drop i (hdr @ CRLF2 @ body)) = CRLF2" for i
  have "P (length hdr)" by (simp add: P_def CRLF2_def)
  moreover have "\<not> P j" if "j < length hdr" for j
  proof
    assume "P j"
    then have "take 4 (drop j (hdr @ CRLF2 @ body)) ! 0 = 13" by (simp add: P_def CRLF2_def)
    with that assms show False by (auto simp: nth_append in_set_conv_nth)
  qed
  ultimately have "find P [0..<length (hdr @ CRLF2 @ body) - 3] = Some (length hdr)"
    unfolding find_Some_iff by (intro exI [of _ "length hdr"]) (auto simp: CRLF2_def simp del: upt_Suc)
  then show ?thesis by (simp add: body_offset_def P_def [abs_def])
qed

lemma http_ok_parts:
  "http_status (http_ok body) = 200" "body_offset (http_ok body) = Some 19" "drop 19 (http_ok body) = body"
  "length (http_ok body) = 19 + length body"
  using body_offset_simple [of "str ''HTTP/1.1 200 OK''" body]
  by (simp_all add: http_ok_def http_status_def CRLF2_def)

definition sample_world :: "byte list list \<Rightarrow> sim" where
  "sample_world responses = \<lparr>sim_nvs = (\<lambda>_. None), sim_responses = responses, sim_rx = [], sim_creds = []\<rparr>"


section \<open>Networking leaves the rest of the world alone\<close>

text \<open>
  \<open>mgmt_frame\<close> is the same promise for the credential, WiFi and sleep calls. Under both, every operation of this component
  changes nothing but the network side of the world (and the statics it sets).
\<close>

definition mgmt_frame :: "('w, 'x) net_api_scheme \<Rightarrow> ('w \<Rightarrow> 'f) \<Rightarrow> bool" where
  "mgmt_frame api f \<longleftrightarrow>
     (\<forall>tag ty bs w. f (snd (tls_credential_add api tag ty bs w)) = f w)
     \<and> (\<forall>tag ty w. f (snd (tls_credential_delete api tag ty w)) = f w)
     \<and> (\<forall>w. f (net_mgmt_add_event_callback api w) = f w)
     \<and> (\<forall>ssid psk w. f (snd (snd (net_mgmt_wifi_connect api ssid psk w))) = f w)
     \<and> (\<forall>ms w. f (snd (k_msleep api ms w)) = f w)
     \<and> (\<forall>w. f (net_dhcpv4_start api w) = f w)"

text \<open>The states that agree in everything but the world, with the same observation of it.\<close>

definition only_world :: "('w \<Rightarrow> 'f) \<Rightarrow> ('w, 'y) store_state_scheme \<Rightarrow> ('w, 'y) store_state_scheme \<Rightarrow> bool" where
  "only_world f s s' \<longleftrightarrow> (\<exists>w. s' = s\<lparr>world := w\<rparr> \<and> f w = f (world s))"

lemma only_worldI [intro]: "f w = f (world s) \<Longrightarrow> only_world f s (s\<lparr>world := w\<rparr>)"
  by (auto simp: only_world_def)

lemma only_world_refl [simp]: "only_world f s s"
  by (auto simp: only_world_def intro: exI [of _ "world s"])

lemma only_world_trans [trans]: "only_world f s t \<Longrightarrow> only_world f t u \<Longrightarrow> only_world f s u"
  by (auto simp: only_world_def)

lemma only_world_records: "only_world recs s s' \<Longrightarrow> records recs s' = records recs s"
  by (auto simp: only_world_def records_def)

lemma only_world_good: "only_world recs s s' \<Longrightarrow> store_good api recs s \<Longrightarrow> store_good api recs s'"
  by (auto simp: only_world_def store_good_def)

lemma recv_all_loop_frame:
  "net_frame api f \<Longrightarrow> recv_all_loop api fd lim acc w = (r, w') \<Longrightarrow> f w' = f w"
proof (induction api fd lim acc w rule: recv_all_loop.induct)
  case (1 api fd lim acc w)
  obtain q v where q: "recv api fd (lim - length acc) w = (q, v)" by fastforce
  have v: "f v = f w" using recv_frame [OF "1.prems"(1) q] .
  show ?case
  proof (cases "length acc < lim \<and> (\<exists>bs. q = Some bs \<and> bs \<noteq> [])")
    case True
    then obtain bs where bs: "q = Some bs" "bs \<noteq> []" "length acc < lim" by blast
    have "recv_all_loop api fd lim (acc @ bs) v = (r, w')"
      using "1.prems"(2) q bs by (subst (asm) recv_all_loop.simps) simp
    with "1.IH" [OF bs(3) q [symmetric] bs(1,2) "1.prems"(1)] v show ?thesis by simp
  next
    case False
    with "1.prems"(2) q v show ?thesis
      by (subst (asm) recv_all_loop.simps) (auto split: if_splits option.splits)
  qed
qed

lemma recv_all_frame: "net_frame api f \<Longrightarrow> recv_all api fd cap w = (r, w') \<Longrightarrow> f w' = f w"
  unfolding recv_all_def by (rule recv_all_loop_frame)

lemma send_loop_frame: "net_frame api f \<Longrightarrow> send_loop api fd body w = (r, w') \<Longrightarrow> f w' = f w"
proof (induction api fd body w rule: send_loop.induct)
  case (1 api fd body w)
  obtain n v where n: "zsock_send api fd body w = (n, v)" by fastforce
  have v: "f v = f w" using send_frame [OF "1.prems"(1) n] .
  show ?case
  proof (cases "body \<noteq> [] \<and> \<not> n \<le> 0")
    case True
    then have "send_loop api fd (drop (nat n) body) v = (r, w')"
      using "1.prems"(2) n by (subst (asm) send_loop.simps) simp
    with "1.IH" [OF conjunct1 [OF True] n [symmetric] refl conjunct2 [OF True] "1.prems"(1)] v show ?thesis by simp
  next
    case False
    with "1.prems"(2) n v show ?thesis by (subst (asm) send_loop.simps) (auto split: if_splits)
  qed
qed

lemmas net_frames = connect_frame send_frame close_frame recv_all_frame send_loop_frame header_loop_frame

lemma fetch_manifest_frame:
  assumes f: "net_frame api f" and "plat_fetch_manifest api cap s = (r, s')"
  shows "only_world f s s'"
proof -
  obtain fd w where c: "tls_connect api (cfg s) (artifact_port (cfg s)) (world s) = (fd, w)" by fastforce
  obtain rc w1 where sd: "zsock_send api fd (get_request (str ''/device/manifest'') (cfg s)) w = (rc, w1)" by fastforce
  obtain q w2 where rv: "recv_all api fd cap w1 = (q, w2)" by fastforce
  have "f w = f (world s)" "f w1 = f (world s)" "f w2 = f (world s)"
    using connect_frame [OF f c] send_frame [OF f sd] recv_all_frame [OF f rv] by simp_all
  then show ?thesis
    using assms(2) close_frame [OF f]
    by (auto simp: plat_fetch_manifest_def Let_def c sd rv simp del: str_Cons split: if_splits option.splits)
qed

lemma post_device_frame:
  assumes f: "net_frame api f" and "post_device api conf port path body cap w = (r, w')"
  shows "f w' = f w"
proof -
  obtain fd w0 where c: "tls_connect api conf port w = (fd, w0)" by fastforce
  obtain rc w1 where sd: "zsock_send api fd (post_request path conf body) w0 = (rc, w1)" by fastforce
  obtain q w2 where rv: "recv_all api fd cap w1 = (q, w2)" by fastforce
  show ?thesis
    using assms(2) connect_frame [OF f c] send_frame [OF f sd] recv_all_frame [OF f rv] close_frame [OF f]
    by (auto simp: post_device_def Let_def c sd rv split: if_splits option.splits)
qed

lemma register_frame:
  assumes f: "net_frame api f" and "plat_register api s = (r, s')"
  shows "only_world f s s'"
proof (cases "plat_register api s = (-3, s)")
  case False
  define body where "body = str ''{\"hw_profile\":\"'' @ target_profile (cfg s) @ str ''\",\"agent_version\":\"''
      @ SDK_AGENT_VERSION @ str ''\"}''"
  obtain q w where p: "post_device api (cfg s) (fleet_port (cfg s)) (str ''/device/register'') body 512 (world s) = (q, w)"
    by fastforce
  have "f w = f (world s)" using post_device_frame [OF f p] .
  with False assms(2) show ?thesis
    unfolding plat_register_def body_def [symmetric] Let_def p
    by (auto simp: split_beta simp del: str_Cons split: if_splits)
qed (use assms in auto)

lemma upload_logs_frame:
  assumes f: "net_frame api f" and "plat_net_upload_logs api rid body s = (r, s')"
  shows "only_world f s s'"
proof (cases rid)
  case (Some i)
  obtain fd w where c: "tls_connect api (cfg s) (fleet_port (cfg s)) (world s) = (fd, w)" by fastforce
  obtain rc w1 where sd: "zsock_send api fd (log_header i (cfg s) (length body)) w = (rc, w1)" by fastforce
  obtain b w2 where sl: "send_loop api fd body w1 = (b, w2)" by fastforce
  obtain q w3 where rv: "recv_all api fd 256 w2 = (q, w3)" by fastforce
  have "f w = f (world s)" "f w1 = f (world s)" "f w2 = f (world s)" "f w3 = f (world s)"
    using connect_frame [OF f c] send_frame [OF f sd] send_loop_frame [OF f sl] recv_all_frame [OF f rv] by simp_all
  then show ?thesis
    using assms(2) close_frame [OF f] Some
    by (auto simp: plat_net_upload_logs_def Let_def c sd sl rv split: if_splits option.splits)
qed (use assms in \<open>simp add: plat_net_upload_logs_def\<close>)

text \<open>The relation the agent's invariants need: a working store stays working, with the same records.\<close>

definition keeps ::
  "('w, 'x) nvs_api_scheme \<Rightarrow> ('w \<Rightarrow> u16 \<Rightarrow> byte list option) \<Rightarrow> ('w, 'y) store_state_scheme \<Rightarrow> ('w, 'z) store_state_scheme \<Rightarrow> bool" where
  "keeps api recs s s' \<longleftrightarrow>
     (store_good api recs s \<longrightarrow> store_good api recs s' \<and> records recs s' = records recs s)"

lemma keeps_refl [simp]: "keeps api recs s s"
  by (simp add: keeps_def)

lemma keeps_trans [trans]: "keeps api recs s t \<Longrightarrow> keeps api recs t u \<Longrightarrow> keeps api recs s u"
  by (simp add: keeps_def)

lemma only_world_keeps: "only_world recs s s' \<Longrightarrow> keeps api recs s s'"
  by (simp add: keeps_def only_world_good only_world_records)

lemma keeps_world: "recs w = recs (world s) \<Longrightarrow> keeps api recs s (s\<lparr>world := w\<rparr>)"
  by (intro only_world_keeps only_worldI)

lemma read_counter_keeps: "read_counter api rid s = (v, s') \<Longrightarrow> keeps api recs s s'"
  using read_counter_good(2,3) [of api recs s rid] by (simp add: keeps_def)

lemma applied_keeps: "plat_applied_counter api s = (v, s') \<Longrightarrow> keeps api recs s s'"
  and pending_keeps: "plat_pending_counter api s = (v, s') \<Longrightarrow> keeps api recs s s'"
  and failed_keeps: "plat_failed_counter api s = (v, s') \<Longrightarrow> keeps api recs s s'"
  by (simp_all add: counter_ops read_counter_keeps)

lemma store_read_keeps: "plat_store_read api rid n s = (v, s') \<Longrightarrow> keeps api recs s s'"
  using nvs.read_good [of api recs s rid n] nvs.read_view [of api recs s rid n] by (simp add: keeps_def)

lemma attempted_keeps: "plat_attempted_version api nn cap s = (v, s') \<Longrightarrow> keeps api recs s s'"
  by (auto simp: plat_attempted_version_def intro: store_read_keeps split: if_splits prod.splits)

lemma identity_exists_keeps: "meshanics_identity_exists api s = (v, s') \<Longrightarrow> keeps api recs s s'"
  using exists_good(2,3) [of api recs s] by (simp add: keeps_def)

lemma identity_load_keeps: "meshanics_identity_load api nn s = (v, s') \<Longrightarrow> keeps api recs s s'"
  using load_frame [of api recs s nn] by (simp add: keeps_def)

text \<open>The store's statics are untouched and the world looks the same through \<open>f\<close>.\<close>

definition same_store :: "('w \<Rightarrow> 'f) \<Rightarrow> ('w, 'y) store_state_scheme \<Rightarrow> ('w, 'z) store_state_scheme \<Rightarrow> bool" where
  "same_store f s s' \<longleftrightarrow> f (world s') = f (world s) \<and> store_fs s' = store_fs s \<and> store_ready s' = store_ready s"

lemma same_store_refl [simp]: "same_store f s s"
  by (simp add: same_store_def)

lemma same_store_trans [trans]: "same_store f s t \<Longrightarrow> same_store f t u \<Longrightarrow> same_store f s u"
  by (simp add: same_store_def)

lemma same_store_keeps: "same_store recs s s' \<Longrightarrow> keeps api recs s s'"
  by (auto simp: same_store_def keeps_def store_good_def records_def)

lemma same_store_world [simp]: "same_store f s (s\<lparr>world := w\<rparr>) \<longleftrightarrow> f w = f (world s)"
  by (simp add: same_store_def)

lemma same_store_fold_wifi: "same_store f s (fold wifi_evt evs s)"
proof (induction evs arbitrary: s)
  case (Cons ev evs)
  have "same_store f s (wifi_evt ev s)" by (simp add: wifi_evt_def same_store_def)
  then show ?case using Cons.IH [of "wifi_evt ev s"] by (auto intro: same_store_trans)
qed simp

definition sleep_frame :: "('w, 'x) net_api_scheme \<Rightarrow> ('w \<Rightarrow> 'f) \<Rightarrow> bool" where
  "sleep_frame api f \<longleftrightarrow> (\<forall>ms w. f (snd (k_msleep api ms w)) = f w)"

lemma mgmt_sleep_frame: "mgmt_frame api f \<Longrightarrow> sleep_frame api f"
  by (simp add: mgmt_frame_def sleep_frame_def)

lemma sleep_same:
  assumes "sleep_frame api f"
  shows "same_store f s (sleep_ms api ms s)"
proof -
  obtain evs w where k: "k_msleep api ms (world s) = (evs, w)" by fastforce
  have "f w = f (world s)" using assms k by (metis sleep_frame_def snd_conv)
  then have "same_store f s (s\<lparr>world := w\<rparr>)" by simp
  then show ?thesis unfolding sleep_ms_def k by (simp add: same_store_trans [OF _ same_store_fold_wifi])
qed

lemma sleep_keeps: "mgmt_frame api recs \<Longrightarrow> keeps api recs s (sleep_ms api ms s)"
  by (rule same_store_keeps [OF sleep_same [OF mgmt_sleep_frame]])

lemma wifi_request_same: "mgmt_frame api f \<Longrightarrow> same_store f s (wifi_request_loop api prov n s)"
proof (induction n arbitrary: s)
  case (Suc n)
  obtain rc evs w where c: "net_mgmt_wifi_connect api (wifi_ssid prov) (wifi_psk prov) (world s) = (rc, evs, w)"
    by (metis prod.collapse)
  have "f w = f (world s)" using Suc.prems c by (metis mgmt_frame_def snd_conv)
  then have k: "same_store f s (fold wifi_evt evs (s\<lparr>world := w\<rparr>))"
    by (intro same_store_trans [OF _ same_store_fold_wifi]) simp
  show ?case
    using k same_store_trans [OF same_store_trans [OF k sleep_same [OF mgmt_sleep_frame [OF Suc.prems]]] Suc.IH [OF Suc.prems]]
    by (simp add: c Let_def)
qed simp

lemma wifi_wait_same: "mgmt_frame api f \<Longrightarrow> same_store f s (wifi_wait_loop api n s)"
  by (induction n arbitrary: s) (auto intro: same_store_trans [OF sleep_same [OF mgmt_sleep_frame]])

lemma wifi_up_same:
  assumes m: "mgmt_frame api f" and u: "plat_net_wifi_up api prov s = (rc, s')"
  shows "same_store f s s'"
proof (cases prov)
  case None
  with u show ?thesis by (simp add: plat_net_wifi_up_def)
next
  case (Some p)
  define s1 where "s1 = s\<lparr>cfg := p, world := net_mgmt_add_event_callback api (world s)\<rparr>"
  define s2 where "s2 = wifi_wait_loop api 200 (wifi_request_loop api p 10 s1)"
  have k: "same_store f s s1" "same_store f s2 (s2\<lparr>world := net_dhcpv4_start api (world s2)\<rparr>)"
    using m by (simp_all add: mgmt_frame_def s1_def same_store_def)
  note k2 = same_store_trans [OF k(1) same_store_trans [OF wifi_request_same [OF m] wifi_wait_same [OF m]], of 200 p 10, folded s2_def]
  have "s' = s2 \<or> s' = sleep_ms api 3000 (s2\<lparr>world := net_dhcpv4_start api (world s2)\<rparr>)"
    using u Some by (auto simp: plat_net_wifi_up_def s1_def [symmetric] s2_def [symmetric] Let_def split: if_splits)
  then show ?thesis using k2 same_store_trans [OF k2 same_store_trans [OF k(2) sleep_same [OF mgmt_sleep_frame [OF m]]]] by auto
qed

lemma set_identity_same:
  assumes m: "mgmt_frame api f" and u: "plat_net_set_identity api prov idn s = (rc, s')"
  shows "same_store f s s'"
proof (cases "prov = None \<or> idn = None")
  case True
  with u show ?thesis by (auto simp: plat_net_set_identity_def split: option.splits)
next
  case False
  then obtain p i where pi: "prov = Some p" "idn = Some i" by auto
  obtain r1 w1 where a1: "tls_credential_add api SEC_TAG TLS_CREDENTIAL_CA_CERTIFICATE (server_ca p @ [0]) (world s) = (r1, w1)"
    by fastforce
  obtain r2 w2 where a2: "tls_credential_add api SEC_TAG TLS_CREDENTIAL_PUBLIC_CERTIFICATE (device_cert_pem i @ [0]) w1 = (r2, w2)"
    by fastforce
  obtain r3 w3 where a3: "tls_credential_add api SEC_TAG TLS_CREDENTIAL_PRIVATE_KEY (device_key_pem i @ [0]) w2 = (r3, w3)"
    by fastforce
  have "f w1 = f (world s)" "f w2 = f (world s)" "f w3 = f (world s)"
    using m a1 a2 a3 by (metis mgmt_frame_def snd_conv)+
  then show ?thesis
    using u a1 a2 a3 by (auto simp: plat_net_set_identity_def pi Let_def same_store_def split: if_splits)
qed

lemma wifi_up_keeps: "mgmt_frame api recs \<Longrightarrow> plat_net_wifi_up api prov s = (rc, s') \<Longrightarrow> keeps api recs s s'"
  and set_identity_keeps: "mgmt_frame api recs \<Longrightarrow> plat_net_set_identity api prov idn s = (rc, s') \<Longrightarrow> keeps api recs s s'"
  by (blast intro: same_store_keeps wifi_up_same set_identity_same)+

lemma heartbeat_keeps:
  assumes f: "net_frame api recs" and h: "plat_heartbeat api cs av ac ph pd lc s = (r, s')"
  shows "keeps api recs s s'"
proof -
  obtain v s1 where p1: "plat_failed_counter api s = (v, s1)" by fastforce
  obtain rev s2 where p2: "(if v \<noteq> 0 then plat_attempted_version api True 32 s1 else (None, s1)) = (rev, s2)" by fastforce
  have k: "keeps api recs s s2"
    using failed_keeps [OF p1] attempted_keeps [of api True 32 s1 rev s2] p2
    by (cases "v = 0") (auto intro: keeps_trans)
  show ?thesis
  proof (cases "ota_heartbeat_json cs True 256 (Some SDK_AGENT_VERSION) (Some av) ac ph (Some pd)
      (Some (case rev of Some v \<Rightarrow> v | None \<Rightarrow> []))")
    case None
    with h k show ?thesis by (simp add: plat_heartbeat_def p1 p2)
  next
    case (Some body)
    obtain q w where pd: "post_device api (cfg s2) (fleet_port (cfg s2)) (str ''/device/heartbeat'') body 512 (world s2) = (q, w)"
      by fastforce
    have "keeps api recs s2 (s2\<lparr>world := w\<rparr>)" using post_device_frame [OF f pd] by (rule keeps_world)
    moreover have "s' = s2\<lparr>world := w\<rparr>"
      using h unfolding plat_heartbeat_def p1 p2 Some Let_def prod.case option.case pd
      by (cases q) (auto split: if_splits)
    ultimately show ?thesis using k keeps_trans by blast
  qed
qed

lemma body_loop_frame:
  "body_loop api fd sink E got c w = Some y \<Longrightarrow> net_frame api f \<Longrightarrow>
   \<forall>d l c w. f (snd (snd (sink d l c w))) = f w \<Longrightarrow> f (snd (snd (snd y))) = f w"
proof (induct rule: body_loop.raw_induct [rotated, consumes 1, case_names step])
  case (step rec api fd sink E got c w y)
  obtain q v where q: "recv api fd FW_BUF w = (q, v)" by fastforce
  have v: "f v = f w" using recv_frame [OF step(3) q] .
  show ?case
  proof (cases "got < E \<and> (\<exists>bs. q = Some bs \<and> bs \<noteq> [])")
    case False
    with step(2) q v show ?thesis by (auto split: if_splits option.splits)
  next
    case True
    then obtain bs where bs: "q = Some bs" "bs \<noteq> []" "got < E" by blast
    define r where "r = sink (take (unat (fw_take E got (length bs))) bs) (got + fw_take E got (length bs) \<ge> E) c v"
    have r: "f (snd (snd r)) = f w" using step(4) v by (simp add: r_def)
    have "y = (-5, got, fst (snd r), snd (snd r))
        \<or> rec api fd sink E (got + fw_take E got (length bs)) (fst (snd r)) (snd (snd r)) = Some y"
      using step(2) q bs by (auto simp: r_def Let_def split: if_splits)
    then show ?thesis
    proof
      assume "rec api fd sink E (got + fw_take E got (length bs)) (fst (snd r)) (snd (snd r)) = Some y"
      from step(1) [OF this step(3,4)] r show ?thesis by simp
    qed (use r in simp)
  qed
qed

lemma deliver_first_frame:
  "deliver_first sink E bs c w = (rc, g, c', w') \<Longrightarrow> \<forall>d l c w. f (snd (snd (sink d l c w))) = f w \<Longrightarrow> f w' = f w"
  by (auto simp: deliver_first_def Let_def split: if_splits prod.splits) (metis snd_conv)

lemma download_frame:
  assumes f: "net_frame api f" and sk: "\<forall>d l c w. f (snd (snd (sink d l c w))) = f w"
    and dl: "plat_net_firmware_download api E sink c s = Some (rc, c', s')"
  shows "only_world f s s'"
proof -
  obtain fd w where cn: "tls_connect api (cfg s) (artifact_port (cfg s)) (world s) = (fd, w)" by fastforce
  obtain sc w1 where sd: "zsock_send api fd (get_request (str ''/device/firmware'') (cfg s)) w = (sc, w1)" by fastforce
  obtain h w2 where hl: "header_loop api fd [] w1 = (h, w2)" by fastforce
  have eq: "f w = f (world s)" "f w1 = f (world s)" "f w2 = f (world s)"
    using connect_frame [OF f cn] send_frame [OF f sd] header_loop_frame [OF f hl] by simp_all
  note D = plat_net_firmware_download_def [of api E sink c s]
  show ?thesis
  proof (cases "\<exists>buf off. \<not> fd < 0 \<and> length (get_request (str ''/device/firmware'') (cfg s)) < 256 \<and> \<not> sc < 0
      \<and> h = Inr (buf, off) \<and> http_status buf \<in> {200, 206}")
    case False
    with dl eq close_frame [OF f] show ?thesis
      by (auto simp: D cn sd hl Let_def simp del: str_Cons split: if_splits sum.splits prod.splits)
  next
    case True
    then obtain buf off where t: "\<not> fd < 0" "length (get_request (str ''/device/firmware'') (cfg s)) < 256" "\<not> sc < 0"
      "h = Inr (buf, off)" "http_status buf \<in> {200, 206}" by blast
    obtain q g c1 w3 where df: "deliver_first sink E (drop off buf) c w2 = (q, g, c1, w3)" by (metis prod.collapse)
    have w3: "f w3 = f (world s)" using deliver_first_frame [OF df sk] eq(3) by simp
    have "body_loop api fd sink E g c1 w3 = Some y \<Longrightarrow> f (snd (snd (snd y))) = f (world s)" for y
      using body_loop_frame [OF _ f sk] w3 by simp
    with dl t w3 close_frame [OF f] show ?thesis
      by (auto simp: D cn sd hl df Let_def bind_eq_Some_conv simp del: str_Cons split: if_splits)
  qed
qed

end
