(* ===== verification/Plat_Mcuboot.thy ===== *)
theory Plat_Mcuboot
  imports Plat_Net
begin

text \<open>
  The installer, \<^verbatim>\<open>lib/plat/plat_mcuboot.c\<close>: decoding the digest, streaming the image into the secondary slot, reading it
  back through PSA SHA-256, and committing the swap. MCUboot, the flash image writer (context \<open>'c\<close>), the slot and the
  PSA hash (operation \<open>'h\<close>) are parameters. A result \<open>None\<close> of \<open>plat_stage_image\<close> means no defined result: the download
  loop does not return, or the digest text is read outside its array; the lemmas exclude both for the agent's calls.
  The cast of an offset to \<open>off_t\<close> is the identity on the sizes of a flash slot.
\<close>

section \<open>The external calls\<close>

record ('w, 'c, 'h) boot_api = "'w net_api" +
  boot_is_img_confirmed :: "'w \<Rightarrow> bool \<times> 'w"
  boot_write_img_confirmed :: "'w \<Rightarrow> int \<times> 'w"
  boot_request_upgrade_test :: "'w \<Rightarrow> int \<times> 'w"
  flash_area_open :: "'w \<Rightarrow> int \<times> 'w"
  flash_area_read :: "nat \<Rightarrow> nat \<Rightarrow> 'w \<Rightarrow> int \<times> byte list \<times> 'w"
  flash_area_close :: "'w \<Rightarrow> 'w"
  flash_img_init :: "'w \<Rightarrow> int \<times> 'c \<times> 'w"
  flash_img_buffered_write :: "'c \<Rightarrow> byte list \<Rightarrow> bool \<Rightarrow> 'w \<Rightarrow> int \<times> 'c \<times> 'w"
  psa_hash_setup :: "'w \<Rightarrow> int \<times> 'h \<times> 'w"
  psa_hash_update :: "'h \<Rightarrow> byte list \<Rightarrow> 'w \<Rightarrow> int \<times> 'h \<times> 'w"
  psa_hash_finish :: "'h \<Rightarrow> nat \<Rightarrow> 'w \<Rightarrow> int \<times> byte list \<times> 'w"
  psa_hash_abort :: "'h \<Rightarrow> 'w \<Rightarrow> 'w"

section \<open>The digest text\<close>

text \<open>\<open>None\<close> is the source's \<open>-1\<close>.\<close>

definition hex_nibble :: "byte \<Rightarrow> byte option" where
  "hex_nibble c =
     (if in_range c CHR ''0'' CHR ''9'' then Some (c - ch CHR ''0'')
      else if in_range c CHR ''a'' CHR ''f'' then Some (c - ch CHR ''a'' + 10)
      else if in_range c CHR ''A'' CHR ''F'' then Some (c - ch CHR ''A'' + 10)
      else None)"

fun hex32_loop :: "byte list \<Rightarrow> nat list \<Rightarrow> byte list \<Rightarrow> (unit, byte list) cres" where
  "hex32_loop hex [] out = Ok out"
| "hex32_loop hex (i # is) out =
     cbind (load hex (2 * i)) (\<lambda>a. cbind (load hex (2 * i + 1)) (\<lambda>b.
       case (hex_nibble a, hex_nibble b) of
         (Some hi, Some lo) \<Rightarrow> hex32_loop hex is (out @ [push_bit 4 hi OR lo])
       | _ \<Rightarrow> Fail ()))"

definition hex32 :: "byte list \<Rightarrow> (unit, byte list) cres" where
  "hex32 hex = hex32_loop hex [0..<32] []"

section \<open>Boot-confirm primitives\<close>

definition plat_image_confirmed ::
  "('w, 'c, 'h, 'x) boot_api_scheme \<Rightarrow> ('w, 'y) net_state_scheme \<Rightarrow> int \<times> ('w, 'y) net_state_scheme" where
  "plat_image_confirmed api s =
     (let (b, w) = boot_is_img_confirmed api (world s) in (if b then 1 else 0, s\<lparr>world := w\<rparr>))"

definition plat_confirm_image ::
  "('w, 'c, 'h, 'x) boot_api_scheme \<Rightarrow> ('w, 'y) net_state_scheme \<Rightarrow> int \<times> ('w, 'y) net_state_scheme" where
  "plat_confirm_image api s =
     (let (rc, w) = boot_write_img_confirmed api (world s) in (rc, s\<lparr>world := w\<rparr>))"

section \<open>Reading the slot back\<close>

definition slot_chunk :: "u64 \<Rightarrow> u64 \<Rightarrow> u64" where
  "slot_chunk sz off = (if sz - off < 512 then sz - off else 512)"

lemma slot_chunk_bounds:
  assumes "off < sz"
  shows "0 < unat (slot_chunk sz off)" "unat (off + slot_chunk sz off) = unat off + unat (slot_chunk sz off)"
    "unat off + unat (slot_chunk sz off) \<le> unat sz"
proof -
  have "slot_chunk sz off = ota_chunk_len off sz 512"
    using assms by (auto simp: slot_chunk_def ota_chunk_len_def Let_def not_le)
  then show "0 < unat (slot_chunk sz off)" "unat (off + slot_chunk sz off) = unat off + unat (slot_chunk sz off)"
    "unat off + unat (slot_chunk sz off) \<le> unat sz"
    using ota_chunk_len_bounds [OF assms, of 512] by (simp_all add: word_less_nat_alt)
qed

text \<open>\<open>None\<close>: a read or update failed and the operation was aborted.\<close>

function hash_slot_loop ::
  "('w, 'c, 'h, 'x) boot_api_scheme \<Rightarrow> u64 \<Rightarrow> u64 \<Rightarrow> 'h \<Rightarrow> 'w \<Rightarrow> 'h option \<times> 'w" where
  "hash_slot_loop api sz off op w =
     (if off < sz
      then let n = slot_chunk sz off;
               (rc, rb, w) = flash_area_read api (unat off) (unat n) w
           in if rc \<noteq> 0 then (None, psa_hash_abort api op w)
              else let (rc, op, w) = psa_hash_update api op rb w
                   in if rc \<noteq> 0 then (None, psa_hash_abort api op w)
                      else hash_slot_loop api sz (off + n) op w
      else (Some op, w))"
  by pat_completeness auto
termination
  by (relation "measure (\<lambda>(api, sz, off, op, w). unat sz - unat off)")
    (use slot_chunk_bounds in \<open>auto intro!: diff_less_mono2 simp: word_less_nat_alt\<close>)

declare hash_slot_loop.simps [simp del]

definition verify_slot_sha256 ::
  "('w, 'c, 'h, 'x) boot_api_scheme \<Rightarrow> u64 \<Rightarrow> byte list \<Rightarrow> 'w \<Rightarrow> int \<times> 'w" where
  "verify_slot_sha256 api sz expect_digest w =
     (let (rc, w) = flash_area_open api w in
      if rc \<noteq> 0 then (-1, w)
      else let (rc, op, w) = psa_hash_setup api w in
      if rc \<noteq> 0 then (-1, flash_area_close api w)
      else case hash_slot_loop api sz 0 op w of
        (None, w) \<Rightarrow> (-1, flash_area_close api w)
      | (Some op, w) \<Rightarrow>
          let (rc, out, w) = psa_hash_finish api op 32 w in
          if rc \<noteq> 0 \<or> length out \<noteq> 32 then (-1, flash_area_close api w)
          else (if out = expect_digest then 0 else -1, flash_area_close api w))"

section \<open>Staging and committing\<close>

definition stage_sink ::
  "('w, 'c, 'h, 'x) boot_api_scheme \<Rightarrow> byte list \<Rightarrow> bool \<Rightarrow> 'c \<Rightarrow> 'w \<Rightarrow> int \<times> 'c \<times> 'w" where
  "stage_sink api data is_last c w = flash_img_buffered_write api c data is_last w"

definition plat_stage_image ::
  "('w, 'c, 'h, 'x) boot_api_scheme \<Rightarrow> byte list option \<Rightarrow> u64 \<Rightarrow> ('w, 'y) net_state_scheme
     \<Rightarrow> (int \<times> ('w, 'y) net_state_scheme) option" where
  "plat_stage_image api sha256_hex sz s =
     (if sz = 0 then Some (-1, s)
      else case sha256_hex of None \<Rightarrow> Some (-1, s) | Some hex \<Rightarrow>
      case hex32 hex of Oob \<Rightarrow> None | Fail _ \<Rightarrow> Some (-1, s) | Ok expect_digest \<Rightarrow>
      let (rc, c, w) = flash_img_init api (world s);
          s = s\<lparr>world := w\<rparr>
      in if rc \<noteq> 0 then Some (-1, s)
         else Option.bind (plat_net_firmware_download api sz (stage_sink api) c s) (\<lambda>(rc, c, s).
           if rc \<noteq> 0 then Some (-1, s)
           else let (rc, w) = verify_slot_sha256 api sz expect_digest (world s);
                    s = s\<lparr>world := w\<rparr>
                in if rc \<noteq> 0 then Some (-1, s) else Some (0, s)))"

text \<open>The result is \<open>None\<close> when the device reboots, which \<open>sys_reboot\<close> does without returning.\<close>

definition plat_commit_and_reboot ::
  "('w, 'c, 'h, 'x) boot_api_scheme \<Rightarrow> u64 \<Rightarrow> ('w, 'y) net_state_scheme \<Rightarrow> int option \<times> ('w, 'y) net_state_scheme" where
  "plat_commit_and_reboot api counter s =
     (let (rc, s) = plat_store_pending api counter s in
      if rc \<noteq> 0 then (Some (-1), s)
      else let (rc, w) = boot_request_upgrade_test api (world s);
               s = s\<lparr>world := w\<rparr>
           in if rc \<noteq> 0 then (Some (-1), s) else (None, s))"

text \<open>A cold reboot does not return; the world is what survives it.\<close>

definition plat_reboot :: "('w, 'y) net_state_scheme \<Rightarrow> unit option \<times> ('w, 'y) net_state_scheme" where
  "plat_reboot s = (None, s)"

section \<open>The digest text is decoded in bounds and exactly\<close>

lemma hex32_loop_safe: "\<forall>i \<in> set is. 2 * i + 1 < length hex \<Longrightarrow> hex32_loop hex is out \<noteq> Oob"
  by (induction "is" arbitrary: out) (auto split: option.splits)

lemma hex32_safe: "64 \<le> length hex \<Longrightarrow> hex32 hex \<noteq> Oob"
  by (simp add: hex32_def hex32_loop_safe)

lemma hex_nibble_digit: "d < 16 \<Longrightarrow> hex_nibble (hex_digit d) = Some d"
proof -
  have "list_all (\<lambda>n. hex_nibble (hex_digit (of_nat n)) = Some (of_nat n)) [0..<16]" by code_simp
  moreover assume "d < 16"
  then have "unat d \<in> set [0..<16]" by (simp add: word_less_nat_alt)
  ultimately show ?thesis unfolding list_all_iff by (auto dest: bspec [of _ _ "unat d"])
qed

lemma nibbles:
  fixes b :: byte
  shows "drop_bit 4 b < 16" "b AND 15 < 16" "push_bit 4 (drop_bit 4 b) OR (b AND 15) = b"
proof -
  have m: "(15 :: byte) = mask 4" by (simp add: mask_eq_exp_minus_1)
  have "drop_bit 4 b AND mask 4 = drop_bit 4 b"
    by (rule bit_word_eqI) (auto simp: bit_simps dest: bit_imp_le_length)
  moreover have "x AND mask 4 < 2 ^ 4" for x :: byte by (rule and_mask_less') simp
  ultimately have "drop_bit 4 b < 2 ^ 4" "b AND 15 < 2 ^ 4" unfolding m by metis+
  then show "drop_bit 4 b < 16" "b AND 15 < 16" by simp_all
  show "push_bit 4 (drop_bit 4 b) OR (b AND 15) = b"
    unfolding m by (rule bit_word_eqI) (auto simp: bit_simps)
qed

lemma hex32_loop_text:
  "\<forall>i \<in> set is. i < length d \<Longrightarrow>
   hex32_loop (hex_text d @ rest) is out = Ok (out @ map (\<lambda>i. d ! i) is)"
proof (induction "is" arbitrary: out)
  case Nil
  then show ?case by simp
next
  case (Cons i "is")
  then have i: "i < length d" by simp
  have l: "(hex_text d @ rest) ! (2 * i) = hex_digit (drop_bit 4 (d ! i))"
    "(hex_text d @ rest) ! (2 * i + 1) = hex_digit ((d ! i) AND 15)"
    using i nth_hex_text [OF i] by (simp_all add: nth_append)
  have "hex32_loop (hex_text d @ rest) (i # is) out = hex32_loop (hex_text d @ rest) is (out @ [d ! i])"
    using i l by (simp add: hex_nibble_digit nibbles)
  with Cons show ?case by simp
qed

lemma hex32_text: "length d = 32 \<Longrightarrow> hex32 (hex_text d @ rest) = Ok d"
  using hex32_loop_text [of "[0..<32]" d rest "[]"] map_nth [of d] by (simp add: hex32_def del: upt_Suc)

section \<open>What the flash, the image writer and the hash promise\<close>

text \<open>
  The abstraction of the installer's environment: the bytes an image context has accepted, whether it was flushed, the
  contents of the slot, what the peer still has to say, the input of a hash operation, and the hash function.
\<close>

record ('w, 'c, 'h) fw_abs =
  fa_written :: "'c \<Rightarrow> 'w \<Rightarrow> byte list"
  fa_flushed :: "'c \<Rightarrow> 'w \<Rightarrow> bool"
  fa_slot :: "'w \<Rightarrow> byte list"
  fa_unread :: "int \<Rightarrow> 'w \<Rightarrow> byte list"
  fa_hashed :: "'h \<Rightarrow> byte list"
  fa_sha :: "byte list \<Rightarrow> byte list"

definition flash_img_ok :: "('w, 'c, 'h, 'x) boot_api_scheme \<Rightarrow> ('w, 'c, 'h) fw_abs \<Rightarrow> bool" where
  "flash_img_ok api r \<longleftrightarrow>
     (\<forall>w. case flash_img_init api w of (rc, c, w') \<Rightarrow> rc = 0 \<longrightarrow> fa_written r c w' = [] \<and> \<not> fa_flushed r c w')
   \<and> (\<forall>c d l w. case flash_img_buffered_write api c d l w of (rc, c', w') \<Rightarrow>
        (\<forall>fd. fa_unread r fd w' = fa_unread r fd w)
        \<and> (rc = 0 \<and> \<not> fa_flushed r c w \<longrightarrow> fa_written r c' w' = fa_written r c w @ d \<and> fa_flushed r c' w' = l))
   \<and> (\<forall>c w. fa_flushed r c w \<longrightarrow> take (length (fa_written r c w)) (fa_slot r w) = fa_written r c w)"

definition slot_hash_ok :: "('w, 'c, 'h, 'x) boot_api_scheme \<Rightarrow> ('w, 'c, 'h) fw_abs \<Rightarrow> bool" where
  "slot_hash_ok api r \<longleftrightarrow>
     (\<forall>w. fa_slot r (snd (flash_area_open api w)) = fa_slot r w)
   \<and> (\<forall>w. fa_slot r (flash_area_close api w) = fa_slot r w)
   \<and> (\<forall>off n w. case flash_area_read api off n w of (rc, rb, w') \<Rightarrow>
        fa_slot r w' = fa_slot r w \<and> (rc = 0 \<longrightarrow> rb = take n (drop off (fa_slot r w))))
   \<and> (\<forall>w. case psa_hash_setup api w of (rc, op, w') \<Rightarrow> fa_slot r w' = fa_slot r w \<and> (rc = 0 \<longrightarrow> fa_hashed r op = []))
   \<and> (\<forall>op d w. case psa_hash_update api op d w of (rc, op', w') \<Rightarrow>
        fa_slot r w' = fa_slot r w \<and> (rc = 0 \<longrightarrow> fa_hashed r op' = fa_hashed r op @ d))
   \<and> (\<forall>op n w. case psa_hash_finish api op n w of (rc, out, w') \<Rightarrow>
        fa_slot r w' = fa_slot r w \<and> (rc = 0 \<longrightarrow> out = fa_sha r (fa_hashed r op)))"

definition fw_view :: "('w, 'c, 'h) fw_abs \<Rightarrow> 'w \<Rightarrow> ('c \<Rightarrow> byte list \<times> bool) \<times> byte list" where
  "fw_view r w = (\<lambda>c. (fa_written r c w, fa_flushed r c w), fa_slot r w)"

lemma flash_img_writeD:
  assumes "flash_img_ok api r" "flash_img_buffered_write api c d l w = (rc, c', w')"
  shows "fa_unread r fd w' = fa_unread r fd w"
    and "rc = 0 \<Longrightarrow> \<not> fa_flushed r c w \<Longrightarrow> fa_written r c' w' = fa_written r c w @ d \<and> fa_flushed r c' w' = l"
proof -
  have "case flash_img_buffered_write api c d l w of (rc, c', w') \<Rightarrow>
      (\<forall>fd. fa_unread r fd w' = fa_unread r fd w)
      \<and> (rc = 0 \<and> \<not> fa_flushed r c w \<longrightarrow> fa_written r c' w' = fa_written r c w @ d \<and> fa_flushed r c' w' = l)"
    using assms(1) by (simp add: flash_img_ok_def)
  with assms(2) show "fa_unread r fd w' = fa_unread r fd w"
    "rc = 0 \<Longrightarrow> \<not> fa_flushed r c w \<Longrightarrow> fa_written r c' w' = fa_written r c w @ d \<and> fa_flushed r c' w' = l"
    by auto
qed

interpretation stage: byte_sink stage_sink flash_img_ok fa_written fa_flushed fa_unread
  by unfold_locales (simp_all add: stage_sink_def flash_img_writeD)

lemma flash_initD:
  assumes "flash_img_ok api r" "flash_img_init api w = (0, c, w')"
  shows "fa_written r c w' = []" "\<not> fa_flushed r c w'"
proof -
  have "case flash_img_init api w of (rc, c, w') \<Rightarrow> rc = 0 \<longrightarrow> fa_written r c w' = [] \<and> \<not> fa_flushed r c w'"
    using assms(1) by (simp add: flash_img_ok_def)
  with assms(2) show "fa_written r c w' = []" "\<not> fa_flushed r c w'" by auto
qed

lemma slot_readD:
  assumes "slot_hash_ok api r" "flash_area_read api off n w = (rc, rb, w')"
  shows "fa_slot r w' = fa_slot r w" "rc = 0 \<Longrightarrow> rb = take n (drop off (fa_slot r w))"
proof -
  have "case flash_area_read api off n w of (rc, rb, w') \<Rightarrow>
      fa_slot r w' = fa_slot r w \<and> (rc = 0 \<longrightarrow> rb = take n (drop off (fa_slot r w)))"
    using assms(1) by (simp add: slot_hash_ok_def)
  with assms(2) show "fa_slot r w' = fa_slot r w" "rc = 0 \<Longrightarrow> rb = take n (drop off (fa_slot r w))" by auto
qed

lemma hash_updateD:
  assumes "slot_hash_ok api r" "psa_hash_update api op d w = (rc, op', w')"
  shows "fa_slot r w' = fa_slot r w" "rc = 0 \<Longrightarrow> fa_hashed r op' = fa_hashed r op @ d"
proof -
  have "case psa_hash_update api op d w of (rc, op', w') \<Rightarrow>
      fa_slot r w' = fa_slot r w \<and> (rc = 0 \<longrightarrow> fa_hashed r op' = fa_hashed r op @ d)"
    using assms(1) by (simp add: slot_hash_ok_def)
  with assms(2) show "fa_slot r w' = fa_slot r w" "rc = 0 \<Longrightarrow> fa_hashed r op' = fa_hashed r op @ d" by auto
qed

section \<open>The digest check\<close>

text \<open>The read-back loop feeds the hash with exactly the image: the slot from the current offset up to the size.\<close>

lemma hash_slot_loop_input:
  assumes "slot_hash_ok api r"
  shows "hash_slot_loop api sz off op w = (Some op', w') \<Longrightarrow> off \<le> sz \<Longrightarrow>
    fa_slot r w' = fa_slot r w \<and> fa_hashed r op' = fa_hashed r op @ take (unat sz - unat off) (drop (unat off) (fa_slot r w))"
proof (induction "unat sz - unat off" arbitrary: off op w rule: less_induct)
  case less
  show ?case
  proof (cases "off < sz")
    case False
    with less.prems show ?thesis by (subst (asm) hash_slot_loop.simps) auto
  next
    case True
    define n where "n = slot_chunk sz off"
    note b = slot_chunk_bounds [OF True, folded n_def]
    obtain q rb w1 where rd: "flash_area_read api (unat off) (unat n) w = (q, rb, w1)" by (metis prod.collapse)
    obtain q2 op2 w2 where up: "psa_hash_update api op rb w1 = (q2, op2, w2)" by (metis prod.collapse)
    have z: "q = 0" "q2 = 0" and rec: "hash_slot_loop api sz (off + n) op2 w2 = (Some op', w')"
      using less.prems(1) True rd up
      by (subst (asm) hash_slot_loop.simps, simp add: n_def [symmetric] split: if_splits)+
    define m where "m = unat sz - unat (off + n)"
    have less': "unat sz - unat (off + n) < unat sz - unat off" and le: "off + n \<le> sz"
      using b by (simp_all add: word_le_nat_alt)
    have split: "take (unat sz - unat off) (drop (unat off) S)
        = take (unat n) (drop (unat off) S) @ take m (drop (unat (off + n)) S)" for S :: "byte list"
    proof -
      have e: "unat sz - unat off = unat n + m" using b by (simp add: m_def)
      show ?thesis unfolding e b(2) take_add by (simp add: add.commute)
    qed
    note rd' = slot_readD [OF assms rd] and up' = hash_updateD [OF assms up]
    show ?thesis unfolding split
      using less.hyps [OF less' rec le, folded m_def] rd'(1) rd'(2) [OF z(1)] up'(1) up'(2) [OF z(2)] by simp
  qed
qed

lemma verify_slot_sound:
  assumes "slot_hash_ok api r" "verify_slot_sha256 api sz d w = (rc, w')"
  shows "rc = 0 \<Longrightarrow> fa_sha r (take (unat sz) (fa_slot r w')) = d \<and> fa_slot r w' = fa_slot r w"
proof -
  assume rc: "rc = 0"
  obtain q1 w1 where op: "flash_area_open api w = (q1, w1)" by fastforce
  obtain q2 h w2 where st: "psa_hash_setup api w1 = (q2, h, w2)" by (metis prod.collapse)
  obtain ho w3 where lp: "hash_slot_loop api sz 0 h w2 = (ho, w3)" by fastforce
  have z: "q1 = 0" "q2 = 0" "ho \<noteq> None"
    using assms(2) rc by (auto simp: verify_slot_sha256_def op st lp Let_def split: if_splits option.splits prod.splits)
  then obtain h' where h': "ho = Some h'" by blast
  obtain q3 out w4 where fi: "psa_hash_finish api h' 32 w3 = (q3, out, w4)" by (metis prod.collapse)
  have out: "q3 = 0" "out = d" "w' = flash_area_close api w4"
    using assms(2) rc z by (auto simp: verify_slot_sha256_def op st lp h' fi Let_def split: if_splits)
  have "case psa_hash_setup api w1 of (rc, op, w') \<Rightarrow> fa_slot r w' = fa_slot r w1 \<and> (rc = 0 \<longrightarrow> fa_hashed r op = [])"
    "case psa_hash_finish api h' 32 w3 of (rc, out, w') \<Rightarrow>
        fa_slot r w' = fa_slot r w3 \<and> (rc = 0 \<longrightarrow> out = fa_sha r (fa_hashed r h'))"
    "fa_slot r (snd (flash_area_open api w)) = fa_slot r w" "fa_slot r (flash_area_close api w4) = fa_slot r w4"
    using assms(1) by (simp_all add: slot_hash_ok_def)
  with st fi op z out have "fa_slot r w2 = fa_slot r w" "fa_hashed r h = []" "d = fa_sha r (fa_hashed r h')"
    "fa_slot r w' = fa_slot r w3" by auto
  with hash_slot_loop_input [OF assms(1), of sz 0 h w2 h' w3] lp h' show ?thesis by simp
qed

section \<open>A staged image is the one the manifest names\<close>

lemma net_frame_seen: "net_frame api (fw_view r) \<Longrightarrow> net_frame api (stage.seen r)"
  by (auto simp: net_frame_def fw_view_def stage.seen_def [abs_def])

lemma stage_image_cases:
  assumes "flash_img_ok api r" "sock_ok api (fa_unread r)" "net_frame api (fw_view r)"
    "unat sz + FW_BUF < 2 ^ 64" "64 \<le> length hex"
  obtains (failed) s' where "plat_stage_image api (Some hex) sz s = Some (-1, s')"
  | (staged) d c s1 q w' where "hex32 hex = Ok d"
      "stage.image_from_body r sz [] c (world s1)"
      "verify_slot_sha256 api sz d (world s1) = (q, w')"
      "plat_stage_image api (Some hex) sz s = Some (if q = 0 then 0 else -1, s1\<lparr>world := w'\<rparr>)"
proof (cases "sz = 0 \<or> (\<nexists>d. hex32 hex = Ok d) \<or> fst (flash_img_init api (world s)) \<noteq> 0")
  case True
  then have "\<exists>s'. plat_stage_image api (Some hex) sz s = Some (-1, s')"
    using hex32_safe [OF assms(5)]
    by (cases "hex32 hex") (auto simp: plat_stage_image_def split_beta)
  then show ?thesis using that(1) by blast
next
  case False
  then obtain d where d: "hex32 hex = Ok d" and z: "sz \<noteq> 0" by blast
  obtain c w where i: "flash_img_init api (world s) = (0, c, w)" using False by (metis prod.collapse)
  let ?s = "s\<lparr>world := w\<rparr>"
  have c: "fa_written r c (world ?s) = []" "\<not> fa_flushed r c (world ?s)"
    using flash_initD [OF assms(1) i] by simp_all
  obtain rc c' s1 where dl: "plat_net_firmware_download api sz (stage_sink api) c ?s = Some (rc, c', s1)"
    "rc = 0 \<longrightarrow> stage.image_from_body r sz [] c' (world s1)"
    using stage.download_delivers [OF assms(1,2) net_frame_seen [OF assms(3)] assms(4) _ c(2)] z c(1)
    by (metis word_neq_0_conv)
  obtain q w' where v: "verify_slot_sha256 api sz d (world s1) = (q, w')" by fastforce
  show ?thesis
  proof (cases "rc = 0")
    case True
    with dl v d z i that(2) [of d c' s1 q w'] show ?thesis by (simp add: plat_stage_image_def)
  next
    case False
    with dl d z i that(1) show ?thesis by (simp add: plat_stage_image_def)
  qed
qed

lemma stage_image_staged:
  assumes "flash_img_ok api r" "slot_hash_ok api r" "sock_ok api (fa_unread r)" "net_frame api (fw_view r)"
    and "unat sz + FW_BUF < 2 ^ 64" "64 \<le> length hex"
    and "plat_stage_image api (Some hex) sz s = Some (0, s')"
  shows "hex32 hex = Ok (fa_sha r (take (unat sz) (fa_slot r (world s'))))
    \<and> (\<exists>fd w hdr body. fa_unread r fd w = hdr @ body \<and> body_offset hdr = Some (length hdr)
        \<and> http_status (hdr @ body) \<in> {200, 206} \<and> unat sz \<le> length body
        \<and> take (unat sz) (fa_slot r (world s')) = take (unat sz) body)"
proof (cases rule: stage_image_cases [OF assms(1,3-6), of s, case_names failed staged])
  case (failed s1)
  with assms(7) show ?thesis by simp
next
  case (staged d c s1 q w')
  from staged(4) assms(7) have q: "q = 0" "world s' = w'" by (auto split: if_splits)
  have v: "fa_sha r (take (unat sz) (fa_slot r w')) = d" "fa_slot r w' = fa_slot r (world s1)"
    using verify_slot_sound [OF assms(2) staged(3) q(1)] by blast+
  from staged(2) obtain fd w hdr body where b: "fa_unread r fd w = hdr @ body" "body_offset hdr = Some (length hdr)"
    "http_status (hdr @ body) \<in> {200, 206}" "unat sz \<le> length body" "fa_flushed r c (world s1)"
    "fa_written r c (world s1) = take (unat sz) body"
    unfolding stage.image_from_body_def by auto
  have "take (length (fa_written r c (world s1))) (fa_slot r (world s1)) = fa_written r c (world s1)"
    using assms(1) b(5) by (simp add: flash_img_ok_def)
  then have "take (unat sz) (fa_slot r (world s')) = take (unat sz) body"
    using b(4,6) v(2) q(2) by simp
  with b v q(2) staged(1) show ?thesis by metis
qed

text \<open>
  C8. When staging reports success, the secondary slot holds exactly the first \<open>size\<close> bytes of the body of one HTTP response
  (status 200 or 206, headers ending at the first blank line), in order and complete, and the SHA-256 read back from the slot
  is the digest the manifest names.
\<close>

theorem stage_image_sound:
  assumes "flash_img_ok api r" "slot_hash_ok api r" "sock_ok api (fa_unread r)" "net_frame api (fw_view r)"
    and "unat sz + FW_BUF < 2 ^ 64" "64 \<le> length hex"
    and "plat_stage_image api (Some hex) sz s = Some (0, s')"
  shows "hex32 hex = Ok (fa_sha r (take (unat sz) (fa_slot r (world s'))))
    \<and> (\<exists>fd w hdr body. fa_unread r fd w = hdr @ body \<and> body_offset hdr = Some (length hdr)
        \<and> http_status (hdr @ body) \<in> {200, 206} \<and> unat sz \<le> length body
        \<and> take (unat sz) (fa_slot r (world s')) = take (unat sz) body)"
  by (rule stage_image_staged [OF assms])

section \<open>A simulated device\<close>

record sim_dev = sim +
  sim_slot :: "byte list"
  sim_confirmed :: bool
  sim_swap :: bool

definition sim_sha :: "byte list \<Rightarrow> byte list" where
  "sim_sha bs = replicate 32 (fold (+) bs 0)"

definition sim_boot_ext :: "'x \<Rightarrow> ('a sim_dev_scheme, byte list \<times> bool, byte list, 'x) boot_api_ext" where
  "sim_boot_ext ext = boot_api_ext
     (\<lambda>w. (sim_confirmed w, w))
     (\<lambda>w. (0, w\<lparr>sim_confirmed := True\<rparr>))
     (\<lambda>w. (0, w\<lparr>sim_swap := True\<rparr>))
     (\<lambda>w. (0, w))
     (\<lambda>off n w. (0, take n (drop off (sim_slot w)), w))
     (\<lambda>w. w)
     (\<lambda>w. (0, ([], False), w))
     (\<lambda>c d l w. (0, (fst c @ d, l), w\<lparr>sim_slot := fst c @ d\<rparr>))
     (\<lambda>w. (0, [], w))
     (\<lambda>op d w. (0, op @ d, w))
     (\<lambda>op n w. (0, sim_sha op, w))
     (\<lambda>op w. w) ext"


abbreviation sim_boot :: "'x \<Rightarrow> ('a sim_dev_scheme, byte list \<times> bool, byte list, 'x) boot_api_scheme" where
  "sim_boot ext \<equiv> sim_net (sim_boot_ext ext)"

lemma sim_boot_sel:
  "boot_is_img_confirmed (sim_boot ext) = (\<lambda>w. (sim_confirmed w, w))"
  "boot_write_img_confirmed (sim_boot ext) = (\<lambda>w. (0, w\<lparr>sim_confirmed := True\<rparr>))"
  "boot_request_upgrade_test (sim_boot ext) = (\<lambda>w. (0, w\<lparr>sim_swap := True\<rparr>))"
  "flash_area_open (sim_boot ext) = (\<lambda>w. (0, w))"
  "flash_area_read (sim_boot ext) = (\<lambda>off n w. (0, take n (drop off (sim_slot w)), w))"
  "flash_area_close (sim_boot ext) = (\<lambda>w. w)"
  "flash_img_init (sim_boot ext) = (\<lambda>w. (0, ([], False), w))"
  "flash_img_buffered_write (sim_boot ext) = (\<lambda>c d l w. (0, (fst c @ d, l), w\<lparr>sim_slot := fst c @ d\<rparr>))"
  "psa_hash_setup (sim_boot ext) = (\<lambda>w. (0, [], w))"
  "psa_hash_update (sim_boot ext) = (\<lambda>op d w. (0, op @ d, w))"
  "psa_hash_finish (sim_boot ext) = (\<lambda>op n w. (0, sim_sha op, w))"
  by (simp_all add: sim_net_def sim_boot_ext_def)

text \<open>The context holds what was accepted and whether it was flushed; a flushed context agrees with the slot it filled last.\<close>

definition sim_fw :: "('a sim_dev_scheme, byte list \<times> bool, byte list) fw_abs" where
  "sim_fw = \<lparr>fa_written = (\<lambda>c w. fst c), fa_flushed = (\<lambda>c w. snd c \<and> sim_slot w = fst c), fa_slot = sim_slot,
     fa_unread = (\<lambda>fd. sim_rx), fa_hashed = (\<lambda>op. op), fa_sha = sim_sha\<rparr>"

lemma sim_flash_img_ok: "flash_img_ok (sim_boot ext) sim_fw"
  by (auto simp: flash_img_ok_def sim_boot_sel sim_fw_def)

lemma sim_slot_hash_ok: "slot_hash_ok (sim_boot ext) sim_fw"
  by (auto simp: slot_hash_ok_def sim_boot_sel sim_fw_def)

lemma sim_boot_sock: "sock_ok (sim_boot ext) (fa_unread sim_fw)"
  using sim_net_sock by (simp add: sim_fw_def)

lemma sim_boot_frame: "net_frame (sim_boot ext) (fw_view sim_fw)"
  by (rule sim_net_frame) (simp_all add: fw_view_def sim_fw_def)

definition sample_dev :: "byte list list \<Rightarrow> sim_dev" where
  "sample_dev responses = \<lparr>sim_nvs = (\<lambda>_. None), sim_responses = responses, sim_rx = [], sim_creds = [],
     sim_slot = [], sim_confirmed = True, sim_swap = False\<rparr>"

lemma sim_header:
  assumes "sim_rx w = http_ok body" "length body \<le> 1517"
  shows "header_loop (sim_net ext) fd [] w = (Inr (http_ok body, 19), w\<lparr>sim_rx := []\<rparr>)"
proof -
  have "length (http_ok body) \<le> 1536" "http_ok body \<noteq> []"
    using assms(2) http_ok_parts(4) [of body] by auto
  then show ?thesis
    by (subst header_loop.simps) (simp add: sim_recv assms(1) FW_BUF_def http_ok_parts(2))
qed

lemma sim_download3:
  fixes s :: "('a sim_dev_scheme, 'y) net_state_scheme"
  assumes "cfg s = sample_prov" "sim_responses (world s) = http_ok [1, 2, 3, 4] # rs"
  shows "plat_net_firmware_download (sim_boot ext) 3 (stage_sink (sim_boot ext)) ([], False) s
    = Some (0, ([1, 2, 3], True), s\<lparr>world := (world s)\<lparr>sim_responses := rs, sim_rx := [], sim_slot := [1, 2, 3]\<rparr>\<rparr>)"
proof -
  have "length (get_request (str ''/device/firmware'') sample_prov) < 256" by code_simp
  moreover have "deliver_first (stage_sink (sim_boot ext)) 3 [1, 2, 3, 4] ([], False) w
      = (0, 3, ([1, 2, 3], True), w\<lparr>sim_slot := [1, 2, 3]\<rparr>)" for w :: "'a sim_dev_scheme"
    by (simp add: deliver_first_def fw_take_def stage_sink_def sim_boot_sel)
  moreover have "body_loop (sim_boot ext) fd (stage_sink (sim_boot ext)) 3 3 c w = Some (0, 3, c, w)" for fd c and w :: "'a sim_dev_scheme"
    by (simp add: body_loop.simps)
  ultimately show ?thesis
    using assms by (simp add: plat_net_firmware_download_def sim_calls sim_header http_ok_parts Let_def del: str_Cons)
qed

lemma sim_staged3:
  fixes s :: "('a sim_dev_scheme, 'y) net_state_scheme"
  assumes "cfg s = sample_prov" "sim_responses (world s) = http_ok [1, 2, 3, 4] # rs"
  shows "plat_stage_image (sim_boot ext) (Some (hex_text (sim_sha [1, 2, 3]) @ [0])) 3 s
    = Some (0, s\<lparr>world := (world s)\<lparr>sim_responses := rs, sim_rx := [], sim_slot := [1, 2, 3]\<rparr>\<rparr>)"
proof -
  have sha: "length (sim_sha [1, 2, 3]) = 32" by (simp add: sim_sha_def)
  have v: "verify_slot_sha256 (sim_boot ext) 3 (sim_sha [1, 2, 3]) (w\<lparr>sim_slot := [1, 2, 3]\<rparr>)
      = (0, w\<lparr>sim_slot := [1, 2, 3]\<rparr>)" for w :: "'a sim_dev_scheme"
  proof -
    have "hash_slot_loop (sim_boot ext) 3 0 [] x = (Some (take 3 (sim_slot x)), x)" for x :: "'a sim_dev_scheme"
      by (simp add: hash_slot_loop.simps [of _ 3] slot_chunk_def sim_boot_sel)
    then show ?thesis by (simp add: verify_slot_sha256_def sim_boot_sel sim_sha_def)
  qed
  show ?thesis
    using v [of "(world s)\<lparr>sim_responses := rs, sim_rx := []\<rparr>"]
    by (simp add: plat_stage_image_def hex32_text [OF sha] sim_boot_sel(7) sim_download3 [OF assms] Let_def)
qed

lemma sample_staged:
  "plat_stage_image (sim_boot ext) (Some (hex_text (sim_sha [1, 2, 3]) @ [0])) 3 (sim_start (sample_dev [http_ok [1, 2, 3, 4]]))
     = Some (0, sim_start ((sample_dev [])\<lparr>sim_slot := [1, 2, 3]\<rparr>))"
  by (subst sim_staged3 [of _ "[]"]) (simp_all add: sim_start_def sample_dev_def)

theorem stage_image_sound_witness:
  "\<exists>fd w hdr body. fa_unread sim_fw fd (w :: sim_dev) = hdr @ body \<and> body_offset hdr = Some (length hdr)
     \<and> http_status (hdr @ body) \<in> {200, 206} \<and> unat (3 :: u64) \<le> length body \<and> [1, 2, 3] = take (unat (3 :: u64)) body"
proof -
  have "64 \<le> length (hex_text (sim_sha [1, 2, 3]) @ [0 :: byte])" by (simp add: sim_sha_def)
  moreover have "unat (3 :: u64) + FW_BUF < 2 ^ 64" by (simp add: FW_BUF_def)
  moreover have "take (unat (3 :: u64)) (fa_slot sim_fw (world (sim_start ((sample_dev [])\<lparr>sim_slot := [1, 2, 3]\<rparr>)))) = [1, 2, 3]"
    by (simp add: sim_fw_def sim_start_def)
  ultimately show ?thesis
    using stage_image_sound [OF sim_flash_img_ok sim_slot_hash_ok sim_boot_sock sim_boot_frame _ _ sample_staged]
    by metis
qed

section \<open>Staging leaves the records alone; committing records the counter first\<close>

definition boot_frame :: "('w, 'c, 'h, 'x) boot_api_scheme \<Rightarrow> ('w \<Rightarrow> 'f) \<Rightarrow> bool" where
  "boot_frame api f \<longleftrightarrow>
     (\<forall>w. f (snd (boot_is_img_confirmed api w)) = f w)
     \<and> (\<forall>w. f (snd (boot_write_img_confirmed api w)) = f w)
     \<and> (\<forall>w. f (snd (boot_request_upgrade_test api w)) = f w)
     \<and> (\<forall>w. f (snd (flash_area_open api w)) = f w)
     \<and> (\<forall>off n w. f (snd (snd (flash_area_read api off n w))) = f w)
     \<and> (\<forall>w. f (flash_area_close api w) = f w)
     \<and> (\<forall>w. f (snd (snd (flash_img_init api w))) = f w)
     \<and> (\<forall>c d l w. f (snd (snd (flash_img_buffered_write api c d l w))) = f w)
     \<and> (\<forall>w. f (snd (snd (psa_hash_setup api w))) = f w)
     \<and> (\<forall>op d w. f (snd (snd (psa_hash_update api op d w))) = f w)
     \<and> (\<forall>op n w. f (snd (snd (psa_hash_finish api op n w))) = f w)
     \<and> (\<forall>op w. f (psa_hash_abort api op w) = f w)"

lemma boot_frameD:
  assumes "boot_frame api f"
  shows "boot_is_img_confirmed api w = (b, w') \<Longrightarrow> f w' = f w"
    "boot_write_img_confirmed api w = (rc, w') \<Longrightarrow> f w' = f w"
    "boot_request_upgrade_test api w = (rc, w') \<Longrightarrow> f w' = f w"
    "flash_area_open api w = (rc, w') \<Longrightarrow> f w' = f w"
    "flash_area_read api off n w = (rc, rb, w') \<Longrightarrow> f w' = f w"
    "f (flash_area_close api w) = f w"
    "flash_img_init api w = (rc, c, w') \<Longrightarrow> f w' = f w"
    "psa_hash_setup api w = (rc, op, w') \<Longrightarrow> f w' = f w"
    "psa_hash_update api op d w = (rc, op', w') \<Longrightarrow> f w' = f w"
    "psa_hash_finish api op n w = (rc, rb, w') \<Longrightarrow> f w' = f w"
    "f (psa_hash_abort api op w) = f w"
  using assms unfolding boot_frame_def by (metis snd_conv)+

lemma hash_slot_loop_frame:
  "boot_frame api f \<Longrightarrow> hash_slot_loop api sz off op w = (r, w') \<Longrightarrow> f w' = f w"
proof (induction api sz off op w rule: hash_slot_loop.induct)
  case (1 api sz off op w)
  define n where "n = slot_chunk sz off"
  obtain q rb w1 where rd: "flash_area_read api (unat off) (unat n) w = (q, rb, w1)" by (metis prod.collapse)
  obtain q2 op2 w2 where up: "psa_hash_update api op rb w1 = (q2, op2, w2)" by (metis prod.collapse)
  note fr = boot_frameD [OF "1.prems"(1)]
  have eq: "f w1 = f w" "f w2 = f w" using fr(5) [OF rd] fr(9) [OF up] by simp_all
  show ?case
  proof (cases "off < sz \<and> q = 0 \<and> q2 = 0")
    case True
    then have "hash_slot_loop api sz (off + n) op2 w2 = (r, w')"
      using "1.prems"(2) rd up by (subst (asm) hash_slot_loop.simps) (simp add: n_def [symmetric])
    then show ?thesis
      using "1.IH" [OF _ n_def refl _ _ _ refl _ _ _ "1.prems"(1)] True eq rd up by simp
  next
    case False
    with "1.prems"(2) rd up eq fr(11) show ?thesis
      by (subst (asm) hash_slot_loop.simps) (auto simp: n_def [symmetric] split: if_splits)
  qed
qed

lemma verify_slot_frame:
  assumes f: "boot_frame api f" and "verify_slot_sha256 api sz d w = (rc, w')"
  shows "f w' = f w"
proof -
  note fr = boot_frameD [OF f]
  obtain q1 w1 where op: "flash_area_open api w = (q1, w1)" by fastforce
  obtain q2 h w2 where st: "psa_hash_setup api w1 = (q2, h, w2)" by (metis prod.collapse)
  obtain ho w3 where lp: "hash_slot_loop api sz 0 h w2 = (ho, w3)" by fastforce
  have eq: "f w1 = f w" "f w2 = f w" "f w3 = f w"
    using fr(4) [OF op] fr(8) [OF st] hash_slot_loop_frame [OF f lp] by simp_all
  show ?thesis
  proof (cases ho)
    case None
    with assms(2) eq fr(6) show ?thesis by (auto simp: verify_slot_sha256_def op st lp split: if_splits)
  next
    case (Some h')
    obtain q3 out w4 where fi: "psa_hash_finish api h' 32 w3 = (q3, out, w4)" by (metis prod.collapse)
    with assms(2) eq fr(6) fr(10) [OF fi] Some show ?thesis
      by (auto simp: verify_slot_sha256_def op st lp fi split: if_splits)
  qed
qed

lemma stage_image_frame:
  assumes n: "net_frame api f" and b: "boot_frame api f" and "plat_stage_image api hex sz s = Some (rc, s')"
  shows "only_world f s s'"
proof (cases "\<exists>x d. sz \<noteq> 0 \<and> hex = Some x \<and> hex32 x = Ok d")
  case False
  with assms(3) show ?thesis by (auto simp: plat_stage_image_def split: if_splits option.splits cres.splits)
next
  case True
  then obtain x d where x: "sz \<noteq> 0" "hex = Some x" "hex32 x = Ok d" by blast
  obtain q c w where i: "flash_img_init api (world s) = (q, c, w)" by (metis prod.collapse)
  let ?s = "s\<lparr>world := w\<rparr>"
  have w: "only_world f s ?s" using boot_frameD(7) [OF b i] by blast
  have sk: "\<forall>d l c w. f (snd (snd (stage_sink api d l c w))) = f w"
    using b by (simp add: boot_frame_def stage_sink_def)
  show ?thesis
  proof (cases "q = 0")
    case False
    with assms(3) x w show ?thesis by (auto simp: plat_stage_image_def i)
  next
    case True
    with assms(3) x obtain rc1 c1 s1 where dl: "plat_net_firmware_download api sz (stage_sink api) c ?s = Some (rc1, c1, s1)"
      by (auto simp: plat_stage_image_def i bind_eq_Some_conv)
    have k: "only_world f s s1" using only_world_trans [OF w download_frame [OF n sk dl]] .
    obtain v w2 where v: "verify_slot_sha256 api sz d (world s1) = (v, w2)" by fastforce
    have "only_world f s (s1\<lparr>world := w2\<rparr>)"
      using only_world_trans [OF k only_worldI [OF verify_slot_frame [OF b v]]] .
    with k assms(3) x True dl v show ?thesis by (auto simp: plat_stage_image_def i Let_def split: if_splits)
  qed
qed


text \<open>
  Staging always comes back: for a digest text of at least 64 bytes and every size a flash can hold (up to \<open>2^64 - 1537\<close>),
  \<open>plat_stage_image\<close> returns 0 or -1, whatever the server sends; and it never touches an NVS record.
\<close>

lemma stage_image_returns:
  assumes "flash_img_ok api r" "sock_ok api (fa_unread r)" "net_frame api (fw_view r)"
    and "net_frame api recs" "boot_frame api recs"
    and "unat sz + FW_BUF < 2 ^ 64" "64 \<le> length hex"
  shows "\<exists>rc s'. plat_stage_image api (Some hex) sz s = Some (rc, s') \<and> (rc = 0 \<or> rc = -1)
    \<and> recs (world s') = recs (world s)"
proof -
  have "\<exists>rc s'. plat_stage_image api (Some hex) sz s = Some (rc, s') \<and> (rc = 0 \<or> rc = -1)"
    by (cases rule: stage_image_cases [OF assms(1,2,3,6,7), of s, case_names failed staged]) auto
  then show ?thesis using stage_image_frame [OF assms(4,5)] by (fastforce simp: only_world_def)
qed

lemma sim_boot_nvs: "net_frame (sim_boot ext) sim_nvs" "boot_frame (sim_boot ext) sim_nvs"
  by (rule sim_net_frame, simp_all add: boot_frame_def sim_net_def sim_boot_ext_def)

lemma stage_image_returns_witness:
  "\<exists>rc s'. plat_stage_image (sim_boot ()) (Some (replicate 65 0)) 5 (sim_start (sample_dev [])) = Some (rc, s')
     \<and> (rc = 0 \<or> rc = -1) \<and> sim_nvs (world s') = sim_nvs (world (sim_start (sample_dev [])))"
  by (rule stage_image_returns [OF sim_flash_img_ok sim_boot_sock sim_boot_frame sim_boot_nvs]) (simp_all add: FW_BUF_def)

text \<open>
  The commit order: the device reboots into the new image only after its counter is stored as pending and the revertable swap is
  requested; the applied and failed counters keep their values whether or not the commit succeeds.
\<close>

lemma commit_effect:
  assumes "store_good api recs s" and "boot_frame api recs" and "plat_commit_and_reboot api c s = (r, s')"
  shows "store_good api recs s'
    \<and> counter_of (records recs s') COUNTER_NVS_ID = counter_of (records recs s) COUNTER_NVS_ID
    \<and> counter_of (records recs s') FAILED_NVS_ID = counter_of (records recs s) FAILED_NVS_ID
    \<and> (r = None \<longrightarrow> counter_of (records recs s') PENDING_NVS_ID = c
        \<and> (\<exists>w. boot_request_upgrade_test api w = (0, world s')))
    \<and> (r \<noteq> None \<longrightarrow> counter_of (records recs s') PENDING_NVS_ID \<in> {counter_of (records recs s) PENDING_NVS_ID, c})"
proof -
  obtain q s1 where p: "plat_store_write api PENDING_NVS_ID (u64_bytes c) s = (q, s1)" by fastforce
  note g = store_write_good [OF assms(1) p]
  obtain q2 w where u: "boot_request_upgrade_test api (world s1) = (q2, w)" by fastforce
  have w: "records recs (s1\<lparr>world := w\<rparr>) = records recs s1"
    using boot_frameD(3) [OF assms(2) u] by (simp add: records_def)
  have s': "s' = (if q = 0 then s1\<lparr>world := w\<rparr> else s1)" "r = (if q = 0 \<and> q2 = 0 then None else Some (-1))"
    using assms(3) p u by (auto simp: plat_commit_and_reboot_def plat_store_pending_def Let_def split: if_splits)
  have recs: "records recs s' = records recs s1" by (simp add: s' w)
  have other: "counter_of (records recs s1) rid = counter_of (records recs s) rid" if "rid \<noteq> PENDING_NVS_ID" for rid
    using g(3) that by auto
  have "counter_of (records recs s1) PENDING_NVS_ID \<in> {counter_of (records recs s) PENDING_NVS_ID, c}" using g(3) by auto
  moreover have "q = 0 \<Longrightarrow> counter_of (records recs s1) PENDING_NVS_ID = c" using g(2) by simp
  moreover have "store_good api recs s'" using g(1) by (simp add: s' store_good_world)
  moreover have "r = None \<Longrightarrow> boot_request_upgrade_test api (world s1) = (0, world s')"
    using u by (auto simp: s' split: if_splits)
  ultimately show ?thesis using other by (auto simp: recs counter_ids s'(2) split: if_splits)
qed

lemma sim_start_good: "store_good (sim_net ext) sim_nvs (sim_start w)"
  by (simp add: store_good_def sim_net_nvs sim_start_def)

end
