(* ===== verification/Enroll.thy ===== *)
theory Enroll
  imports Plat_Mcuboot
begin

text \<open>
  First-boot enrollment, \<^verbatim>\<open>lib/provision/enroll.c\<close>: the on-chip key and its signing request, the claim over
  server-authenticated TLS, the manifest key over mutual TLS. PSA key management, the mbedTLS key context \<open>'k\<close> and request
  writer \<open>'q\<close>, and the hardware id are parameters. Of the static buffers only \<open>resp\<close> carries bytes from one request to
  the next, so it is part of the state. \<open>Oob\<close> marks the call that hands out a length beyond the buffer it describes.
\<close>

section \<open>The external calls and the static buffer\<close>

datatype psa_ecc_family = PSA_ECC_FAMILY_SECP_R1
datatype psa_key_usage = PSA_KEY_USAGE_SIGN_HASH | PSA_KEY_USAGE_EXPORT
datatype psa_algorithm = PSA_ALG_ECDSA_SHA_256

record psa_key_attributes =
  ecc_key_pair :: psa_ecc_family
  key_bits :: nat
  key_usage_flags :: "psa_key_usage list"
  key_algorithm :: psa_algorithm

text \<open>A hardware id is \<open>None\<close> for a negative result; the driver copies no more than asked for.\<close>

record ('w, 'c, 'h, 'k, 'q) dev_api = "('w, 'c, 'h) boot_api" +
  hwinfo_get_device_id :: "nat \<Rightarrow> 'w \<Rightarrow> byte list option \<times> 'w"
  psa_crypto_init :: "'w \<Rightarrow> int \<times> 'w"
  psa_generate_key :: "psa_key_attributes \<Rightarrow> 'w \<Rightarrow> int \<times> u32 \<times> 'w"
  psa_destroy_key :: "u32 \<Rightarrow> 'w \<Rightarrow> 'w"
  mbedtls_pk_init :: 'k
  mbedtls_pk_copy_from_psa :: "u32 \<Rightarrow> 'k \<Rightarrow> 'w \<Rightarrow> int \<times> 'k \<times> 'w"
  mbedtls_pk_write_key_pem :: "'k \<Rightarrow> nat \<Rightarrow> 'w \<Rightarrow> int \<times> byte list \<times> 'w"
  mbedtls_pk_free :: "'k \<Rightarrow> 'w \<Rightarrow> 'w"
  mbedtls_x509write_csr_init :: 'q
  mbedtls_x509write_csr_set_md_alg_sha256 :: "'q \<Rightarrow> 'q"
  mbedtls_x509write_csr_set_subject_name :: "'q \<Rightarrow> byte list \<Rightarrow> 'w \<Rightarrow> int \<times> 'q \<times> 'w"
  mbedtls_x509write_csr_set_key :: "'q \<Rightarrow> 'k \<Rightarrow> 'q"
  mbedtls_x509write_csr_pem :: "'q \<Rightarrow> nat \<Rightarrow> 'w \<Rightarrow> int \<times> byte list \<times> 'w"
  mbedtls_x509write_csr_free :: "'q \<Rightarrow> 'w \<Rightarrow> 'w"

record 'w enroll_state = "'w net_state" +
  resp_buf :: "byte list"

definition CLAIM_CA_TAG :: u32 where "CLAIM_CA_TAG = 0x20"
definition MTLS_TAG :: u32 where "MTLS_TAG = 0x21"

section \<open>The device id, the key and the signing request\<close>

fun hex_loop :: "nat \<Rightarrow> byte list \<Rightarrow> byte list \<Rightarrow> byte list" where
  "hex_loop cap [] out = out"
| "hex_loop cap (b # bs) out = (if length out + 3 \<le> cap then hex_loop cap bs (out @ hex_byte b) else out)"

definition hwid :: "('w, 'c, 'h, 'k, 'q, 'x) dev_api_scheme \<Rightarrow> nat \<Rightarrow> 'w \<Rightarrow> byte list \<times> 'w" where
  "hwid api cap w = (case hwinfo_get_device_id api cap w of (None, w) \<Rightarrow> ([], w) | (Some bs, w) \<Rightarrow> (take cap bs, w))"

definition device_id :: "('w, 'c, 'h, 'k, 'q, 'x) dev_api_scheme \<Rightarrow> nat \<Rightarrow> 'w \<Rightarrow> byte list \<times> 'w" where
  "device_id api cap w =
     (let (bs, w) = hwid api 8 w in (hex_loop cap bs (take (cap - 1) (str ''esp32-'')), w))"

definition csr_key_attributes :: psa_key_attributes where
  "csr_key_attributes = \<lparr>ecc_key_pair = PSA_ECC_FAMILY_SECP_R1, key_bits = 256,
     key_usage_flags = [PSA_KEY_USAGE_SIGN_HASH, PSA_KEY_USAGE_EXPORT], key_algorithm = PSA_ALG_ECDSA_SHA_256\<rparr>"

text \<open>The work before the label \<open>out\<close>: the request and the key, or none; with what the label releases.\<close>

definition gen_key_work ::
  "('w, 'c, 'h, 'k, 'q, 'x) dev_api_scheme \<Rightarrow> byte list \<Rightarrow> nat \<Rightarrow> nat \<Rightarrow> 'w
     \<Rightarrow> (byte list \<times> byte list) option \<times> u32 \<times> 'k \<times> 'q \<times> 'w" where
  "gen_key_work api cn csr_cap key_cap w =
     (let key = mbedtls_pk_init api; req = mbedtls_x509write_csr_init api; (rc, w) = psa_crypto_init api w in
      if rc \<noteq> 0 then (None, 0, key, req, w)
      else let (rc, kid, w) = psa_generate_key api csr_key_attributes w in
      if rc \<noteq> 0 then (None, kid, key, req, w)
      else let (rc, key, w) = mbedtls_pk_copy_from_psa api kid key w in
      if rc \<noteq> 0 then (None, kid, key, req, w)
      else let req = mbedtls_x509write_csr_set_md_alg_sha256 api req;
               subj = take 95 (str ''CN='' @ cn);
               (rc, req, w) = mbedtls_x509write_csr_set_subject_name api req subj w in
      if rc \<noteq> 0 then (None, kid, key, req, w)
      else let req = mbedtls_x509write_csr_set_key api req key;
               (rc, csr_pem, w) = mbedtls_x509write_csr_pem api req csr_cap w in
      if rc \<noteq> 0 then (None, kid, key, req, w)
      else let (rc, key_pem, w) = mbedtls_pk_write_key_pem api key key_cap w in
      if rc \<noteq> 0 then (None, kid, key, req, w)
      else (Some (cstr csr_pem, cstr key_pem), kid, key, req, w))"

definition gen_key_csr ::
  "('w, 'c, 'h, 'k, 'q, 'x) dev_api_scheme \<Rightarrow> byte list \<Rightarrow> nat \<Rightarrow> nat \<Rightarrow> 'w
     \<Rightarrow> (byte list \<times> byte list) option \<times> 'w" where
  "gen_key_csr api cn csr_cap key_cap w =
     (let (r, kid, key, req, w) = gen_key_work api cn csr_cap key_cap w;
          w = (if kid \<noteq> 0 then psa_destroy_key api kid w else w);
          w = mbedtls_x509write_csr_free api req w;
          w = mbedtls_pk_free api key w
      in (r, w))"

section \<open>HTTPS with retries\<close>

function https_recv_loop ::
  "('w, 'x) net_api_scheme \<Rightarrow> int \<Rightarrow> nat \<Rightarrow> byte list \<Rightarrow> 'w \<Rightarrow> byte list \<times> 'w" where
  "https_recv_loop api fd resp_cap acc w =
     (case recv api fd (resp_cap - 1 - length acc) w of
        (None, w) \<Rightarrow> (acc, w)
      | (Some bs, w) \<Rightarrow>
          if bs = [] then (acc, w)
          else let acc = acc @ bs in
               if length acc \<ge> resp_cap - 1 then (acc, w) else https_recv_loop api fd resp_cap acc w)"
  by pat_completeness auto
termination
  by (relation "measure (\<lambda>(api, fd, cap, acc, w). cap - 1 - length acc)") (auto intro!: diff_less_mono2)

declare https_recv_loop.simps [simp del]

text \<open>The result is the returned value and the contents of \<open>resp\<close>.\<close>

definition https ::
  "('w, 'x) net_api_scheme \<Rightarrow> u32 \<Rightarrow> byte list \<Rightarrow> byte list \<Rightarrow> u16 \<Rightarrow> byte list \<Rightarrow> byte list \<Rightarrow> 'w
     \<Rightarrow> (int \<times> byte list) \<times> 'w" where
  "https api tag host ip port request resp w =
     (let (fd, w) = zsock_socket api True w in
      if fd < 0 then ((-1, resp), w)
      else let w = zsock_setsockopt api fd (TLS_SEC_TAG_LIST [tag]) w;
               w = zsock_setsockopt api fd (TLS_HOSTNAME host) w;
               w = zsock_setsockopt api fd TLS_PEER_VERIFY_REQUIRED w;
               w = zsock_setsockopt api fd (SO_RCVTIMEO 20) w;
               (rc, w) = zsock_connect api fd (zsock_inet_pton api ip) port w
           in if rc < 0 then ((-2, resp), zsock_close api fd w)
      else let (sent, w) = send_loop api fd request w in
      if \<not> sent then ((-3, resp), zsock_close api fd w)
      else let (bs, w) = https_recv_loop api fd (length resp) [] w;
               w = zsock_close api fd w
           in ((int (length bs), bs @ [0] @ drop (length bs + 1) resp), w))"

fun https_retry_loop ::
  "('w, 'x) net_api_scheme \<Rightarrow> u32 \<Rightarrow> byte list \<Rightarrow> byte list \<Rightarrow> u16 \<Rightarrow> byte list \<Rightarrow> nat \<Rightarrow> int
     \<Rightarrow> ('w, 'y) enroll_state_scheme \<Rightarrow> int \<times> ('w, 'y) enroll_state_scheme" where
  "https_retry_loop api tag host ip port request 0 n s = (n, s)"
| "https_retry_loop api tag host ip port request (Suc attempts) n s =
     (let ((n, resp), w) = https api tag host ip port request (resp_buf s) (world s);
          s = s\<lparr>resp_buf := resp, world := w\<rparr>
      in if n \<ge> 0 then (n, s)
         else https_retry_loop api tag host ip port request attempts n (sleep_ms api 1000 s))"

definition https_retry ::
  "('w, 'x) net_api_scheme \<Rightarrow> u32 \<Rightarrow> byte list \<Rightarrow> byte list \<Rightarrow> u16 \<Rightarrow> byte list
     \<Rightarrow> ('w, 'y) enroll_state_scheme \<Rightarrow> int \<times> ('w, 'y) enroll_state_scheme" where
  "https_retry api tag host ip port request s = https_retry_loop api tag host ip port request 20 (-1) s"

text \<open>
  \<open>atoi\<close> on the values that fit an \<open>int\<close>; beyond them C leaves the result open, and no such number is a status the
  code compares with.
\<close>

definition atoi :: "byte list \<Rightarrow> int" where
  "atoi s =
     (let s = dropWhile (\<lambda>c. c = 32 \<or> 9 \<le> c \<and> c \<le> 13) s;
          neg = (deref s = ch CHR ''-'');
          s = (if neg \<or> deref s = ch CHR ''+'' then tl s else s);
          v = foldl (\<lambda>v c. v * 10 + (int (unat c) - 48)) 0 (takeWhile (\<lambda>c. in_range c CHR ''0'' CHR ''9'') s)
      in if neg then - v else v)"

text \<open>The argument is the whole buffer, since \<open>resp + 9\<close> may lie behind the NUL of a short response.\<close>

definition http_body :: "byte list \<Rightarrow> int \<times> byte list option" where
  "http_body resp =
     (if take 7 resp = str ''HTTP/1.'' then atoi (cstr (drop 9 resp)) else 0,
      case strstr (cstr resp) CRLF2 of None \<Rightarrow> None | Some b \<Rightarrow> Some (drop 4 b))"

definition field_of :: "byte list \<Rightarrow> byte list \<Rightarrow> nat \<Rightarrow> byte list option" where
  "field_of b field cap =
     (case json_extract_string (Some b) (Some field) True cap of None \<Rightarrow> None | Some v \<Rightarrow> if v = [] then None else Some v)"

section \<open>Enrollment\<close>

definition claim_post :: "meshanics_provisioning \<Rightarrow> byte list \<Rightarrow> byte list" where
  "claim_post prov body =
     str ''POST /api/v1/provision/claim HTTP/1.1'' @ [13, 10] @ str ''Host: '' @ claim_host prov @ [13, 10]
     @ str ''Content-Type: application/json'' @ [13, 10] @ str ''Content-Length: '' @ dec (length body) @ [13, 10]
     @ str ''Connection: close'' @ CRLF2 @ body"

text \<open>The claim hop: the certificate and the private key.\<close>

definition enroll_claim ::
  "('w, 'c, 'h, 'k, 'q, 'x) dev_api_scheme \<Rightarrow> meshanics_provisioning \<Rightarrow> ('w, 'y) enroll_state_scheme
     \<Rightarrow> (byte list \<times> byte list) option \<times> ('w, 'y) enroll_state_scheme" where
  "enroll_claim api prov s =
     (let (did, w) = device_id api 40 (world s);
          (kc, w) = gen_key_csr api did 1024 KEY_CAP w;
          s = s\<lparr>world := w\<rparr>
      in case kc of None \<Rightarrow> (None, s) | Some (csr, key) \<Rightarrow>
      let (rc, w) = tls_credential_add api CLAIM_CA_TAG TLS_CREDENTIAL_CA_CERTIFICATE (claim_ca prov @ [0]) (world s);
          s = s\<lparr>world := w\<rparr>
      in if rc \<noteq> 0 then (None, s)
      else case claim_build_request (Some (claim_token prov)) (Some did) (Some csr) True 1024 of
        None \<Rightarrow> (None, s)
      | Some body \<Rightarrow>
          let req = claim_post prov body in
          if length req \<ge> 2048 then (None, s)
          else let (n, s) = https_retry api CLAIM_CA_TAG (claim_host prov) (claim_ip prov) (claim_port prov) req s in
          if n > 0 \<and> fst (http_body (resp_buf s)) = 201
          then case snd (http_body (resp_buf s)) of
                 None \<Rightarrow> (None, s)
               | Some b \<Rightarrow> (case field_of b (str ''device_cert_pem'') CERT_CAP of
                   None \<Rightarrow> (None, s) | Some cert \<Rightarrow> (Some (cert, key), s))
          else (None, s))"

definition key_get :: "meshanics_provisioning \<Rightarrow> byte list" where
  "key_get prov = str ''GET /device/manifest-key HTTP/1.1'' @ [13, 10] @ str ''Host: '' @ server_host prov @ [13, 10]
     @ str ''Connection: close'' @ CRLF2"

text \<open>The three credentials of the mutual-TLS hop, stopping at the first that is refused.\<close>

definition add_mtls ::
  "('w, 'x) net_api_scheme \<Rightarrow> meshanics_provisioning \<Rightarrow> byte list \<Rightarrow> byte list \<Rightarrow> 'w \<Rightarrow> int \<times> 'w" where
  "add_mtls api prov cert key w =
     (let (rc, w) = tls_credential_add api MTLS_TAG TLS_CREDENTIAL_CA_CERTIFICATE (server_ca prov @ [0]) w in
      if rc \<noteq> 0 then (rc, w)
      else let (rc, w) = tls_credential_add api MTLS_TAG TLS_CREDENTIAL_PUBLIC_CERTIFICATE (cert @ [0]) w in
      if rc \<noteq> 0 then (rc, w)
      else tls_credential_add api MTLS_TAG TLS_CREDENTIAL_PRIVATE_KEY (key @ [0]) w)"

text \<open>The manifest-key hop: the key id and the pinned public key. The length of this request is not checked by the source.\<close>

definition enroll_manifest_key ::
  "('w, 'x) net_api_scheme \<Rightarrow> meshanics_provisioning \<Rightarrow> byte list \<Rightarrow> byte list \<Rightarrow> ('w, 'y) enroll_state_scheme
     \<Rightarrow> (unit, byte list \<times> byte list) cres \<times> ('w, 'y) enroll_state_scheme" where
  "enroll_manifest_key api prov cert key s =
     (let (rc, w) = add_mtls api prov cert key (world s);
          s = s\<lparr>world := w\<rparr>
      in if rc \<noteq> 0 then (Fail (), s)
      else let req = key_get prov in
      if length req \<ge> 2048 then (Oob, s)
      else let (n, s) = https_retry api MTLS_TAG (server_host prov) (server_ip prov) (artifact_port prov) req s in
      if n > 0 \<and> fst (http_body (resp_buf s)) = 200
      then case snd (http_body (resp_buf s)) of
             None \<Rightarrow> (Fail (), s)
           | Some b \<Rightarrow>
               (case field_of b (str ''key_id'') KEYID_CAP of None \<Rightarrow> (Fail (), s) | Some kid \<Rightarrow>
                case field_of b (str ''public_key_pem'') 256 of None \<Rightarrow> (Fail (), s) | Some pem \<Rightarrow>
                case claim_ed25519_pub_from_pem (Some pem) True of None \<Rightarrow> (Fail (), s) | Some pub \<Rightarrow>
                (Ok (kid, pub), s))
      else (Fail (), s))"

text \<open>Dropping the credentials of the enrollment; their results are ignored.\<close>

definition drop_creds :: "('w, 'x) net_api_scheme \<Rightarrow> 'w \<Rightarrow> 'w" where
  "drop_creds api w =
     (let (_, w) = tls_credential_delete api CLAIM_CA_TAG TLS_CREDENTIAL_CA_CERTIFICATE w;
          (_, w) = tls_credential_delete api MTLS_TAG TLS_CREDENTIAL_CA_CERTIFICATE w;
          (_, w) = tls_credential_delete api MTLS_TAG TLS_CREDENTIAL_PUBLIC_CERTIFICATE w;
          (_, w) = tls_credential_delete api MTLS_TAG TLS_CREDENTIAL_PRIVATE_KEY w
      in w)"

text \<open>\<open>Ok i\<close> is success with \<open>i\<close> in the caller's struct; what a failure leaves there is not modelled, the agent never reads it.\<close>

definition meshanics_enroll ::
  "('w, 'c, 'h, 'k, 'q, 'x) dev_api_scheme \<Rightarrow> meshanics_provisioning option \<Rightarrow> bool \<Rightarrow> ('w, 'y) enroll_state_scheme
     \<Rightarrow> (unit, meshanics_identity) cres \<times> ('w, 'y) enroll_state_scheme" where
  "meshanics_enroll api prov out_nonnull s =
     (case prov of None \<Rightarrow> (Fail (), s) | Some prov \<Rightarrow>
      if \<not> out_nonnull then (Fail (), s)
      else let (claimed, s) = enroll_claim api prov s in
      case claimed of None \<Rightarrow> (Fail (), s) | Some (cert, key) \<Rightarrow>
      let (r, s) = enroll_manifest_key api prov cert key s in
      case r of Oob \<Rightarrow> (Oob, s) | Fail _ \<Rightarrow> (Fail (), s) | Ok (kid, pub) \<Rightarrow>
        (Ok \<lparr>device_cert_pem = cert, device_key_pem = key, manifest_pub = pub, key_id = kid\<rparr>,
         s\<lparr>world := drop_creds api (world s)\<rparr>))"

section \<open>What a field and a response can be\<close>

lemma extract_loop_bounds:
  "extract_loop cap v out = Some r \<Longrightarrow> length out < cap \<Longrightarrow> 0 \<notin> set v \<Longrightarrow> 0 \<notin> set out
   \<Longrightarrow> length r < cap \<and> 0 \<notin> set r"
proof (induction cap v out rule: extract_loop.induct)
  case (3 cap v v' vs out)
  have "unesc_char v' \<noteq> 0" using 3(5) by (auto simp: unesc_char_def)
  with 3 show ?case by (auto split: if_splits)
qed (auto split: if_splits)

lemma skip_ws_set: "set (skip_ws q) \<subseteq> set q"
  by (auto simp: skip_ws_def dest: set_dropWhileD)

lemma set_tl_subset: "set (tl q) \<subseteq> set q"
  by (cases q) auto

lemma strchr_set: "strchr s c = Some p \<Longrightarrow> set p \<subseteq> set s"
  by (cases "dropWhile (\<lambda>x. x \<noteq> c) s") (auto simp: strchr_def intro: set_dropWhileD [of _ "\<lambda>x. x \<noteq> c" s])

lemma find_value_set: "find_value_start json f = Some v \<Longrightarrow> set v \<subseteq> set json"
proof (induction json f rule: find_value_start.induct)
  case (1 json f)
  from "1.prems" obtain p where p: "strchr json 34 = Some p"
    by (subst (asm) find_value_start.simps) (auto split: option.splits)
  define q where "q = skip_ws (drop (Suc (length f)) (tl p))"
  have sub: "set (tl p) \<subseteq> set json" using strchr_set [OF p] set_tl_subset by fast
  have q: "set q \<subseteq> set json" using skip_ws_set sub set_drop_subset unfolding q_def by fast
  have "set (tl (skip_ws (tl q))) \<subseteq> set json"
    using set_tl_subset skip_ws_set q by fast
  with "1.prems" "1.IH" [OF p] sub show ?case
    by (subst (asm) find_value_start.simps) (auto simp: p q_def [symmetric] Let_def split: if_splits)
qed

lemma field_of_bounds:
  assumes "field_of b f cap = Some v" "0 \<notin> set b"
  shows "v \<noteq> [] \<and> length v < cap \<and> 0 \<notin> set v"
proof -
  from assms(1) obtain p where p: "find_value_start b f = Some p" "extract_loop cap p [] = Some v" "v \<noteq> []" "cap \<noteq> 0"
    by (auto simp: field_of_def json_extract_string_def split: option.splits if_splits)
  with extract_loop_bounds [OF p(2)] find_value_set [OF p(1)] assms(2) show ?thesis by auto
qed

lemma cstr_no_nul: "0 \<notin> set (cstr bs)"
  by (auto simp: cstr_def dest: set_takeWhileD)

lemma strstr_set: "strstr s n = Some p \<Longrightarrow> set p \<subseteq> set s"
  by (induction s) (auto split: if_splits)

lemma http_body_no_nul: "http_body resp = (st, Some b) \<Longrightarrow> 0 \<notin> set b"
  using strstr_set [of "cstr resp" CRLF2] cstr_no_nul [of resp]
  by (auto simp: http_body_def split: option.splits dest!: in_set_dropD)

lemma https_recv_bound:
  "https_recv_loop api fd cap acc w = (bs, w') \<Longrightarrow> length acc \<le> cap - 1 \<Longrightarrow> length bs \<le> cap - 1"
proof (induction api fd cap acc w rule: https_recv_loop.induct)
  case (1 api fd cap acc w)
  obtain r v where r: "recv api fd (cap - 1 - length acc) w = (r, v)" by fastforce
  show ?case
  proof (cases "r = None \<or> r = Some []")
    case True
    then show ?thesis using "1.prems" r by (subst (asm) https_recv_loop.simps) (auto split: if_splits)
  next
    case False
    then obtain xs where xs: "r = Some xs" "xs \<noteq> []" by auto
    have "length (acc @ xs) \<le> cap - 1" using recv_length r xs "1.prems"(2) by fastforce
    then show ?thesis using "1.prems"(1) "1.IH" [OF r [symmetric] xs refl] r xs
      by (subst (asm) https_recv_loop.simps) (auto simp: Let_def split: if_splits)
  qed
qed

lemma https_resp:
  assumes "https api tag host ip port req resp w = ((n, resp'), w')" "resp \<noteq> []"
  shows "length resp' = length resp" "n < 0 \<or> nat n < length resp \<and> resp' ! nat n = 0"
proof -
  obtain fd w1 where s: "zsock_socket api True w = (fd, w1)" by fastforce
  define w2 where "w2 = zsock_setsockopt api fd (SO_RCVTIMEO 20) (zsock_setsockopt api fd TLS_PEER_VERIFY_REQUIRED
      (zsock_setsockopt api fd (TLS_HOSTNAME host) (zsock_setsockopt api fd (TLS_SEC_TAG_LIST [tag]) w1)))"
  obtain rc w3 where c: "zsock_connect api fd (zsock_inet_pton api ip) port w2 = (rc, w3)" by fastforce
  obtain b w4 where sl: "send_loop api fd req w3 = (b, w4)" by fastforce
  obtain bs w5 where rv: "https_recv_loop api fd (length resp) [] w4 = (bs, w5)" by fastforce
  have "length bs < length resp" using https_recv_bound [OF rv] assms(2) by (cases resp) auto
  then show "length resp' = length resp" "n < 0 \<or> nat n < length resp \<and> resp' ! nat n = 0"
    using assms(1) by (auto simp: https_def s c sl rv w2_def [symmetric] Let_def split: if_splits)
qed

section \<open>Frames\<close>

text \<open>
  \<open>dev_frame\<close>: the key, request and hardware-id calls leave the observation \<open>f\<close> alone; creating and destroying a PSA key
  is a separate promise, since the set of live keys is itself an observation.
\<close>

definition dev_frame :: "('w, 'c, 'h, 'k, 'q, 'x) dev_api_scheme \<Rightarrow> ('w \<Rightarrow> 'f) \<Rightarrow> bool" where
  "dev_frame api f \<longleftrightarrow>
     (\<forall>n w. f (snd (hwinfo_get_device_id api n w)) = f w)
     \<and> (\<forall>w. f (snd (psa_crypto_init api w)) = f w)
     \<and> (\<forall>kid key w. f (snd (snd (mbedtls_pk_copy_from_psa api kid key w))) = f w)
     \<and> (\<forall>key n w. f (snd (snd (mbedtls_pk_write_key_pem api key n w))) = f w)
     \<and> (\<forall>key w. f (mbedtls_pk_free api key w) = f w)
     \<and> (\<forall>req subj w. f (snd (snd (mbedtls_x509write_csr_set_subject_name api req subj w))) = f w)
     \<and> (\<forall>req n w. f (snd (snd (mbedtls_x509write_csr_pem api req n w))) = f w)
     \<and> (\<forall>req w. f (mbedtls_x509write_csr_free api req w) = f w)"

definition key_frame :: "('w, 'c, 'h, 'k, 'q, 'x) dev_api_scheme \<Rightarrow> ('w \<Rightarrow> 'f) \<Rightarrow> bool" where
  "key_frame api f \<longleftrightarrow> (\<forall>attr w. f (snd (snd (psa_generate_key api attr w))) = f w)
     \<and> (\<forall>kid w. f (psa_destroy_key api kid w) = f w)"

text \<open>PSA's promise about its keys: a new key has a fresh nonzero id, a failure creates none, destroying removes one.\<close>

definition psa_keys_ok :: "('w, 'c, 'h, 'k, 'q, 'x) dev_api_scheme \<Rightarrow> ('w \<Rightarrow> u32 set) \<Rightarrow> bool" where
  "psa_keys_ok api live \<longleftrightarrow>
     (\<forall>attr w. case psa_generate_key api attr w of (rc, kid, w') \<Rightarrow>
        if rc = 0 then kid \<noteq> 0 \<and> kid \<notin> live w \<and> live w' = insert kid (live w) else kid = 0 \<and> live w' = live w)
     \<and> (\<forall>kid w. live (psa_destroy_key api kid w) = live w - {kid})"

lemma dev_frameD:
  assumes "dev_frame api f"
  shows "hwinfo_get_device_id api n w = (i, w') \<Longrightarrow> f w' = f w"
    "psa_crypto_init api w = (rc, w') \<Longrightarrow> f w' = f w"
    "mbedtls_pk_copy_from_psa api kid key w = (rc, key', w') \<Longrightarrow> f w' = f w"
    "mbedtls_pk_write_key_pem api key n w = (rc, pem, w') \<Longrightarrow> f w' = f w"
    "f (mbedtls_pk_free api key w) = f w"
    "mbedtls_x509write_csr_set_subject_name api req subj w = (rc, req', w') \<Longrightarrow> f w' = f w"
    "mbedtls_x509write_csr_pem api req n w = (rc, pem, w') \<Longrightarrow> f w' = f w"
    "f (mbedtls_x509write_csr_free api req w) = f w"
  using assms unfolding dev_frame_def by (metis snd_conv)+

lemma gen_key_work_cases:
  assumes "dev_frame api f" "gen_key_work api cn cc kc w = (r, kid, key, req, w')"
  obtains (no_psa) "r = None" "kid = 0" "f w' = f w"
  | (generated) rc w1 w2 where "psa_generate_key api csr_key_attributes w1 = (rc, kid, w2)" "f w1 = f w" "f w' = f w2"
      "r = None \<or> rc = 0 \<and> (\<exists>csr k pem v v'. r = Some (csr, cstr pem) \<and> mbedtls_pk_write_key_pem api k kc v = (0, pem, v'))"
proof -
  note fr = dev_frameD [OF assms(1)]
  obtain r1 w1 where i: "psa_crypto_init api w = (r1, w1)" by fastforce
  obtain r2 k2 w2 where g: "psa_generate_key api csr_key_attributes w1 = (r2, k2, w2)" by (metis prod.collapse)
  obtain r3 k3 w3 where c: "mbedtls_pk_copy_from_psa api k2 (mbedtls_pk_init api) w2 = (r3, k3, w3)" by (metis prod.collapse)
  define q where "q = mbedtls_x509write_csr_set_md_alg_sha256 api (mbedtls_x509write_csr_init api)"
  obtain r4 q4 w4 where s: "mbedtls_x509write_csr_set_subject_name api q (take 95 (str ''CN='' @ cn)) w3 = (r4, q4, w4)"
    by (metis prod.collapse)
  obtain r5 p5 w5 where p: "mbedtls_x509write_csr_pem api (mbedtls_x509write_csr_set_key api q4 k3) cc w4 = (r5, p5, w5)"
    by (metis prod.collapse)
  obtain r6 p6 w6 where x: "mbedtls_pk_write_key_pem api k3 kc w5 = (r6, p6, w6)" by (metis prod.collapse)
  have f: "f w1 = f w" "f w3 = f w2" "f w4 = f w2" "f w5 = f w2" "f w6 = f w2"
    using fr(2) [OF i] fr(3) [OF c] fr(6) [OF s] fr(7) [OF p] fr(4) [OF x] by simp_all
  note eq = assms(2) [unfolded gen_key_work_def Let_def i prod.case, simplified g c q_def [symmetric] s p x prod.case]
  show thesis
  proof (cases "r1 = 0")
    case False
    with eq f(1) no_psa show ?thesis by auto
  next
    case True
    with eq have "kid = k2" "f w' = f w2" "r = None \<or> r2 = 0 \<and> r = Some (cstr p5, cstr p6) \<and> r6 = 0"
      using f by (auto split: if_splits)
    then show ?thesis using generated [OF _ f(1)] g x by blast
  qed
qed

text \<open>A key that is created and then destroyed leaves the observation as it was.\<close>

definition key_neutral :: "('w, 'c, 'h, 'k, 'q, 'x) dev_api_scheme \<Rightarrow> ('w \<Rightarrow> 'f) \<Rightarrow> bool" where
  "key_neutral api f \<longleftrightarrow> (\<forall>attr w rc kid w' v. psa_generate_key api attr w = (rc, kid, w') \<and> f v = f w' \<longrightarrow>
     f (if kid \<noteq> 0 then psa_destroy_key api kid v else v) = f w)"

lemma key_frame_neutral: "key_frame api f \<Longrightarrow> key_neutral api f"
  by (simp add: key_frame_def key_neutral_def) (metis snd_conv)

lemma psa_keys_neutral: "psa_keys_ok api live \<Longrightarrow> key_neutral api live"
  unfolding key_neutral_def
proof (intro allI impI, elim conjE)
  fix attr w rc kid w' v
  assume ok: "psa_keys_ok api live" and g: "psa_generate_key api attr w = (rc, kid, w')" and v: "live v = live w'"
  have "if rc = 0 then kid \<noteq> 0 \<and> kid \<notin> live w \<and> live w' = insert kid (live w) else kid = 0 \<and> live w' = live w"
    using ok g by (simp add: psa_keys_ok_def split: prod.splits)
  moreover have "live (psa_destroy_key api kid v) = live v - {kid}" using ok by (simp add: psa_keys_ok_def)
  ultimately show "live (if kid \<noteq> 0 then psa_destroy_key api kid v else v) = live w" using v by (auto split: if_splits)
qed

lemma gen_key_csr_frame:
  assumes d: "dev_frame api f" and k: "key_neutral api f" and "gen_key_csr api cn cc kc w = (r, w')"
  shows "f w' = f w"
proof -
  obtain r1 kid key req v where g: "gen_key_work api cn cc kc w = (r1, kid, key, req, v)" by (metis prod.collapse)
  have "f w' = f (if kid \<noteq> 0 then psa_destroy_key api kid v else v)"
    using assms(3) dev_frameD(5,8) [OF d] by (auto simp: gen_key_csr_def g)
  moreover have "f (if kid \<noteq> 0 then psa_destroy_key api kid v else v) = f w"
    by (cases rule: gen_key_work_cases [OF d g, case_names no_psa generated])
      (use k in \<open>auto simp: key_neutral_def\<close>)
  ultimately show ?thesis by simp
qed

lemma gen_key_csr_pem:
  assumes "gen_key_csr api cn cc kc w = (Some (csr, key), w')"
  shows "\<exists>k pem v v'. mbedtls_pk_write_key_pem api k kc v = (0, pem, v') \<and> key = cstr pem"
proof -
  obtain r1 kid kx req v where g: "gen_key_work api cn cc kc w = (r1, kid, kx, req, v)" by (metis prod.collapse)
  have r1: "r1 = Some (csr, key)" using assms by (simp add: gen_key_csr_def g)
  have "dev_frame api (\<lambda>_. ())" by (simp add: dev_frame_def)
  then show ?thesis by (cases rule: gen_key_work_cases [OF _ g, case_names no_psa generated]) (use r1 in auto)
qed

lemma device_id_frame: "dev_frame api f \<Longrightarrow> device_id api cap w = (i, w') \<Longrightarrow> f w' = f w"
  by (auto simp: device_id_def hwid_def split: prod.splits option.splits dest!: dev_frameD(1))

lemma https_recv_frame: "net_frame api f \<Longrightarrow> https_recv_loop api fd cap acc w = (bs, w') \<Longrightarrow> f w' = f w"
proof (induction api fd cap acc w rule: https_recv_loop.induct)
  case (1 api fd cap acc w)
  obtain r v where r: "recv api fd (cap - 1 - length acc) w = (r, v)" by fastforce
  have v: "f v = f w" using recv_frame [OF "1.prems"(1) r] .
  show ?case
  proof (cases "r = None \<or> r = Some []")
    case True
    then show ?thesis using "1.prems"(2) r v by (subst (asm) https_recv_loop.simps) (auto split: if_splits)
  next
    case False
    then obtain xs where xs: "r = Some xs" "xs \<noteq> []" by auto
    then show ?thesis using "1.prems" "1.IH" [OF r [symmetric] xs refl] r v
      by (subst (asm) https_recv_loop.simps) (auto simp: Let_def split: if_splits)
  qed
qed

lemma https_frame:
  assumes f: "net_frame api f" and "https api tag host ip port req resp w = (r, w')"
  shows "f w' = f w"
proof -
  obtain fd w1 where s: "zsock_socket api True w = (fd, w1)" by fastforce
  define w2 where "w2 = zsock_setsockopt api fd (SO_RCVTIMEO 20) (zsock_setsockopt api fd TLS_PEER_VERIFY_REQUIRED
      (zsock_setsockopt api fd (TLS_HOSTNAME host) (zsock_setsockopt api fd (TLS_SEC_TAG_LIST [tag]) w1)))"
  obtain rc w3 where c: "zsock_connect api fd (zsock_inet_pton api ip) port w2 = (rc, w3)" by fastforce
  obtain b w4 where sl: "send_loop api fd req w3 = (b, w4)" by fastforce
  obtain bs w5 where rv: "https_recv_loop api fd (length resp) [] w4 = (bs, w5)" by fastforce
  have "f w1 = f w" "f w3 = f w2" using f s c by (metis net_frame_def snd_conv)+
  moreover have "f w2 = f w1" using f by (simp add: net_frame_def w2_def)
  moreover have "f w4 = f w3" "f w5 = f w4" using send_loop_frame [OF f sl] https_recv_frame [OF f rv] by simp_all
  ultimately show ?thesis
    using assms(2) close_frame [OF f] by (auto simp: https_def s c sl rv w2_def [symmetric] Let_def split: if_splits)
qed

lemma https_retry_loop_same:
  "net_frame api f \<Longrightarrow> sleep_frame api f \<Longrightarrow>
   same_store f s (snd (https_retry_loop api tag host ip port req tries n s))"
proof (induction tries arbitrary: n s)
  case (Suc tries)
  obtain m resp w where h: "https api tag host ip port req (resp_buf s) (world s) = ((m, resp), w)" by (metis prod.collapse)
  let ?t = "s\<lparr>resp_buf := resp, world := w\<rparr>"
  have t: "same_store f s ?t" using https_frame [OF Suc.prems(1) h] by (simp add: same_store_def)
  have "same_store f s (sleep_ms api 1000 ?t)" by (rule same_store_trans [OF t sleep_same [OF Suc.prems(2)]])
  then show ?case using t Suc.IH [OF Suc.prems, of "sleep_ms api 1000 ?t" m]
    by (auto simp: h Let_def intro: same_store_trans)
qed simp

lemma https_retry_same:
  "net_frame api f \<Longrightarrow> sleep_frame api f \<Longrightarrow> https_retry api tag host ip port req s = (n, s') \<Longrightarrow> same_store f s s'"
  unfolding https_retry_def using https_retry_loop_same by (metis snd_conv)

text \<open>What each stage of an enrollment does to the observation, and what a success of it means.\<close>

lemma enroll_claim_same:
  assumes f: "net_frame api f" "mgmt_frame api f" "dev_frame api f" "key_neutral api f"
    and "enroll_claim api prov s = (r, s')"
  shows "same_store f s s'"
proof -
  obtain did w1 where d: "device_id api 40 (world s) = (did, w1)" by fastforce
  obtain kc w2 where g: "gen_key_csr api did 1024 KEY_CAP w1 = (kc, w2)" by fastforce
  obtain rc w3 where a: "tls_credential_add api CLAIM_CA_TAG TLS_CREDENTIAL_CA_CERTIFICATE (claim_ca prov @ [0]) w2 = (rc, w3)"
    by fastforce
  have w: "f w2 = f (world s)" using device_id_frame [OF f(3) d] gen_key_csr_frame [OF f(3,4) g] by simp
  moreover have "f w3 = f w2" using f(2) a by (metis mgmt_frame_def snd_conv)
  ultimately have k: "same_store f s (s\<lparr>world := w3\<rparr>)" by simp
  have rt: "same_store f s t"
    if "https_retry api tag host ip port req (s\<lparr>world := w3\<rparr>) = (n, t)" for tag host ip port req n t
    by (rule same_store_trans [OF k https_retry_same [OF f(1) mgmt_sleep_frame [OF f(2)] that]])
  show ?thesis
    using assms(5) w k
    by (auto simp: enroll_claim_def d g a Let_def simp del: str_Cons split: option.splits prod.splits if_splits dest: rt)
qed

lemma add_mtls_frame: "mgmt_frame api f \<Longrightarrow> add_mtls api prov cert key w = (rc, w') \<Longrightarrow> f w' = f w"
  by (auto simp: add_mtls_def mgmt_frame_def split: prod.splits if_splits) (metis snd_conv)+

lemma enroll_manifest_key_same:
  assumes f: "net_frame api f" "mgmt_frame api f" and "enroll_manifest_key api prov cert key s = (r, s')"
  shows "same_store f s s'"
proof -
  obtain rc w where a: "add_mtls api prov cert key (world s) = (rc, w)" by fastforce
  have k: "same_store f s (s\<lparr>world := w\<rparr>)" using add_mtls_frame [OF f(2) a] by simp
  have rt: "same_store f s t"
    if "https_retry api tag host ip port req (s\<lparr>world := w\<rparr>) = (n, t)" for tag host ip port req n t
    by (rule same_store_trans [OF k https_retry_same [OF f(1) mgmt_sleep_frame [OF f(2)] that]])
  show ?thesis
    using assms(3) k
    by (auto simp: enroll_manifest_key_def a Let_def simp del: str_Cons same_store_world
        split: option.splits prod.splits if_splits dest: rt)
qed

lemma drop_creds_frame: "mgmt_frame api f \<Longrightarrow> f (drop_creds api w) = f w"
  by (simp add: drop_creds_def mgmt_frame_def split_beta)

lemma enroll_same:
  assumes f: "net_frame api f" "mgmt_frame api f" "dev_frame api f" "key_neutral api f"
    and e: "meshanics_enroll api prov nn s = (r, s')"
  shows "same_store f s s'"
proof (cases "prov = None \<or> \<not> nn")
  case True
  with e show ?thesis by (auto simp: meshanics_enroll_def split: option.splits)
next
  case False
  then obtain p where p: "prov = Some p" "nn" by auto
  obtain cl s1 where c: "enroll_claim api p s = (cl, s1)" by fastforce
  have k1: "same_store f s s1" by (rule enroll_claim_same [OF f c])
  show ?thesis
  proof (cases cl)
    case None
    with e p c k1 show ?thesis by (simp add: meshanics_enroll_def)
  next
    case (Some ck)
    obtain q s2 where m: "enroll_manifest_key api p (fst ck) (snd ck) s1 = (q, s2)" by fastforce
    have k2: "same_store f s s2" by (rule same_store_trans [OF k1 enroll_manifest_key_same [OF f(1,2) m]])
    then have "same_store f s (s2\<lparr>world := drop_creds api (world s2)\<rparr>)"
      using drop_creds_frame [OF f(2)] by (simp add: same_store_def)
    with e p c m k2 Some show ?thesis
      by (auto simp: meshanics_enroll_def split_beta split: cres.splits)
  qed
qed

section \<open>Retrying\<close>

text \<open>One attempt, and the state in which attempt \<open>k\<close> starts when the ones before it failed.\<close>

definition attempt ::
  "('w, 'x) net_api_scheme \<Rightarrow> u32 \<Rightarrow> byte list \<Rightarrow> byte list \<Rightarrow> u16 \<Rightarrow> byte list
     \<Rightarrow> ('w, 'y) enroll_state_scheme \<Rightarrow> int \<times> ('w, 'y) enroll_state_scheme" where
  "attempt api tag host ip port req s =
     (let ((n, resp), w) = https api tag host ip port req (resp_buf s) (world s) in (n, s\<lparr>resp_buf := resp, world := w\<rparr>))"

fun waited ::
  "('w, 'x) net_api_scheme \<Rightarrow> u32 \<Rightarrow> byte list \<Rightarrow> byte list \<Rightarrow> u16 \<Rightarrow> byte list \<Rightarrow> nat
     \<Rightarrow> ('w, 'y) enroll_state_scheme \<Rightarrow> ('w, 'y) enroll_state_scheme" where
  "waited api tag host ip port req 0 s = s"
| "waited api tag host ip port req (Suc k) s =
     waited api tag host ip port req k (sleep_ms api 1000 (snd (attempt api tag host ip port req s)))"

lemma retry_loop_Suc:
  "https_retry_loop api tag host ip port req (Suc k) n s =
     (let a = attempt api tag host ip port req s in
      if fst a \<ge> 0 then a else https_retry_loop api tag host ip port req k (fst a) (sleep_ms api 1000 (snd a)))"
  by (simp add: attempt_def Let_def split: prod.splits)

lemma retry_loop_fails:
  "(\<And>j. j < k \<Longrightarrow> fst (attempt api tag host ip port req (waited api tag host ip port req j s)) < 0) \<Longrightarrow>
   https_retry_loop api tag host ip port req (k + m) n s = https_retry_loop api tag host ip port req m
     (case k of 0 \<Rightarrow> n | Suc j \<Rightarrow> fst (attempt api tag host ip port req (waited api tag host ip port req j s)))
     (waited api tag host ip port req k s)"
proof (induction k arbitrary: n s)
  case (Suc k)
  let ?t = "sleep_ms api 1000 (snd (attempt api tag host ip port req s))"
  have 0: "fst (attempt api tag host ip port req s) < 0" using Suc.prems [of 0] by simp
  have "fst (attempt api tag host ip port req (waited api tag host ip port req j ?t)) < 0" if "j < k" for j
    using Suc.prems [of "Suc j"] that by simp
  note IH = Suc.IH [OF this]
  show ?case using 0 IH [of "fst (attempt api tag host ip port req s)"]
    by (simp add: retry_loop_Suc Let_def del: https_retry_loop.simps split: nat.splits)
qed simp

text \<open>
  C38. Enrollment rides out a network that is not up yet: \<open>https_retry\<close> answers with the first of the first twenty attempts
  that gets a response, having waited a second after each failure; and only when all twenty fail does it return the error of
  the last, after twenty waits.
\<close>

theorem https_retry_first_success:
  "https_retry api tag host ip port req s =
     (let ok = (\<lambda>k. 0 \<le> fst (attempt api tag host ip port req (waited api tag host ip port req k s))) in
      if \<exists>k<20. ok k then attempt api tag host ip port req (waited api tag host ip port req (LEAST k. ok k) s)
      else (fst (attempt api tag host ip port req (waited api tag host ip port req 19 s)),
            waited api tag host ip port req 20 s))"
proof -
  define ok where "ok k \<longleftrightarrow> 0 \<le> fst (attempt api tag host ip port req (waited api tag host ip port req k s))" for k
  show ?thesis
  proof (cases "\<exists>k<20. ok k")
    case True
    define k where "k = (LEAST k. ok k)"
    from True obtain j where j: "j < 20" "ok j" by blast
    have k: "ok k" "\<And>i. i < k \<Longrightarrow> \<not> ok i" unfolding k_def by (rule LeastI [of ok, OF j(2)], rule not_less_Least)
    have "k \<le> j" unfolding k_def by (rule Least_le [of ok, OF j(2)])
    then have "k < 20" using j(1) by simp
    then obtain m where m: "20 = k + Suc m" using less_iff_Suc_add by fastforce
    have "https_retry api tag host ip port req s = https_retry_loop api tag host ip port req (k + Suc m) (-1) s"
      by (simp only: https_retry_def m)
    also have "\<dots> = https_retry_loop api tag host ip port req (Suc m)
        (case k of 0 \<Rightarrow> -1 | Suc j \<Rightarrow> fst (attempt api tag host ip port req (waited api tag host ip port req j s)))
        (waited api tag host ip port req k s)"
      by (rule retry_loop_fails) (rule k(2) [unfolded ok_def not_le])
    also have "\<dots> = attempt api tag host ip port req (waited api tag host ip port req k s)"
      using k(1) unfolding retry_loop_Suc Let_def ok_def by (rule if_P)
    finally show ?thesis using True unfolding k_def ok_def [abs_def, symmetric] Let_def by (simp only: if_True)
  next
    case False
    then have "\<And>j. j < 20 \<Longrightarrow> \<not> ok j" by blast
    from retry_loop_fails [where k = 20 and m = 0 and n = "-1", OF this [unfolded ok_def not_le]] have "https_retry api tag host ip port req s
        = (fst (attempt api tag host ip port req (waited api tag host ip port req 19 s)), waited api tag host ip port req 20 s)"
      by (simp add: https_retry_def del: waited.simps)
    with False show ?thesis unfolding ok_def [abs_def, symmetric] Let_def by (simp only: if_False)
  qed
qed

section \<open>What a success of an enrollment means\<close>

lemma enroll_claim_success:
  assumes "enroll_claim api prov s = (Some (cert, key), s')"
  shows "\<exists>k pem v v'. mbedtls_pk_write_key_pem api k KEY_CAP v = (0, pem, v') \<and> key = cstr pem"
    "\<exists>b. http_body (resp_buf s') = (201, Some b) \<and> field_of b (str ''device_cert_pem'') CERT_CAP = Some cert"
proof -
  obtain did w1 where d: "device_id api 40 (world s) = (did, w1)" by fastforce
  obtain kc w2 where g: "gen_key_csr api did 1024 KEY_CAP w1 = (kc, w2)" by fastforce
  obtain rc w3 where a: "tls_credential_add api CLAIM_CA_TAG TLS_CREDENTIAL_CA_CERTIFICATE (claim_ca prov @ [0]) w2 = (rc, w3)"
    by fastforce
  note e = assms [unfolded enroll_claim_def Let_def d prod.case g]
  from e obtain csr where kc: "kc = Some (csr, key)"
    by (auto simp: a simp del: str_Cons split: option.splits prod.splits if_splits)
  show "\<exists>k pem v v'. mbedtls_pk_write_key_pem api k KEY_CAP v = (0, pem, v') \<and> key = cstr pem"
    using gen_key_csr_pem [OF g [unfolded kc]] .
  from e show "\<exists>b. http_body (resp_buf s') = (201, Some b) \<and> field_of b (str ''device_cert_pem'') CERT_CAP = Some cert"
    by (auto simp: a kc simp del: str_Cons split: option.splits prod.splits if_splits) (metis prod.collapse)
qed

lemma enroll_key_success:
  assumes "enroll_manifest_key api prov cert key s = (Ok (kid, pub), s')"
  shows "\<exists>b pem. http_body (resp_buf s') = (200, Some b) \<and> field_of b (str ''key_id'') KEYID_CAP = Some kid
    \<and> field_of b (str ''public_key_pem'') 256 = Some pem \<and> claim_ed25519_pub_from_pem (Some pem) True = Some pub"
  using assms
  by (auto simp: enroll_manifest_key_def Let_def simp del: str_Cons split: option.splits prod.splits if_splits)
    (metis prod.collapse)

lemma enroll_success:
  assumes "meshanics_enroll api prov nn s = (Ok i, s')"
  obtains p s1 s2 where "prov = Some p" "nn" "enroll_claim api p s = (Some (device_cert_pem i, device_key_pem i), s1)"
    "enroll_manifest_key api p (device_cert_pem i) (device_key_pem i) s1 = (Ok (key_id i, manifest_pub i), s2)"
    "s' = s2\<lparr>world := drop_creds api (world s2)\<rparr>"
  using assms by (auto simp: meshanics_enroll_def split: option.splits prod.splits if_splits cres.splits)

text \<open>mbedTLS writes a nonempty NUL-terminated text within the capacity when it reports success.\<close>

definition pem_ok :: "('w, 'c, 'h, 'k, 'q, 'x) dev_api_scheme \<Rightarrow> bool" where
  "pem_ok api \<longleftrightarrow> (\<forall>key n w pem w'. mbedtls_pk_write_key_pem api key n w = (0, pem, w') \<longrightarrow>
     cstr pem \<noteq> [] \<and> length (cstr pem) < n)"

lemma enroll_identity_ok:
  assumes "pem_ok api" "meshanics_enroll api prov nn s = (Ok i, s')"
  shows "identity_ok i"
proof (rule enroll_success [OF assms(2)])
  fix p s1 s2
  assume c: "enroll_claim api p s = (Some (device_cert_pem i, device_key_pem i), s1)"
    and k: "enroll_manifest_key api p (device_cert_pem i) (device_key_pem i) s1 = (Ok (key_id i, manifest_pub i), s2)"
  obtain x pem v v' where "mbedtls_pk_write_key_pem api x KEY_CAP v = (0, pem, v')" "device_key_pem i = cstr pem"
    using enroll_claim_success(1) [OF c] by blast
  then have "device_key_pem i \<noteq> []" "length (device_key_pem i) < KEY_CAP" "0 \<notin> set (device_key_pem i)"
    using assms(1) cstr_no_nul [of pem] unfolding pem_ok_def by metis+
  moreover obtain b where "http_body (resp_buf s1) = (201, Some b)"
    "field_of b (str ''device_cert_pem'') CERT_CAP = Some (device_cert_pem i)"
    using enroll_claim_success(2) [OF c] by blast
  moreover obtain b' pem' where "http_body (resp_buf s2) = (200, Some b')" "field_of b' (str ''key_id'') KEYID_CAP = Some (key_id i)"
    "claim_ed25519_pub_from_pem (Some pem') True = Some (manifest_pub i)"
    using enroll_key_success [OF k] by blast
  ultimately show ?thesis
    using field_of_bounds http_body_no_nul pub_from_pem_length unfolding identity_ok_def by blast
qed

text \<open>
  C35. An enrollment that reports success has produced a complete identity, taken from the two responses it received: the
  certificate from a 201 answer of the claim endpoint, then the key id and a 32-byte Ed25519 key from a 200 answer of the
  manifest-key endpoint. Every text is nonempty, NUL-free and fits its array, so the identity can be stored and loaded.
\<close>

theorem enroll_identity_complete:
  assumes "pem_ok api" "meshanics_enroll api prov nn s = (Ok i, s')"
  shows "identity_ok i
    \<and> (\<exists>p s1 b. prov = Some p \<and> enroll_claim api p s = (Some (device_cert_pem i, device_key_pem i), s1)
        \<and> http_body (resp_buf s1) = (201, Some b) \<and> field_of b (str ''device_cert_pem'') CERT_CAP = Some (device_cert_pem i))
    \<and> (\<exists>b pem. http_body (resp_buf s') = (200, Some b) \<and> field_of b (str ''key_id'') KEYID_CAP = Some (key_id i)
        \<and> field_of b (str ''public_key_pem'') 256 = Some pem
        \<and> claim_ed25519_pub_from_pem (Some pem) True = Some (manifest_pub i))"
proof (rule enroll_success [OF assms(2)])
  fix p s1 s2
  assume p: "prov = Some p" and c: "enroll_claim api p s = (Some (device_cert_pem i, device_key_pem i), s1)"
    and k: "enroll_manifest_key api p (device_cert_pem i) (device_key_pem i) s1 = (Ok (key_id i, manifest_pub i), s2)"
    and s': "s' = s2\<lparr>world := drop_creds api (world s2)\<rparr>"
  have "resp_buf s' = resp_buf s2" by (simp add: s')
  then show ?thesis
    using enroll_identity_ok [OF assms] p c enroll_claim_success(2) [OF c] enroll_key_success [OF k] by simp
qed

section \<open>Keys and credentials\<close>

text \<open>
  C36. No private key is left in the PSA key store: whatever fails on the way, and when nothing fails, the keys alive after an
  enrollment are the keys alive before it.
\<close>

theorem enroll_leaves_no_key:
  assumes "psa_keys_ok api live" "dev_frame api live" "net_frame api live" "mgmt_frame api live"
  shows "live (world (snd (meshanics_enroll api prov nn s))) = live (world s)"
  using enroll_same [OF assms(3,4,2) psa_keys_neutral [OF assms(1)] prod.collapse [symmetric], of s prov nn]
  by (simp add: same_store_def)

text \<open>Zephyr's promise about credentials: adding registers the pair of tag and type, deleting removes it.\<close>

definition creds_ok :: "('w, 'x) net_api_scheme \<Rightarrow> ('w \<Rightarrow> (u32 \<times> tls_credential_type) set) \<Rightarrow> bool" where
  "creds_ok api creds \<longleftrightarrow>
     (\<forall>tag ty bs w w'. tls_credential_add api tag ty bs w = (0, w') \<longrightarrow> creds w' = insert (tag, ty) (creds w))
     \<and> (\<forall>tag ty w. creds (snd (tls_credential_delete api tag ty w)) = creds w - {(tag, ty)})"

definition enroll_creds :: "(u32 \<times> tls_credential_type) set" where
  "enroll_creds = {(CLAIM_CA_TAG, TLS_CREDENTIAL_CA_CERTIFICATE), (MTLS_TAG, TLS_CREDENTIAL_CA_CERTIFICATE),
     (MTLS_TAG, TLS_CREDENTIAL_PUBLIC_CERTIFICATE), (MTLS_TAG, TLS_CREDENTIAL_PRIVATE_KEY)}"

lemma drop_creds_creds: "creds_ok api creds \<Longrightarrow> creds (drop_creds api w) = creds w - enroll_creds"
  by (auto simp: creds_ok_def drop_creds_def enroll_creds_def split_beta)

lemma add_mtls_creds:
  assumes "creds_ok api creds" "add_mtls api prov cert key w = (0, w')"
  shows "creds w' - enroll_creds = creds w - enroll_creds"
proof -
  from assms(2) obtain w1 w2 where
    "tls_credential_add api MTLS_TAG TLS_CREDENTIAL_CA_CERTIFICATE (server_ca prov @ [0]) w = (0, w1)"
    "tls_credential_add api MTLS_TAG TLS_CREDENTIAL_PUBLIC_CERTIFICATE (cert @ [0]) w1 = (0, w2)"
    "tls_credential_add api MTLS_TAG TLS_CREDENTIAL_PRIVATE_KEY (key @ [0]) w2 = (0, w')"
    by (auto simp: add_mtls_def split: prod.splits if_splits)
  then have "creds w1 = insert (MTLS_TAG, TLS_CREDENTIAL_CA_CERTIFICATE) (creds w)"
    "creds w2 = insert (MTLS_TAG, TLS_CREDENTIAL_PUBLIC_CERTIFICATE) (creds w1)"
    "creds w' = insert (MTLS_TAG, TLS_CREDENTIAL_PRIVATE_KEY) (creds w2)"
    using assms(1) by (simp_all add: creds_ok_def)
  then show ?thesis by (auto simp: enroll_creds_def)
qed

lemma enroll_claim_creds:
  assumes c: "creds_ok api creds" and f: "net_frame api creds" "sleep_frame api creds" "dev_frame api creds" "key_frame api creds"
    and e: "enroll_claim api prov s = (Some ck, s')"
  shows "creds (world s') - enroll_creds = creds (world s) - enroll_creds"
proof -
  obtain did w1 where d: "device_id api 40 (world s) = (did, w1)" by fastforce
  obtain kc w2 where g: "gen_key_csr api did 1024 KEY_CAP w1 = (kc, w2)" by fastforce
  obtain rc w3 where a: "tls_credential_add api CLAIM_CA_TAG TLS_CREDENTIAL_CA_CERTIFICATE (claim_ca prov @ [0]) w2 = (rc, w3)"
    by fastforce
  have w: "creds w2 = creds (world s)"
    using device_id_frame [OF f(3) d] gen_key_csr_frame [OF f(3) key_frame_neutral [OF f(4)] g] by simp
  from e obtain n req where r: "rc = 0"
    "https_retry api CLAIM_CA_TAG (claim_host prov) (claim_ip prov) (claim_port prov) req (s\<lparr>world := w3\<rparr>) = (n, s')"
    by (auto simp: enroll_claim_def d g a Let_def simp del: str_Cons split: option.splits prod.splits if_splits)
  have "creds w3 = insert (CLAIM_CA_TAG, TLS_CREDENTIAL_CA_CERTIFICATE) (creds w2)"
    using c a r(1) by (simp add: creds_ok_def)
  moreover have "creds (world s') = creds w3" using https_retry_same [OF f(1,2) r(2)] by (simp add: same_store_def)
  ultimately show ?thesis using w by (auto simp: enroll_creds_def)
qed

lemma enroll_key_creds:
  assumes c: "creds_ok api creds" and f: "net_frame api creds" "sleep_frame api creds"
    and e: "enroll_manifest_key api prov cert key s = (Ok kp, s')"
  shows "creds (world s') - enroll_creds = creds (world s) - enroll_creds"
proof -
  obtain rc w where a: "add_mtls api prov cert key (world s) = (rc, w)" by fastforce
  from e obtain n where r: "rc = 0"
    "https_retry api MTLS_TAG (server_host prov) (server_ip prov) (artifact_port prov) (key_get prov) (s\<lparr>world := w\<rparr>) = (n, s')"
    by (auto simp: enroll_manifest_key_def a Let_def simp del: str_Cons split: option.splits prod.splits if_splits)
  show ?thesis using https_retry_same [OF f r(2)] add_mtls_creds [OF c a [unfolded r(1)]] by (simp add: same_store_def)
qed

text \<open>
  C37. A successful enrollment gives back every credential slot it took: the claim anchor and the three credentials of the
  mutual-TLS hop are no longer registered, and no other credential was added or removed.
\<close>

theorem enroll_releases_credentials:
  assumes "creds_ok api creds" "net_frame api creds" "sleep_frame api creds" "dev_frame api creds" "key_frame api creds"
    and "meshanics_enroll api prov nn s = (Ok i, s')"
  shows "creds (world s') = creds (world s) - enroll_creds"
proof (rule enroll_success [OF assms(6)])
  fix p s1 s2
  assume c: "enroll_claim api p s = (Some (device_cert_pem i, device_key_pem i), s1)"
    and k: "enroll_manifest_key api p (device_cert_pem i) (device_key_pem i) s1 = (Ok (key_id i, manifest_pub i), s2)"
    and s': "s' = s2\<lparr>world := drop_creds api (world s2)\<rparr>"
  show ?thesis
    using enroll_claim_creds [OF assms(1-5) c] enroll_key_creds [OF assms(1-3) k] drop_creds_creds [OF assms(1)]
    by (simp add: s')
qed

section \<open>The unchecked length\<close>

lemma length_key_get: "length (key_get prov) = 64 + length (server_host prov)"
  by (simp add: key_get_def CRLF2_def)

lemma key_stage_overread:
  "fst (enroll_manifest_key api p cert key s) = Oob \<longleftrightarrow>
     fst (add_mtls api p cert key (world s)) = 0 \<and> 1984 \<le> length (server_host p)"
proof -
  obtain rc w where a: "add_mtls api p cert key (world s) = (rc, w)" by fastforce
  show ?thesis
    by (auto simp: enroll_manifest_key_def a Let_def length_key_get simp del: str_Cons
        split: option.splits prod.splits if_splits)
qed


section \<open>A simulated chip\<close>

text \<open>The simulated device with a PSA key store for one key at a time, and a fixed hardware id.\<close>

record sim_chip = sim_dev +
  sim_keys :: "u32 list"

definition sim_chip_ext :: "'x \<Rightarrow> ('a sim_chip_scheme, unit, byte list, 'x) dev_api_ext" where
  "sim_chip_ext ext = dev_api_ext
     (\<lambda>n w. (Some [0xde, 0xad, 0xbe, 0xef, 1, 2, 3, 4], w))
     (\<lambda>w. (0, w))
     (\<lambda>attr w. if sim_keys w = [] then (0, 1, w\<lparr>sim_keys := [1]\<rparr>) else (-141, 0, w))
     (\<lambda>kid w. w\<lparr>sim_keys := removeAll kid (sim_keys w)\<rparr>)
     ()
     (\<lambda>kid key w. (0, (), w))
     (\<lambda>key n w. if n < 4 then (-1, [], w) else (0, str ''KEY'' @ [0], w))
     (\<lambda>key w. w)
     []
     (\<lambda>req. req)
     (\<lambda>req subj w. (0, subj, w))
     (\<lambda>req key. req)
     (\<lambda>req n w. (0, str ''CSR'' @ [0], w))
     (\<lambda>req w. w) ext"

abbreviation sim_chip_api :: "'x \<Rightarrow> ('a sim_chip_scheme, byte list \<times> bool, byte list, unit, byte list, 'x) dev_api_scheme" where
  "sim_chip_api ext \<equiv> sim_boot (sim_chip_ext ext)"

lemma sim_chip_sel:
  "hwinfo_get_device_id (sim_chip_api ext) = (\<lambda>n w. (Some [0xde, 0xad, 0xbe, 0xef, 1, 2, 3, 4], w))"
  "psa_crypto_init (sim_chip_api ext) = (\<lambda>w. (0, w))"
  "psa_generate_key (sim_chip_api ext) = (\<lambda>attr w. if sim_keys w = [] then (0, 1, w\<lparr>sim_keys := [1]\<rparr>) else (-141, 0, w))"
  "psa_destroy_key (sim_chip_api ext) = (\<lambda>kid w. w\<lparr>sim_keys := removeAll kid (sim_keys w)\<rparr>)"
  "mbedtls_pk_copy_from_psa (sim_chip_api ext) = (\<lambda>kid key w. (0, (), w))"
  "mbedtls_pk_write_key_pem (sim_chip_api ext) = (\<lambda>key n w. if n < 4 then (-1, [], w) else (0, str ''KEY'' @ [0], w))"
  "mbedtls_pk_free (sim_chip_api ext) = (\<lambda>key w. w)"
  "mbedtls_x509write_csr_set_subject_name (sim_chip_api ext) = (\<lambda>req subj w. (0, subj, w))"
  "mbedtls_x509write_csr_pem (sim_chip_api ext) = (\<lambda>req n w. (0, str ''CSR'' @ [0], w))"
  "mbedtls_x509write_csr_free (sim_chip_api ext) = (\<lambda>req w. w)"
  by (simp_all add: sim_net_def sim_boot_ext_def sim_chip_ext_def del: str_Cons)

definition sim_live :: "'a sim_chip_scheme \<Rightarrow> u32 set" where
  "sim_live w = set (sim_keys w)"

definition sim_creds_of :: "'a sim_scheme \<Rightarrow> (u32 \<times> tls_credential_type) set" where
  "sim_creds_of w = set (sim_creds w)"

lemma sim_chip_pem_ok: "pem_ok (sim_chip_api ext)"
  by (auto simp: pem_ok_def sim_chip_sel cstr_def split: if_splits)

lemma sim_chip_keys_ok: "psa_keys_ok (sim_chip_api ext) sim_live"
  by (auto simp: psa_keys_ok_def sim_chip_sel sim_live_def)

lemma sim_chip_frames:
  "net_frame (sim_chip_api ext) sim_live" "mgmt_frame (sim_chip_api ext) sim_live" "dev_frame (sim_chip_api ext) sim_live"
  "net_frame (sim_chip_api ext) sim_creds_of" "sleep_frame (sim_chip_api ext) sim_creds_of"
  "dev_frame (sim_chip_api ext) sim_creds_of" "key_frame (sim_chip_api ext) sim_creds_of"
  "net_frame (sim_chip_api ext) sim_nvs" "mgmt_frame (sim_chip_api ext) sim_nvs"
  "dev_frame (sim_chip_api ext) sim_nvs" "key_frame (sim_chip_api ext) sim_nvs"
  by (simp_all add: sim_net_frame sim_live_def sim_creds_of_def sleep_frame_def mgmt_frame_def key_frame_def dev_frame_def
      sim_chip_sel) (simp_all add: sim_net_def)

lemma sim_chip_creds_ok: "creds_ok (sim_chip_api ext) sim_creds_of"
  by (auto simp: creds_ok_def sim_creds_of_def sim_net_def)

definition enroll_start :: "'a sim_scheme \<Rightarrow> 'a sim_scheme enroll_state" where
  "enroll_start w = \<lparr>world = w, store_fs = \<lparr>fs_offset = 0, fs_sector_size = 0, fs_sector_count = 0\<rparr>,
     store_ready = False, cfg = sample_prov, wifi_connected = False, resp_buf = replicate 4096 0\<rparr>"

definition sample_chip :: "byte list list \<Rightarrow> sim_chip" where
  "sample_chip responses = \<lparr>sim_nvs = (\<lambda>_. None), sim_responses = responses, sim_rx = [], sim_creds = [],
     sim_slot = [], sim_confirmed = True, sim_swap = False, sim_keys = []\<rparr>"

theorem enroll_leaves_no_key_witness:
  "sim_live (world (snd (meshanics_enroll (sim_chip_api ()) (Some sample_prov) True (enroll_start (sample_chip []))))) = {}"
  unfolding enroll_leaves_no_key [OF sim_chip_keys_ok sim_chip_frames(3,1,2)]
  by (simp add: enroll_start_def sample_chip_def sim_live_def)

section \<open>A successful enrollment\<close>

lemma sim_send_loop: "send_loop (sim_net ext) fd bs w = (True, w)"
  by (subst send_loop.simps) (simp add: sim_send, subst send_loop.simps, simp)

lemma sim_https_recv:
  assumes "sim_rx w = r" "r \<noteq> []" "length r < cap - 1"
  shows "https_recv_loop (sim_net ext) fd cap [] w = (r, w\<lparr>sim_rx := []\<rparr>)"
  using assms by (subst https_recv_loop.simps) (simp add: sim_recv, subst https_recv_loop.simps, simp add: sim_recv)

lemma sim_https:
  assumes "sim_responses w = r # rs" "r \<noteq> []" "length r < length resp - 1"
  shows "https (sim_net ext) tag host ip port req resp w
    = ((int (length r), r @ [0] @ drop (length r + 1) resp), w\<lparr>sim_responses := rs, sim_rx := []\<rparr>)"
  using assms
  by (simp add: https_def sim_net_def Let_def) (simp add: sim_net_def [symmetric] sim_send_loop sim_close sim_https_recv [OF refl])

text \<open>What the code reads from a response without NUL bytes.\<close>

lemma cstr_append: "0 \<notin> set xs \<Longrightarrow> cstr (xs @ 0 # ys) = xs"
  unfolding cstr_def by (induction xs) auto

lemma http_body_text:
  assumes "0 \<notin> set r" "9 \<le> length r"
  shows "http_body (r @ 0 # ys) = (if take 7 r = str ''HTTP/1.'' then atoi (drop 9 r) else 0,
    case strstr r CRLF2 of None \<Rightarrow> None | Some b \<Rightarrow> Some (drop 4 b))"
proof -
  have "cstr (drop 9 r @ 0 # ys) = drop 9 r" using assms(1) by (intro cstr_append) (auto dest: in_set_dropD)
  then show ?thesis using assms by (simp add: http_body_def cstr_append)
qed

definition claim_answer :: "byte list" where
  "claim_answer = str ''HTTP/1.1 201 Created'' @ CRLF2 @ json_object [(str ''device_cert_pem'', str ''CERT'')]"

definition key_answer :: "byte list" where
  "key_answer = http_ok (json_object [(str ''key_id'', str ''abcd''), (str ''public_key_pem'', spki_pem (replicate 32 0xd7))])"

definition enrolled_identity :: meshanics_identity where
  "enrolled_identity = \<lparr>device_cert_pem = str ''CERT'', device_key_pem = str ''KEY'',
     manifest_pub = replicate 32 0xd7, key_id = str ''abcd''\<rparr>"

lemma http_response_parts:
  assumes "length status = 3" "list_all (\<lambda>c. in_range c CHR ''0'' CHR ''9'') status" "13 \<notin> set reason"
  shows "strstr (str ''HTTP/1.1 '' @ status @ 32 # reason @ CRLF2 @ body) CRLF2 = Some (CRLF2 @ body)"
    "atoi (drop 9 (str ''HTTP/1.1 '' @ status @ 32 # reason @ CRLF2 @ body)) = foldl (\<lambda>v c. v * 10 + (int (unat c) - 48)) 0 status"
proof -
  have 13: "CRLF2 = 13 # [10, 13, 10]" by (simp add: CRLF2_def)
  have d: "c \<in> set status \<Longrightarrow> 48 \<le> c \<and> c \<le> 57" for c using assms(2) by (simp add: list_all_iff)
  then have "\<forall>c \<in> set (str ''HTTP/1.1 '' @ status @ 32 # reason). c \<noteq> 13" using d [of 13] assms(3) by auto
  from strstr_skip [OF this, of "CRLF2 @ body" "[10, 13, 10]"] strstr_here [of CRLF2 body]
  show "strstr (str ''HTTP/1.1 '' @ status @ 32 # reason @ CRLF2 @ body) CRLF2 = Some (CRLF2 @ body)" by (simp add: 13)
  obtain a b c where abc: "status = [a, b, c]" using assms(1) by (auto simp: length_Suc_conv numeral_3_eq_3)
  have "\<not> a \<le> 13" "a \<noteq> 32" "a \<noteq> 45" "a \<noteq> 43" using abc d [of a] by (auto dest: order_trans [of 48 a 13])
  then have "dropWhile (\<lambda>c. c = 32 \<or> 9 \<le> c \<and> c \<le> 13) (a # xs) = a # xs" for xs by simp
  with abc d [of a] d [of b] d [of c] \<open>a \<noteq> 45\<close> \<open>a \<noteq> 43\<close>
  show "atoi (drop 9 (str ''HTTP/1.1 '' @ status @ 32 # reason @ CRLF2 @ body))
      = foldl (\<lambda>v c. v * 10 + (int (unat c) - 48)) 0 status"
    by (simp add: atoi_def deref_def Let_def del: dropWhile.simps)
qed

lemma claim_answer_parts:
  "0 \<notin> set claim_answer" "9 \<le> length claim_answer \<and> length claim_answer < 1000"
  "take 7 claim_answer = str ''HTTP/1.''" "atoi (drop 9 claim_answer) = 201"
  "strstr claim_answer CRLF2 = Some (CRLF2 @ json_object [(str ''device_cert_pem'', str ''CERT'')])"
  by code_simp+

lemma spki_pem_sample: "list_all (\<lambda>c. c \<noteq> 0) (esc (spki_pem (replicate 32 0xd7)))
    \<and> length (esc (spki_pem (replicate 32 0xd7))) < 200 \<and> length (spki_pem (replicate 32 0xd7)) < 200"
  by code_simp

lemma key_answer_parts:
  "0 \<notin> set key_answer" "9 \<le> length key_answer \<and> length key_answer < 1000"
  "take 7 key_answer = str ''HTTP/1.''" "atoi (drop 9 key_answer) = 200"
  "strstr key_answer CRLF2
     = Some (CRLF2 @ json_object [(str ''key_id'', str ''abcd''), (str ''public_key_pem'', spki_pem (replicate 32 0xd7))])"
proof -
  define body where "body = json_object [(str ''key_id'', str ''abcd''), (str ''public_key_pem'', spki_pem (replicate 32 0xd7))]"
  have k: "key_answer = str ''HTTP/1.1 '' @ str ''200'' @ 32 # str ''OK'' @ CRLF2 @ body"
    by (simp add: key_answer_def http_ok_def body_def)
  have b: "0 \<notin> set body \<and> length body < 900"
    using spki_pem_sample unfolding body_def json_object_def list_all_iff by (auto simp: json_entry_def esc_char_def)
  note p = http_response_parts [of "str ''200''" "str ''OK''" body]
  show "0 \<notin> set key_answer" "9 \<le> length key_answer \<and> length key_answer < 1000" "take 7 key_answer = str ''HTTP/1.''"
    using b by (auto simp: k CRLF2_def)
  show "atoi (drop 9 key_answer) = 200" unfolding k by (subst p(2)) simp_all
  show "strstr key_answer CRLF2
     = Some (CRLF2 @ json_object [(str ''key_id'', str ''abcd''), (str ''public_key_pem'', spki_pem (replicate 32 0xd7))])"
    unfolding k body_def [symmetric] by (rule p(1)) simp_all
qed

lemma sim_retry:
  assumes "sim_responses (world s) = r # rs" "r \<noteq> []" "length r < length (resp_buf s) - 1"
  shows "https_retry (sim_net ext) tag host ip port req s = (int (length r),
    s\<lparr>resp_buf := r @ [0] @ drop (length r + 1) (resp_buf s), world := (world s)\<lparr>sim_responses := rs, sim_rx := []\<rparr>\<rparr>)"
proof -
  have "https_retry_loop (sim_net ext) tag host ip port req (Suc k) n s = (int (length r),
    s\<lparr>resp_buf := r @ [0] @ drop (length r + 1) (resp_buf s), world := (world s)\<lparr>sim_responses := rs, sim_rx := []\<rparr>\<rparr>)" for k n
    by (simp add: sim_https [OF assms])
  from this [of 19 "-1"] show ?thesis unfolding https_retry_def by (simp only: eval_nat_numeral) simp
qed

lemma sim_device_id: "device_id (sim_chip_api ext) 40 w = (str ''esp32-deadbeef01020304'', w)"
  by (simp add: device_id_def hwid_def sim_chip_sel hex_byte_def hex_digit_def)

lemma sim_gen_key:
  "sim_keys w = [] \<Longrightarrow> gen_key_csr (sim_chip_api ext) cn 1024 KEY_CAP w = (Some (str ''CSR'', str ''KEY''), w\<lparr>sim_keys := []\<rparr>)"
  by (simp add: gen_key_csr_def gen_key_work_def sim_chip_sel KEY_CAP_def cstr_append Let_def) (simp add: cstr_def)

lemma sim_claim:
  assumes "sim_responses (world s) = claim_answer # rs" "sim_keys (world s) = []" "length (resp_buf s) = 4096"
  shows "\<exists>s'. enroll_claim (sim_chip_api ext) sample_prov s = (Some (str ''CERT'', str ''KEY''), s')
    \<and> sim_responses (world s') = rs \<and> length (resp_buf s') = 4096"
proof -
  let ?did = "str ''esp32-deadbeef01020304''"
  obtain body where body: "claim_build_request (Some (claim_token sample_prov)) (Some ?did) (Some (str ''CSR'')) True 1024 = Some body"
    and len: "length (claim_post sample_prov body) < 2048"
  proof -
    have "(case claim_build_request (Some (claim_token sample_prov)) (Some ?did) (Some (str ''CSR'')) True 1024 of
        Some b \<Rightarrow> length (claim_post sample_prov b) < 2048 | None \<Rightarrow> False)" by code_simp
    then show thesis using that by (auto split: option.splits)
  qed
  define w where "w = (world s)\<lparr>sim_keys := []\<rparr>"
  define w2 where "w2 = w\<lparr>sim_creds := (CLAIM_CA_TAG, TLS_CREDENTIAL_CA_CERTIFICATE) # sim_creds w\<rparr>"
  have add: "tls_credential_add (sim_chip_api ext) CLAIM_CA_TAG TLS_CREDENTIAL_CA_CERTIFICATE x w = (0, w2)" for x
    by (simp add: sim_net_def w2_def)
  define s' where "s' = s\<lparr>resp_buf := claim_answer @ [0] @ drop (length claim_answer + 1) (resp_buf s),
    world := w2\<lparr>sim_responses := rs, sim_rx := []\<rparr>\<rparr>"
  have rt: "https_retry (sim_chip_api ext) tag host ip port req (s\<lparr>world := w2\<rparr>) = (int (length claim_answer), s')"
    for tag host ip port req
    by (subst sim_retry [of _ claim_answer rs])
      (use claim_answer_parts(2) assms in \<open>auto simp: w2_def w_def s'_def\<close>)
  have hb: "http_body (claim_answer @ 0 # ys) = (201, Some (json_object [(str ''device_cert_pem'', str ''CERT'')]))" for ys
    using claim_answer_parts by (simp add: http_body_text CRLF2_def del: str_Cons)
  have fo: "field_of (json_object [(str ''device_cert_pem'', str ''CERT'')]) (str ''device_cert_pem'') CERT_CAP = Some (str ''CERT'')"
    using json_extract_entries [of "str ''device_cert_pem''" "[(str ''device_cert_pem'', str ''CERT'')]" CERT_CAP]
    by (simp add: field_of_def plain_key_def CERT_CAP_def)
  have rb: "resp_buf s' = claim_answer @ 0 # drop (length claim_answer + 1) (resp_buf s)" by (simp add: s'_def)
  have n: "0 < length claim_answer" using claim_answer_parts(2) by auto
  have "enroll_claim (sim_chip_api ext) sample_prov s = (Some (str ''CERT'', str ''KEY''), s')"
    unfolding enroll_claim_def sim_device_id sim_gen_key [OF assms(2)] Let_def prod.case w_def [symmetric]
    using len n by (simp add: body add rt rb hb fo del: str_Cons)
  moreover have "sim_responses (world s') = rs" "length (resp_buf s') = 4096"
    using assms(3) claim_answer_parts(2) by (simp_all add: s'_def)
  ultimately show ?thesis by blast
qed

lemma sim_key_hop:
  assumes "sim_responses (world s) = key_answer # rs" "length (resp_buf s) = 4096"
  shows "fst (enroll_manifest_key (sim_chip_api ext) sample_prov cert key s) = Ok (str ''abcd'', replicate 32 0xd7)"
proof -
  let ?es = "[(str ''key_id'', str ''abcd''), (str ''public_key_pem'', spki_pem (replicate 32 0xd7))]"
  let ?cs = "(MTLS_TAG, TLS_CREDENTIAL_PRIVATE_KEY) # (MTLS_TAG, TLS_CREDENTIAL_PUBLIC_CERTIFICATE)
      # (MTLS_TAG, TLS_CREDENTIAL_CA_CERTIFICATE) # sim_creds (world s)"
  define w where "w = (world s)\<lparr>sim_creds := ?cs\<rparr>"
  have add: "add_mtls (sim_chip_api ext) sample_prov cert key (world s) = (0, w)"
    by (simp add: add_mtls_def sim_net_def w_def)
  have len: "\<not> 2048 \<le> length (key_get sample_prov)" by (simp add: length_key_get sample_prov_def)
  have rt: "https_retry (sim_chip_api ext) tag host ip port req (s\<lparr>world := w\<rparr>) = (int (length key_answer),
      s\<lparr>resp_buf := key_answer @ [0] @ drop (length key_answer + 1) (resp_buf s), world := w\<lparr>sim_responses := rs, sim_rx := []\<rparr>\<rparr>)"
    for tag host ip port req
    by (subst sim_retry [of _ key_answer rs]) (use key_answer_parts(2) assms in \<open>auto simp: w_def\<close>)
  have hb: "http_body (key_answer @ 0 # ys) = (200, Some (json_object ?es))" for ys
    using key_answer_parts by (simp add: http_body_text CRLF2_def del: str_Cons)
  have pk: "plain_key (str ''key_id'')" "plain_key (str ''public_key_pem'')" by (simp_all add: plain_key_def)
  have f1: "field_of (json_object ?es) (str ''key_id'') KEYID_CAP = Some (str ''abcd'')"
    using json_extract_entries [of "str ''key_id''" ?es KEYID_CAP] pk by (simp add: field_of_def KEYID_CAP_def)
  have ne: "spki_pem x \<noteq> []" for x by (simp add: spki_pem_def)
  have f2: "field_of (json_object ?es) (str ''public_key_pem'') 256 = Some (spki_pem (replicate 32 0xd7))"
    using json_extract_entries [of "str ''public_key_pem''" ?es 256] pk spki_pem_sample ne by (simp add: field_of_def)
  have pub: "claim_ed25519_pub_from_pem (Some (spki_pem (replicate 32 0xd7))) True = Some (replicate 32 0xd7)"
    by (rule pub_from_pem_spki) simp
  have n: "0 < length key_answer" using key_answer_parts(2) by auto
  show ?thesis
    using len n by (simp add: enroll_manifest_key_def add rt hb f1 f2 pub del: str_Cons)
qed

lemma sim_enrolled:
  assumes "sim_responses (world s) = [claim_answer, key_answer]" "sim_keys (world s) = []" "length (resp_buf s) = 4096"
  shows "fst (meshanics_enroll (sim_chip_api ext) (Some sample_prov) True s) = Ok enrolled_identity"
proof -
  obtain s' where c: "enroll_claim (sim_chip_api ext) sample_prov s = (Some (str ''CERT'', str ''KEY''), s')"
    and s': "sim_responses (world s') = [key_answer]" "length (resp_buf s') = 4096"
    using sim_claim [OF assms, of ext] by (elim exE conjE)
  obtain r t where k: "enroll_manifest_key (sim_chip_api ext) sample_prov (str ''CERT'') (str ''KEY'') s' = (r, t)" by fastforce
  have "r = Ok (str ''abcd'', replicate 32 0xd7)" using sim_key_hop [OF s', of ext "str ''CERT''" "str ''KEY''"] k by simp
  with c k show ?thesis by (simp add: meshanics_enroll_def enrolled_identity_def del: str_Cons)
qed

lemma sim_enroll_result:
  "meshanics_enroll (sim_chip_api ext) (Some sample_prov) True (enroll_start (sample_chip [claim_answer, key_answer]))
   = (Ok enrolled_identity, snd (meshanics_enroll (sim_chip_api ext) (Some sample_prov) True
       (enroll_start (sample_chip [claim_answer, key_answer]))))"
  unfolding prod_eq_iff by (simp add: sim_enrolled enroll_start_def sample_chip_def)

theorem enroll_identity_complete_witness:
  "identity_ok enrolled_identity
    \<and> (\<exists>b pem. http_body (resp_buf (snd (meshanics_enroll (sim_chip_api ()) (Some sample_prov) True
          (enroll_start (sample_chip [claim_answer, key_answer]))))) = (200, Some b)
        \<and> field_of b (str ''key_id'') KEYID_CAP = Some (key_id enrolled_identity)
        \<and> field_of b (str ''public_key_pem'') 256 = Some pem
        \<and> claim_ed25519_pub_from_pem (Some pem) True = Some (manifest_pub enrolled_identity))"
  using enroll_identity_complete [OF sim_chip_pem_ok sim_enroll_result [of "()"]] by (elim conjE) (intro conjI)

theorem enroll_releases_credentials_witness:
  "sim_creds_of (world (snd (meshanics_enroll (sim_chip_api ()) (Some sample_prov) True
     (enroll_start (sample_chip [claim_answer, key_answer]))))) = {}"
  unfolding enroll_releases_credentials [OF sim_chip_creds_ok sim_chip_frames(4-7) sim_enroll_result]
  by (simp add: enroll_start_def sample_chip_def sim_creds_of_def)

end
