(* ===== verification/Agent.thy ===== *)
theory Agent
  imports Manifest_Wire Enroll Applog
begin

text \<open>
  The agent, \<^verbatim>\<open>lib/meshanics_agent.c\<close> and \<^verbatim>\<open>include/meshanics/agent.h\<close>: the update poll, the boot-confirm state
  machine, the status server, the log shipping, and the thread that drives them. Build-time configuration, the rest of
  Zephyr's sockets, the reset cause, the clock and the Ed25519 check are parameters; the application's callbacks are part
  of the configuration, as functions of the world (their \<open>user\<close> argument is absorbed). The log ring is read from the world,
  since the logging thread fills it. A step of the agent returns, reboots the device, or has no defined result.
\<close>

section \<open>The public types\<close>

datatype meshanics_status =
  MESHANICS_OK | MESHANICS_ERR_CONFIG | MESHANICS_ERR_NETWORK | MESHANICS_ERR_ENROLL | MESHANICS_ERR_STATE | MESHANICS_ERR_NOMEM

datatype meshanics_state =
  MESHANICS_STATE_BOOT | MESHANICS_STATE_CONNECTING | MESHANICS_STATE_ENROLLING | MESHANICS_STATE_ONLINE
  | MESHANICS_STATE_UPDATING | MESHANICS_STATE_OFFLINE

record 'w meshanics_config =
  firmware_version :: "byte list option"
  on_state :: "(meshanics_state \<Rightarrow> 'w \<Rightarrow> 'w) option"
  health :: "('w \<Rightarrow> bool \<times> 'w) option"

section \<open>The external calls and the static state\<close>

record ('w, 'c, 'h, 'k, 'q) agent_api = "('w, 'c, 'h, 'k, 'q) dev_api" +
  CONFIG_MESHANICS_FW_VERSION :: "byte list"
  CONFIG_BOARD :: "byte list"
  POLL_TICKS :: nat
  HTTP_PORT :: u16
  CONFIG_MESHANICS_LOG_BUF_SIZE :: nat
  MESHANICS_PROVISIONING :: "meshanics_provisioning option"
  char_signed :: bool
  ED25519_verify :: ed25519_fn
  RESET_POR :: u32
  RESET_PIN :: u32
  RESET_SOFTWARE :: u32
  RESET_WATCHDOG :: u32
  RESET_BROWNOUT :: u32
  hwinfo_get_reset_cause :: "'w \<Rightarrow> int \<times> u32 \<times> 'w"
  k_uptime_get :: "'w \<Rightarrow> nat \<times> 'w"
  zsock_bind :: "int \<Rightarrow> u16 \<Rightarrow> 'w \<Rightarrow> int \<times> 'w"
  zsock_listen :: "int \<Rightarrow> nat \<Rightarrow> 'w \<Rightarrow> int \<times> 'w"
  zsock_poll :: "int \<Rightarrow> 'w \<Rightarrow> (int \<times> bool) \<times> 'w"
  zsock_accept :: "int \<Rightarrow> 'w \<Rightarrow> int \<times> 'w"
  zsock_getsockname :: "int \<Rightarrow> 'w \<Rightarrow> u32 option \<times> 'w"
  zsock_inet_ntop :: "u32 \<Rightarrow> byte list"
  log_ring :: "'w \<Rightarrow> ring_buf"

record 'w agent_state = "'w enroll_state" +
  self_cfg :: "'w meshanics_config"
  version :: "byte list option"
  state :: meshanics_state
  started :: bool
  ident :: meshanics_identity
  pinned :: md_pinned_key
  requests_served :: u32

text \<open>How a piece of the agent ends: with a result, in a reboot, or not defined (an access outside an object, or no return).\<close>

datatype ('r, 's) run = Returned 'r 's | Rebooted 's | Undefined

definition MANIFEST_BUF :: nat where "MANIFEST_BUF = 1024"

definition set_state ::
  "meshanics_state \<Rightarrow> ('w, 'y) agent_state_scheme \<Rightarrow> ('w, 'y) agent_state_scheme" where
  "set_state st s =
     (let s = s\<lparr>state := st\<rparr> in
      case on_state (self_cfg s) of None \<Rightarrow> s | Some f \<Rightarrow> s\<lparr>world := f st (world s)\<rparr>)"

section \<open>The update poll\<close>

definition poll_once ::
  "('w, 'c, 'h, 'k, 'q, 'x) agent_api_scheme \<Rightarrow> ('w, 'y) agent_state_scheme
     \<Rightarrow> (unit, ('w, 'y) agent_state_scheme) run" where
  "poll_once api s =
     (let ((n, buf), s) = plat_fetch_manifest api MANIFEST_BUF s in
      if n \<le> 0 then Returned () s
      else case md_verify (ED25519_verify api) (pinned s) buf (nat n) of
        Oob \<Rightarrow> Undefined
      | Fail r \<Rightarrow> Returned () s
      | Ok m \<Rightarrow>
          let (applied, s) = plat_applied_counter api s in
          if \<not> md_check_rollback applied (rollback_counter m) then Returned () s
          else let (failed, s) = plat_failed_counter api s in
          if rollback_counter m = failed then Returned () s
          else case load_slice buf (sha256 m) 64 :: (unit, byte list) cres of
            Oob \<Rightarrow> Undefined | Fail _ \<Rightarrow> Undefined
          | Ok sha \<Rightarrow>
              let s = set_state MESHANICS_STATE_UPDATING s in
              case plat_stage_image api (Some (sha @ [0])) (size_bytes m) s of
                None \<Rightarrow> Undefined
              | Some (rc, s) \<Rightarrow>
                  if rc \<noteq> 0 then Returned () (set_state MESHANICS_STATE_ONLINE s)
                  else let vl = (if sl_len (artifact_version m) < 31 then sl_len (artifact_version m) else 31) in
                  case load_slice buf (artifact_version m) vl :: (unit, byte list) cres of
                    Oob \<Rightarrow> Undefined | Fail _ \<Rightarrow> Undefined
                  | Ok ver \<Rightarrow>
                      let (_, s) = plat_store_attempted_version api (Some (cstr ver)) s;
                          (r, s) = plat_commit_and_reboot api (rollback_counter m) s
                      in case r of None \<Rightarrow> Rebooted s
                         | Some _ \<Rightarrow> Returned () (set_state MESHANICS_STATE_ONLINE s))"

section \<open>Boot-confirm\<close>

text \<open>The actions of the plan, each guarded by its flag, in the order of the source.\<close>

definition boot_confirm_act ::
  "('w, 'c, 'h, 'k, 'q, 'x) agent_api_scheme \<Rightarrow> ota_boot_action \<Rightarrow> ('w, 'y) agent_state_scheme
     \<Rightarrow> ('w, 'y) agent_state_scheme" where
  "boot_confirm_act api act s =
     (let s = (if confirm act then snd (plat_confirm_image api s) else s);
          s = (if promote act
               then snd (plat_clear_attempted_version api (snd (plat_store_counter api (new_applied act) s))) else s);
          s = (if clear_pending act then snd (plat_clear_pending api s) else s);
          s = (if record_failed act then snd (plat_store_failed api (failed_counter act) s) else s);
          s = (if clear_failed act
               then snd (plat_clear_attempted_version api (snd (plat_clear_failed api s))) else s)
      in s)"

definition boot_confirm ::
  "('w, 'c, 'h, 'k, 'q, 'x) agent_api_scheme \<Rightarrow> bool \<Rightarrow> ('w, 'y) agent_state_scheme
     \<Rightarrow> (unit, ('w, 'y) agent_state_scheme) run" where
  "boot_confirm api net_ok s =
     (let (confirmed, s) = plat_image_confirmed api s in
      if net_ok
      then let (applied, s) = plat_applied_counter api s;
               (pending, s) = plat_pending_counter api s
           in Returned () (boot_confirm_act api (ota_plan_boot (confirmed = 1) applied pending) s)
      else if confirmed = 0
      then (case plat_reboot s of (None, s) \<Rightarrow> Rebooted s | (Some _, s) \<Rightarrow> Returned () s)
      else Returned () s)"

section \<open>The status server\<close>

definition reset_cause_str :: "('w, 'c, 'h, 'k, 'q, 'x) agent_api_scheme \<Rightarrow> 'w \<Rightarrow> byte list \<times> 'w" where
  "reset_cause_str api w =
     (let (rc, cause, w) = hwinfo_get_reset_cause api w in
      (if rc \<noteq> 0 then str ''unknown''
       else if cause AND RESET_POR api \<noteq> 0 then str ''power-on''
       else if cause AND RESET_PIN api \<noteq> 0 then str ''pin''
       else if cause AND RESET_SOFTWARE api \<noteq> 0 then str ''software''
       else if cause AND RESET_WATCHDOG api \<noteq> 0 then str ''watchdog''
       else if cause AND RESET_BROWNOUT api \<noteq> 0 then str ''brownout''
       else if cause \<noteq> 0 then str ''other'' else str ''none'', w))"

definition device_id_hex :: "('w, 'c, 'h, 'k, 'q, 'x) agent_api_scheme \<Rightarrow> nat \<Rightarrow> 'w \<Rightarrow> byte list \<times> 'w" where
  "device_id_hex api cap w = (let (bs, w) = hwid api 16 w in (hex_loop cap bs [], w))"

definition status_text ::
  "byte list \<Rightarrow> byte list \<Rightarrow> nat \<Rightarrow> u64 \<Rightarrow> byte list \<Rightarrow> byte list \<Rightarrow> byte list \<Rightarrow> byte list \<Rightarrow> u32 \<Rightarrow> byte list" where
  \<open>status_text ver board uptime counter cause idhex ip kid served =
     str ''{"service":"meshanics-mcu-agent","version":"'' @ ver @ str ''","board":"'' @ board
     @ str ''","uptime_seconds":'' @ dec uptime @ str '',"applied_counter":'' @ dec (unat counter)
     @ str '',"reset_cause":"'' @ cause @ str ''","device_id":"'' @ idhex @ str ''","ip":"'' @ ip
     @ str ''","key_id":"'' @ kid @ str ''","requests_served":'' @ dec (unat served) @ str ''}'' @ [10]\<close>

text \<open>The text \<open>snprintf\<close> formats, whose length is the result; the buffer holds it when it fits.\<close>

definition build_status ::
  "('w, 'c, 'h, 'k, 'q, 'x) agent_api_scheme \<Rightarrow> byte list \<Rightarrow> ('w, 'y) agent_state_scheme
     \<Rightarrow> byte list \<times> ('w, 'y) agent_state_scheme" where
  "build_status api ip s =
     (let (idhex, w) = device_id_hex api 40 (world s);
          (up, w) = k_uptime_get api w;
          (applied, s) = plat_applied_counter api (s\<lparr>world := w\<rparr>);
          (cause, w) = reset_cause_str api (world s);
          s = s\<lparr>world := w\<rparr>
      in (status_text (case version s of None \<Rightarrow> [] | Some v \<Rightarrow> v) (CONFIG_BOARD api) (up div 1000) applied cause idhex ip
            (pk_key_id (pinned s)) (requests_served s), s))"

definition http_listen :: "('w, 'c, 'h, 'k, 'q, 'x) agent_api_scheme \<Rightarrow> 'w \<Rightarrow> int \<times> 'w" where
  "http_listen api w =
     (let (fd, w) = zsock_socket api False w in
      if fd < 0 then (-1, w)
      else let w = zsock_setsockopt api fd (SO_REUSEADDR 1) w;
               (rc, w) = zsock_bind api fd (HTTP_PORT api) w in
      if rc < 0 then (-1, zsock_close api fd w)
      else let (rc, w) = zsock_listen api fd 2 w in
      if rc < 0 then (-1, zsock_close api fd w) else (fd, w))"

definition status_response :: "byte list \<Rightarrow> byte list" where
  "status_response body =
     str ''HTTP/1.1 200 OK'' @ [13, 10] @ str ''Content-Type: application/json'' @ [13, 10] @ str ''Content-Length: ''
     @ dec (length body) @ [13, 10] @ str ''Connection: close'' @ CRLF2 @ body"

text \<open>One accepted connection: the address, the drained request, the count, the answer, the close.\<close>

definition http_serve_one ::
  "('w, 'c, 'h, 'k, 'q, 'x) agent_api_scheme \<Rightarrow> int \<Rightarrow> ('w, 'y) agent_state_scheme \<Rightarrow> ('w, 'y) agent_state_scheme" where
  "http_serve_one api c s =
     (let (local, w) = zsock_getsockname api c (world s);
          ip = (case local of None \<Rightarrow> str ''0.0.0.0'' | Some a \<Rightarrow> take 15 (zsock_inet_ntop api a));
          (_, w) = recv api c 256 w;
          s = s\<lparr>world := w, requests_served := requests_served s + 1\<rparr>;
          (body, s) = build_status api ip s;
          resp = status_response body;
          w = (if 0 < length body \<and> length body < 512 \<and> length resp < 768 then snd (zsock_send api c resp (world s)) else world s)
      in s\<lparr>world := zsock_close api c w\<rparr>)"

text \<open>The loop ends when nothing is waiting; as long as clients keep connecting it does not, which is \<open>None\<close>.\<close>

partial_function (option) http_serve_pending ::
  "('w, 'c, 'h, 'k, 'q, 'x) agent_api_scheme \<Rightarrow> int \<Rightarrow> ('w, 'y) agent_state_scheme
     \<Rightarrow> ('w, 'y) agent_state_scheme option" where
  "http_serve_pending api listener s =
     (let ((n, pollin), w) = zsock_poll api listener (world s);
          s = s\<lparr>world := w\<rparr>
      in if n > 0 \<and> pollin
         then let (c, w) = zsock_accept api listener (world s);
                  s = s\<lparr>world := w\<rparr>
              in if c < 0 then Some s else http_serve_pending api listener (http_serve_one api c s)
         else Some s)"

section \<open>Logs and identity\<close>

definition ship_logs ::
  "('w, 'c, 'h, 'k, 'q, 'x) agent_api_scheme \<Rightarrow> byte list \<Rightarrow> ('w, 'y) agent_state_scheme \<Rightarrow> ('w, 'y) agent_state_scheme" where
  "ship_logs api request_id s =
     (let logbuf = (case applog_snapshot True (CONFIG_MESHANICS_LOG_BUF_SIZE api) (log_ring api (world s)) of
            None \<Rightarrow> [] | Some bs \<Rightarrow> bs)
      in snd (plat_net_upload_logs api (Some request_id) logbuf s))"

definition pin_identity :: "('w, 'y) agent_state_scheme \<Rightarrow> ('w, 'y) agent_state_scheme" where
  "pin_identity s = s\<lparr>pinned := \<lparr>pk_pub = manifest_pub (ident s), pk_key_id = key_id (ident s)\<rparr>\<rparr>"

text \<open>The result is whether an identity is established.\<close>

definition establish_identity ::
  "('w, 'c, 'h, 'k, 'q, 'x) agent_api_scheme \<Rightarrow> meshanics_provisioning \<Rightarrow> ('w, 'y) agent_state_scheme
     \<Rightarrow> (bool, ('w, 'y) agent_state_scheme) run" where
  "establish_identity api prov s =
     (let (ex, s) = meshanics_identity_exists api s in
      if \<not> ex
      then let s = set_state MESHANICS_STATE_ENROLLING s;
               (r, s) = meshanics_enroll api (Some prov) True s
           in case r of Oob \<Rightarrow> Undefined | Fail _ \<Rightarrow> Returned False s
              | Ok i \<Rightarrow>
                  let s = s\<lparr>ident := i\<rparr>;
                      (rc, s) = meshanics_identity_save api (Some (ident s)) s
                  in if rc \<noteq> 0 then Returned False s else Returned True (pin_identity s)
      else let (r, s) = meshanics_identity_load api True s
           in case r of None \<Rightarrow> Returned False s
              | Some i \<Rightarrow> Returned True (pin_identity (s\<lparr>ident := i\<rparr>)))"

section \<open>The agent thread\<close>

text \<open>
  The credentials, the boot-confirm and the status server, once an identity is established; and the whole way up to the loop.
  \<open>None\<close> when the thread ends, otherwise the listener (negative when there is none).
\<close>

definition agent_online ::
  "('w, 'c, 'h, 'k, 'q, 'x) agent_api_scheme \<Rightarrow> meshanics_provisioning \<Rightarrow> ('w, 'y) agent_state_scheme
     \<Rightarrow> (int option, ('w, 'y) agent_state_scheme) run" where
  "agent_online api prov s =
     (let (rc, s) = plat_net_set_identity api (Some prov) (Some (ident s)) s in
      if rc \<noteq> 0 then Returned None (set_state MESHANICS_STATE_OFFLINE s)
      else case boot_confirm api True s of
        Rebooted s \<Rightarrow> Rebooted s | Undefined \<Rightarrow> Undefined
      | Returned _ s \<Rightarrow>
          let (_, s) = plat_register api s;
              (http, w) = http_listen api (world s);
              s = set_state MESHANICS_STATE_ONLINE (s\<lparr>world := w\<rparr>)
          in Returned (Some http) s)"

definition agent_boot ::
  "('w, 'c, 'h, 'k, 'q, 'x) agent_api_scheme \<Rightarrow> ('w, 'y) agent_state_scheme
     \<Rightarrow> (int option, ('w, 'y) agent_state_scheme) run" where
  "agent_boot api s =
     (let s = set_state MESHANICS_STATE_BOOT s;
          (rc, w) = psa_crypto_init api (world s);
          s = s\<lparr>world := w\<rparr>
      in if rc \<noteq> 0 then Returned None (set_state MESHANICS_STATE_OFFLINE s)
      else case meshanics_provisioning_get (MESHANICS_PROVISIONING api) of
        None \<Rightarrow> Returned None (set_state MESHANICS_STATE_OFFLINE s)
      | Some prov \<Rightarrow>
          let s = set_state MESHANICS_STATE_CONNECTING s;
              (rc, s) = plat_net_wifi_up api (Some prov) s
          in if rc \<noteq> 0
             then (case boot_confirm api False s of
                     Returned _ s \<Rightarrow> Returned None (set_state MESHANICS_STATE_OFFLINE s)
                   | Rebooted s \<Rightarrow> Rebooted s | Undefined \<Rightarrow> Undefined)
             else case establish_identity api prov s of
               Rebooted s \<Rightarrow> Rebooted s | Undefined \<Rightarrow> Undefined
             | Returned ok s \<Rightarrow>
                 if \<not> ok then Returned None (set_state MESHANICS_STATE_OFFLINE s)
                 else agent_online api prov s)"

definition self_probe ::
  "int \<Rightarrow> ('w, 'y) agent_state_scheme \<Rightarrow> bool \<times> ('w, 'y) agent_state_scheme" where
  "self_probe http s =
     (if http < 0 then (False, s)
      else case health (self_cfg s) of None \<Rightarrow> (True, s)
           | Some h \<Rightarrow> let (b, w) = h (world s) in (b, s\<lparr>world := w\<rparr>))"

text \<open>The heartbeat, the log request and the update check of one poll; \<open>True\<close> when the device is decommissioned.\<close>

definition agent_poll ::
  "('w, 'c, 'h, 'k, 'q, 'x) agent_api_scheme \<Rightarrow> int \<Rightarrow> ('w, 'y) agent_state_scheme
     \<Rightarrow> (bool, ('w, 'y) agent_state_scheme) run" where
  "agent_poll api http s =
     (let (healthy, s) = self_probe http s;
          detail = (if healthy then str ''status-server up'' else str ''health check failed'');
          (applied, s) = plat_applied_counter api s;
          ((hb, log_req), s) = plat_heartbeat api (char_signed api) (case version s of None \<Rightarrow> [] | Some v \<Rightarrow> v) applied healthy
             detail (Some 48) s
      in if hb = 0 then Returned True s
         else let s = (if hb > 0 \<and> log_req \<noteq> [] then ship_logs api log_req s else s)
              in case poll_once api s of Returned _ s \<Rightarrow> Returned False s | Rebooted s \<Rightarrow> Rebooted s | Undefined \<Rightarrow> Undefined)"

text \<open>One turn of the loop; \<open>tick\<close> is below \<open>INT_MAX\<close>, a division by a zero interval is not defined.\<close>

definition agent_tick ::
  "('w, 'c, 'h, 'k, 'q, 'x) agent_api_scheme \<Rightarrow> int \<Rightarrow> nat \<Rightarrow> ('w, 'y) agent_state_scheme
     \<Rightarrow> (bool, ('w, 'y) agent_state_scheme) run" where
  "agent_tick api http tick s =
     (case (if http \<ge> 0 then http_serve_pending api http s else Some s) of
        None \<Rightarrow> Undefined
      | Some s \<Rightarrow>
          if POLL_TICKS api = 0 then Undefined
          else case (if tick mod POLL_TICKS api = 0 then agent_poll api http s else Returned False s) of
            Rebooted s \<Rightarrow> Rebooted s | Undefined \<Rightarrow> Undefined
          | Returned True s \<Rightarrow> Returned True s
          | Returned False s \<Rightarrow> Returned False (sleep_ms api 1000 s))"

text \<open>The loop for the given number of turns; \<open>False\<close>: it is still running.\<close>

fun agent_loop ::
  "('w, 'c, 'h, 'k, 'q, 'x) agent_api_scheme \<Rightarrow> int \<Rightarrow> nat \<Rightarrow> nat \<Rightarrow> ('w, 'y) agent_state_scheme
     \<Rightarrow> (bool, ('w, 'y) agent_state_scheme) run" where
  "agent_loop api http tick 0 s = Returned False s"
| "agent_loop api http tick (Suc turns) s =
     (case agent_tick api http tick s of
        Rebooted s \<Rightarrow> Rebooted s | Undefined \<Rightarrow> Undefined
      | Returned True s \<Rightarrow> Returned True (set_state MESHANICS_STATE_OFFLINE s)
      | Returned False s \<Rightarrow> agent_loop api http (tick + 1) turns s)"

text \<open>The thread, watched for a number of turns of its loop; \<open>True\<close>: it has ended.\<close>

definition agent_main ::
  "('w, 'c, 'h, 'k, 'q, 'x) agent_api_scheme \<Rightarrow> nat \<Rightarrow> ('w, 'y) agent_state_scheme
     \<Rightarrow> (bool, ('w, 'y) agent_state_scheme) run" where
  "agent_main api turns s =
     (case agent_boot api s of
        Rebooted s \<Rightarrow> Rebooted s | Undefined \<Rightarrow> Undefined
      | Returned None s \<Rightarrow> Returned True s
      | Returned (Some http) s \<Rightarrow> agent_loop api http 0 turns s)"

section \<open>The public interface\<close>

text \<open>\<open>meshanics_agent_start\<close> up to the creation of the thread, which then runs \<open>agent_main\<close>.\<close>

definition meshanics_agent_start ::
  "('w, 'c, 'h, 'k, 'q, 'x) agent_api_scheme \<Rightarrow> 'w meshanics_config option \<Rightarrow> ('w, 'y) agent_state_scheme
     \<Rightarrow> meshanics_status \<times> ('w, 'y) agent_state_scheme" where
  "meshanics_agent_start api conf s =
     (if started s then (MESHANICS_ERR_STATE, s)
      else let s = (case conf of None \<Rightarrow> s | Some c \<Rightarrow> s\<lparr>self_cfg := c\<rparr>);
               s = s\<lparr>version := Some (case firmware_version (self_cfg s) of
                       None \<Rightarrow> CONFIG_MESHANICS_FW_VERSION api
                     | Some v \<Rightarrow> if v \<noteq> [] then v else CONFIG_MESHANICS_FW_VERSION api)\<rparr>;
               s = s\<lparr>started := True\<rparr>
           in (MESHANICS_OK, s))"

definition meshanics_report_metric :: "('w, 'y) agent_state_scheme \<Rightarrow> meshanics_status" where
  "meshanics_report_metric s = (if \<not> started s then MESHANICS_ERR_STATE else MESHANICS_OK)"

definition meshanics_agent_state :: "('w, 'y) agent_state_scheme \<Rightarrow> meshanics_state" where
  "meshanics_agent_state s = state s"

definition meshanics_agent_version ::
  "('w, 'c, 'h, 'k, 'q, 'x) agent_api_scheme \<Rightarrow> ('w, 'y) agent_state_scheme \<Rightarrow> byte list" where
  "meshanics_agent_version api s = (case version s of Some v \<Rightarrow> v | None \<Rightarrow> CONFIG_MESHANICS_FW_VERSION api)"

section \<open>What the store operations leave alone\<close>

text \<open>The store's operations change the world and the store's own statics only: everything behind them in the state stays.\<close>

lemma store_mount_more [simp]: "store_state.more (snd (store_mount api s)) = store_state.more s"
  by (simp add: store_mount_def Let_def split: prod.splits)

lemma store_read_more [simp]: "store_state.more (snd (plat_store_read api rid n s)) = store_state.more s"
  by (simp add: plat_store_read_def Let_def split_beta)

lemma store_write_more [simp]: "store_state.more (snd (plat_store_write api rid v s)) = store_state.more s"
  by (simp add: plat_store_write_def Let_def split_beta)

lemma store_delete_more [simp]: "store_state.more (snd (plat_store_delete api rid s)) = store_state.more s"
  by (simp add: plat_store_delete_def Let_def split_beta)

lemma counter_more [simp]:
  "store_state.more (snd (plat_applied_counter api s)) = store_state.more s"
  "store_state.more (snd (plat_pending_counter api s)) = store_state.more s"
  "store_state.more (snd (plat_failed_counter api s)) = store_state.more s"
  "store_state.more (snd (plat_store_counter api c s)) = store_state.more s"
  "store_state.more (snd (plat_store_pending api c s)) = store_state.more s"
  "store_state.more (snd (plat_store_failed api c s)) = store_state.more s"
  "store_state.more (snd (plat_clear_pending api s)) = store_state.more s"
  "store_state.more (snd (plat_clear_failed api s)) = store_state.more s"
  "store_state.more (snd (plat_clear_attempted_version api s)) = store_state.more s"
  "store_state.more (snd (plat_store_attempted_version api v s)) = store_state.more s"
  by (simp_all add: counter_ops read_counter_def plat_store_attempted_version_def Let_def split_beta split: option.splits)

lemma more_agent:
  assumes "store_state.more s' = store_state.more s"
  shows "self_cfg s' = self_cfg s" "pinned s' = pinned s" "cfg s' = cfg s" "ident s' = ident s" "state s' = state s"
    "version s' = version s" "started s' = started s"
  using assms by (cases s; cases s'; simp)+

lemma commit_more [simp]: "store_state.more (snd (plat_commit_and_reboot api c s)) = store_state.more s"
  by (simp add: plat_commit_and_reboot_def Let_def split_beta)

section \<open>The environment of the agent\<close>

text \<open>The remaining calls of the agent, and the application's callbacks, leave the observation \<open>f\<close> alone.\<close>

definition agent_frame :: "('w, 'c, 'h, 'k, 'q, 'x) agent_api_scheme \<Rightarrow> ('w \<Rightarrow> 'f) \<Rightarrow> bool" where
  "agent_frame api f \<longleftrightarrow>
     (\<forall>w. f (snd (snd (hwinfo_get_reset_cause api w))) = f w)
     \<and> (\<forall>w. f (snd (k_uptime_get api w)) = f w)
     \<and> (\<forall>fd port w. f (snd (zsock_bind api fd port w)) = f w)
     \<and> (\<forall>fd n w. f (snd (zsock_listen api fd n w)) = f w)
     \<and> (\<forall>fd w. f (snd (zsock_poll api fd w)) = f w)
     \<and> (\<forall>fd w. f (snd (zsock_accept api fd w)) = f w)
     \<and> (\<forall>fd w. f (snd (zsock_getsockname api fd w)) = f w)"

definition app_frame :: "'w meshanics_config \<Rightarrow> ('w \<Rightarrow> 'f) \<Rightarrow> bool" where
  "app_frame conf f \<longleftrightarrow>
     (\<forall>g. on_state conf = Some g \<longrightarrow> (\<forall>st w. f (g st w) = f w))
     \<and> (\<forall>h. health conf = Some h \<longrightarrow> (\<forall>w. f (snd (h w)) = f w))"

text \<open>All of the calls but those of the record store.\<close>

definition env_frame :: "('w, 'c, 'h, 'k, 'q, 'x) agent_api_scheme \<Rightarrow> ('w \<Rightarrow> 'f) \<Rightarrow> bool" where
  "env_frame api f \<longleftrightarrow> net_frame api f \<and> mgmt_frame api f \<and> boot_frame api f \<and> dev_frame api f \<and> key_frame api f
     \<and> agent_frame api f"

lemma set_state_sel [simp]:
  "self_cfg (set_state st s) = self_cfg s" "pinned (set_state st s) = pinned s" "cfg (set_state st s) = cfg s"
  "ident (set_state st s) = ident s" "state (set_state st s) = st" "version (set_state st s) = version s"
  by (simp_all add: set_state_def Let_def split: option.splits)

lemma set_state_same: "app_frame (self_cfg s) f \<Longrightarrow> same_store f s (set_state st s)"
  by (simp add: set_state_def Let_def app_frame_def same_store_def split: option.splits)

lemma set_state_keeps: "app_frame (self_cfg s) recs \<Longrightarrow> keeps api recs s (set_state st s)"
  by (rule same_store_keeps [OF set_state_same])

section \<open>The poll, case by case\<close>

text \<open>A manifest that passed the verifier under the pinned key.\<close>

definition authentic :: "ed25519_fn \<Rightarrow> byte list \<Rightarrow> manifest_view \<Rightarrow> bool" where
  "authentic ed pub v \<longleftrightarrow> (\<exists>body sig. ed (MD_SIGN_CONTEXT @ body) sig pub = 1 \<and> length sig = 64
     \<and> decode_body body = Some v) \<and> valid_view v"

lemma load_slice_front:
  assumes "slice_in 0 len sl" "len \<le> length mem" "n \<le> sl_len sl"
  shows "load_slice mem sl n = Ok (take n (slice_bytes mem sl))"
  using assms by (auto simp: load_slice_def slice_in_def slice_bytes_def min_def split: option.splits)

lemma verified_manifest:
  assumes "len \<le> length mem" "md_verify ed key mem len = Ok m"
  shows "authentic ed (pk_pub key) (view mem m)" "load_slice mem (sha256 m) 64 = Ok (v_sha256 (view mem m))"
    "n \<le> sl_len (artifact_version m) \<Longrightarrow> load_slice mem (artifact_version m) n = Ok (take n (v_version (view mem m)))"
    "sl_len (artifact_version m) = length (v_version (view mem m))" "v_counter (view mem m) = rollback_counter m"
    "v_size (view mem m) = size_bytes m"
proof -
  note s = md_verify_sound [OF assms]
  then show au: "authentic ed (pk_pub key) (view mem m)" unfolding authentic_def by blast
  have sl: "slice_in 0 len (sha256 m)" "slice_in 0 len (artifact_version m)" using s(2) by (auto simp: manifest_in_def)
  have l: "sl_len (sha256 m) = 64" "length (slice_bytes mem (sha256 m)) = 64"
    using au length_slice_bytes [OF sl(1) assms(1)] by (auto simp: authentic_def valid_view_def view_def)
  then show "load_slice mem (sha256 m) 64 = Ok (v_sha256 (view mem m))"
    using load_slice_in [OF sl(1) assms(1)] by (simp add: view_def)
  show "n \<le> sl_len (artifact_version m) \<Longrightarrow> load_slice mem (artifact_version m) n = Ok (take n (v_version (view mem m)))"
    using load_slice_front [OF sl(2) assms(1)] by (simp add: view_def)
  show "sl_len (artifact_version m) = length (v_version (view mem m))"
    using length_slice_bytes [OF sl(2) assms(1)] by (simp add: view_def)
qed (simp_all add: view_def)

section \<open>Starting once\<close>

text \<open>
  The agent is started at most once, and runs with a version: the first call of \<open>meshanics_agent_start\<close> succeeds, keeps the
  given configuration (or, without one, the present one) and settles the version, which is the configured text if there is one that is not empty
  and the build's otherwise; every later call, with any configuration, is refused with \<open>MESHANICS_ERR_STATE\<close> and changes
  nothing; metrics are refused exactly until the first call.
\<close>

lemma agent_starts_once:
  assumes "\<not> started s"
  shows "\<exists>s1. meshanics_agent_start api conf s = (MESHANICS_OK, s1)
    \<and> meshanics_agent_start api conf' s1 = (MESHANICS_ERR_STATE, s1)
    \<and> meshanics_report_metric s = MESHANICS_ERR_STATE \<and> meshanics_report_metric s1 = MESHANICS_OK
    \<and> self_cfg s1 = (case conf of None \<Rightarrow> self_cfg s | Some c \<Rightarrow> c)
    \<and> meshanics_agent_version api s1 = (case firmware_version (self_cfg s1) of
         Some (c # cs) \<Rightarrow> c # cs | _ \<Rightarrow> CONFIG_MESHANICS_FW_VERSION api)
    \<and> world s1 = world s \<and> state s1 = state s"
  using assms
  by (auto simp: meshanics_agent_start_def meshanics_report_metric_def meshanics_agent_version_def Let_def
      split: option.splits list.splits)

end
