(* ===== verification/Agent_Poll.thy ===== *)
theory Agent_Poll
  imports Agent
begin

text \<open>
  The update poll, \<open>poll_once\<close>: an inversion of its run (it stays idle, or stages, records and commits an authentic manifest),
  what that does to the records, and the two properties that follow: a reboot happens only for an authentic, newer manifest
  whose image is in the slot, and the poll always ends in a defined way.
\<close>

text \<open>The flash writer, the slot and the sockets behave as documented, and networking does not touch the flash.\<close>

definition fw_env :: "('w, 'c, 'h, 'x) boot_api_scheme \<Rightarrow> ('w, 'c, 'h) fw_abs \<Rightarrow> bool" where
  "fw_env api r \<longleftrightarrow> flash_img_ok api r \<and> slot_hash_ok api r \<and> sock_ok api (fa_unread r) \<and> net_frame api (fw_view r)"

text \<open>No authentic manifest names a size next to \<open>2^64\<close>.\<close>

definition sizes_ok :: "ed25519_fn \<Rightarrow> byte list \<Rightarrow> bool" where
  "sizes_ok ed pub \<longleftrightarrow> (\<forall>v. authentic ed pub v \<longrightarrow> unat (v_size v) + FW_BUF < 2 ^ 64)"

lemma fetch_manifest_more:
  "plat_fetch_manifest api cap s = (r, s') \<Longrightarrow> store_state.more s' = store_state.more s"
proof -
  assume a: "plat_fetch_manifest api cap s = (r, s')"
  have "net_frame api (\<lambda>_. ())" by (simp add: net_frame_def)
  from fetch_manifest_frame [OF this a] show ?thesis by (auto simp: only_world_def)
qed

lemma stage_image_more:
  "plat_stage_image api hex sz s = Some (rc, s') \<Longrightarrow> store_state.more s' = store_state.more s"
proof -
  assume a: "plat_stage_image api hex sz s = Some (rc, s')"
  have "net_frame api (\<lambda>_. ())" "boot_frame api (\<lambda>_. ())" by (simp_all add: net_frame_def boot_frame_def)
  from stage_image_frame [OF this a] show ?thesis by (auto simp: only_world_def)
qed

lemma fetch_manifest_length:
  "plat_fetch_manifest api cap s = ((n, mem), s') \<Longrightarrow> 0 < n \<Longrightarrow> nat n \<le> length mem"
  by (auto simp: plat_fetch_manifest_def Let_def simp del: str_Cons split: prod.splits if_splits option.splits)

lemma poll_stages:
  assumes "fw_env api r" "sizes_ok (ED25519_verify api) pub" "authentic (ED25519_verify api) pub v"
  obtains rc s' where "plat_stage_image api (Some (v_sha256 v @ [0])) (v_size v) t = Some (rc, s')"
proof -
  have hex: "64 \<le> length (v_sha256 v @ [0])" using assms(3) by (simp add: authentic_def valid_view_def)
  have szv: "unat (v_size v) + FW_BUF < 2 ^ 64" using assms(2,3) by (simp add: sizes_ok_def)
  show thesis
    by (cases rule: stage_image_cases [of api r "v_size v" "v_sha256 v @ [0]" t, case_names hy1 hy2 hy3 hy4 hy5 failed staged])
      (use assms(1) szv hex that in \<open>auto simp: fw_env_def\<close>)
qed

text \<open>The reads of a poll that has fetched something: the two counters, from records it leaves alone.\<close>

lemma poll_reads:
  assumes "net_frame api recs" "store_good api recs s" "plat_fetch_manifest api cap s = (r, s1)"
  obtains s2 s3 where "plat_applied_counter api s1 = (counter_of (records recs s) COUNTER_NVS_ID, s2)"
    "plat_failed_counter api s2 = (counter_of (records recs s) FAILED_NVS_ID, s3)"
    "\<forall>t \<in> {s1, s2, s3}. keeps api recs s t \<and> self_cfg t = self_cfg s \<and> pinned t = pinned s"
proof -
  have k1: "keeps api recs s s1" using only_world_keeps [OF fetch_manifest_frame [OF assms(1)]] assms(3) by (metis prod.collapse)
  note m1 = fetch_manifest_more [OF assms(3)]
  obtain applied s2 where ap: "plat_applied_counter api s1 = (applied, s2)" by fastforce
  obtain failed s3 where fa: "plat_failed_counter api s2 = (failed, s3)" by fastforce
  have k2: "keeps api recs s s2" using keeps_trans [OF k1 applied_keeps [OF ap]] .
  have k3: "keeps api recs s s3" using keeps_trans [OF k2 failed_keeps [OF fa]] .
  have m2: "store_state.more s2 = store_state.more s" using counter_more(1) [of api s1] m1 by (simp add: ap)
  have m3: "store_state.more s3 = store_state.more s" using counter_more(3) [of api s2] m2 by (simp add: fa)
  have g: "store_good api recs s1" "records recs s1 = records recs s" "store_good api recs s2" "records recs s2 = records recs s"
    using k1 k2 assms(2) by (simp_all add: keeps_def)
  have "applied = counter_of (records recs s) COUNTER_NVS_ID" "failed = counter_of (records recs s) FAILED_NVS_ID"
    using read_counter_good(1) [OF g(1), of COUNTER_NVS_ID] read_counter_good(1) [OF g(3), of FAILED_NVS_ID] g(2,4) ap fa
    by (simp_all add: plat_applied_counter_def plat_failed_counter_def)
  then show thesis
    using that [of s2 s3] ap fa k1 k2 k3 more_agent(1,2) [OF m1] more_agent(1,2) [OF m2] more_agent(1,2) [OF m3] by simp
qed

text \<open>A poll with a manifest it may install: what remains is staging and the commit, with the strings of the manifest.\<close>

lemma poll_accepted:
  assumes "plat_fetch_manifest api MANIFEST_BUF s = ((n, buf), s1)" "0 < n"
    and "plat_applied_counter api s1 = (applied, s2)" "plat_failed_counter api s2 = (failed, s3)" "pinned s1 = pinned s"
    and "md_verify (ED25519_verify api) (pinned s) buf (nat n) = Ok m" "applied < rollback_counter m" "rollback_counter m \<noteq> failed"
  shows "poll_once api s =
    (case plat_stage_image api (Some (v_sha256 (view buf m) @ [0])) (size_bytes m) (set_state MESHANICS_STATE_UPDATING s3) of
       None \<Rightarrow> Undefined
     | Some (rc, s) \<Rightarrow> if rc \<noteq> 0 then Returned () (set_state MESHANICS_STATE_ONLINE s)
         else let (_, s) = plat_store_attempted_version api (Some (cstr (take 31 (v_version (view buf m))))) s;
                  (r, s) = plat_commit_and_reboot api (rollback_counter m) s
              in case r of None \<Rightarrow> Rebooted s | Some _ \<Rightarrow> Returned () (set_state MESHANICS_STATE_ONLINE s))"
proof -
  note vm = verified_manifest [OF fetch_manifest_length [OF assms(1,2)] assms(6)]
  let ?vl = "if sl_len (artifact_version m) < 31 then sl_len (artifact_version m) else 31"
  have "load_slice buf (artifact_version m) ?vl = (Ok (take ?vl (v_version (view buf m))) :: (unit, byte list) cres)"
    by (rule vm(3)) simp
  moreover have "take ?vl (v_version (view buf m)) = take 31 (v_version (view buf m))" by (simp add: vm(4))
  ultimately have "load_slice buf (artifact_version m) ?vl = (Ok (take 31 (v_version (view buf m))) :: (unit, byte list) cres)"
    by simp
  then show ?thesis
    using assms
    by (cases "sl_len (artifact_version m) < 31")
      (simp_all add: poll_once_def md_check_rollback_def vm(2) Let_def split: option.split)
qed

lemma poll_once_cases:
  assumes f: "net_frame api recs" "boot_frame api recs" "app_frame (self_cfg s) recs" and good: "store_good api recs s"
    and fw: "fw_env api r" and sz: "sizes_ok (ED25519_verify api) (pk_pub (pinned s))"
  obtains (idle) s' where "poll_once api s = Returned () s'" "keeps api recs s s'"
      "self_cfg s' = self_cfg s" "pinned s' = pinned s"
  | (committed) v s1 s2 s3 s4 q q2 where "authentic (ED25519_verify api) (pk_pub (pinned s)) v"
      "counter_of (records recs s) COUNTER_NVS_ID < v_counter v" "v_counter v \<noteq> counter_of (records recs s) FAILED_NVS_ID"
      "plat_stage_image api (Some (v_sha256 v @ [0])) (v_size v) s1 = Some (0, s2)" "keeps api recs s s2"
      "plat_store_attempted_version api (Some (cstr (take 31 (v_version v)))) s2 = (q, s3)"
      "plat_commit_and_reboot api (v_counter v) s3 = (q2, s4)"
      "poll_once api s = (case q2 of None \<Rightarrow> Rebooted s4 | Some _ \<Rightarrow> Returned () (set_state MESHANICS_STATE_ONLINE s4))"
      "self_cfg s4 = self_cfg s" "pinned s4 = pinned s"
proof -
  obtain n buf s1 where fe: "plat_fetch_manifest api MANIFEST_BUF s = ((n, buf), s1)" by (metis prod.collapse)
  obtain s2 s3 where ap: "plat_applied_counter api s1 = (counter_of (records recs s) COUNTER_NVS_ID, s2)"
    and fa: "plat_failed_counter api s2 = (counter_of (records recs s) FAILED_NVS_ID, s3)"
    and k: "\<forall>t \<in> {s1, s2, s3}. keeps api recs s t \<and> self_cfg t = self_cfg s \<and> pinned t = pinned s"
    by (rule poll_reads [OF f(1) good fe])
  show thesis
  proof (cases "0 < n \<and> (\<exists>m. md_verify (ED25519_verify api) (pinned s) buf (nat n) = Ok m
      \<and> counter_of (records recs s) COUNTER_NVS_ID < rollback_counter m \<and> rollback_counter m \<noteq> counter_of (records recs s) FAILED_NVS_ID)")
    case False
    have "n \<le> 0 \<or> md_verify (ED25519_verify api) (pinned s) buf (nat n) \<noteq> Oob"
      using md_verify_no_oob [OF fetch_manifest_length [OF fe]] by (cases "0 < n") auto
    with False have "\<exists>s' \<in> {s1, s2, s3}. poll_once api s = Returned () s'"
      using k by (auto simp: poll_once_def fe ap fa md_check_rollback_def split: cres.splits)
    then show thesis using idle k by blast
  next
    case True
    then obtain m where m: "0 < n" "md_verify (ED25519_verify api) (pinned s) buf (nat n) = Ok m"
      "counter_of (records recs s) COUNTER_NVS_ID < rollback_counter m" "rollback_counter m \<noteq> counter_of (records recs s) FAILED_NVS_ID" by blast
    have "pinned s1 = pinned s" using k by simp
    note p = poll_accepted [OF fe m(1) ap fa this m(2-4)]
    note vm = verified_manifest [OF fetch_manifest_length [OF fe m(1)] m(2)]
    define t where "t = set_state MESHANICS_STATE_UPDATING s3"
    have kt: "keeps api recs s t" "self_cfg t = self_cfg s" "pinned t = pinned s"
      using keeps_trans [OF _ set_state_keeps, of api recs s s3] k f(3) by (simp_all add: t_def)
    obtain rc s4 where st: "plat_stage_image api (Some (v_sha256 (view buf m) @ [0])) (size_bytes m) t = Some (rc, s4)"
      by (rule poll_stages [OF fw sz vm(1), unfolded vm(6)])
    have k4: "keeps api recs s s4" using keeps_trans [OF kt(1) only_world_keeps [OF stage_image_frame [OF f(1,2) st]]] .
    note m4 = more_agent [OF stage_image_more [OF st]]
    obtain q s5 where at: "plat_store_attempted_version api (Some (cstr (take 31 (v_version (view buf m))))) s4 = (q, s5)" by fastforce
    obtain q2 s6 where co: "plat_commit_and_reboot api (rollback_counter m) s5 = (q2, s6)" by fastforce
    have m6: "store_state.more s6 = store_state.more s4"
      using counter_more(10) [of api _ s4] commit_more [of api "rollback_counter m" s5] by (metis at co snd_conv)
    show thesis
    proof (cases "rc = 0")
      case True
      show thesis
        by (rule committed [OF vm(1) _ _ st [unfolded True, folded vm(6)] k4 at co [folded vm(5)]])
          (use m p st True at co kt m4 more_agent [OF m6] in \<open>simp_all add: vm(5) t_def [symmetric]\<close>)
    next
      case False
      have "keeps api recs s (set_state MESHANICS_STATE_ONLINE s4)"
        by (rule keeps_trans [OF k4 set_state_keeps]) (use f(3) m4 kt in simp)
      with p st False idle m4 kt show thesis by (simp add: t_def [symmetric])
    qed
  qed
qed

text \<open>What recording the version and committing do to the records, whether they succeed or not.\<close>

lemma commit_records:
  assumes "store_good api recs s" "boot_frame api recs" "plat_commit_and_reboot api c s = (q, s')"
  shows "store_good api recs s'" "records recs s' \<in> {records recs s, (records recs s)(PENDING_NVS_ID := put_record (u64_bytes c))}"
    "q = None \<Longrightarrow> records recs s' = (records recs s)(PENDING_NVS_ID := put_record (u64_bytes c))"
proof -
  obtain p s1 where w: "plat_store_write api PENDING_NVS_ID (u64_bytes c) s = (p, s1)" by fastforce
  note g = store_write_good [OF assms(1) w]
  obtain q2 w2 where u: "boot_request_upgrade_test api (world s1) = (q2, w2)" by fastforce
  have w2: "records recs (s1\<lparr>world := w2\<rparr>) = records recs s1"
    using boot_frameD(3) [OF assms(2) u] by (simp add: records_def)
  have s': "s' = (if p = 0 then s1\<lparr>world := w2\<rparr> else s1)" "q = (if p = 0 \<and> q2 = 0 then None else Some (-1))"
    using assms(3) w u by (auto simp: plat_commit_and_reboot_def plat_store_pending_def Let_def split: if_splits)
  show "store_good api recs s'" using g(1) by (simp add: s' store_good_world)
  show "records recs s' \<in> {records recs s, (records recs s)(PENDING_NVS_ID := put_record (u64_bytes c))}"
    using g(3) w2 by (simp add: s')
  show "q = None \<Longrightarrow> records recs s' = (records recs s)(PENDING_NVS_ID := put_record (u64_bytes c))"
    using g(2) w2 by (auto simp: s' split: if_splits)
qed

lemma committed_records:
  assumes "store_good api recs s" "boot_frame api recs" "plat_store_attempted_version api (Some v) s = (p, s1)"
    "plat_commit_and_reboot api c s1 = (q, s')"
  shows "store_good api recs s'" "rid \<notin> {PENDING_NVS_ID, ATTEMPTED_VERSION_NVS_ID} \<Longrightarrow> records recs s' rid = records recs s rid"
    "counter_of (records recs s') PENDING_NVS_ID \<in> {counter_of (records recs s) PENDING_NVS_ID, c}"
    "q = None \<Longrightarrow> counter_of (records recs s') PENDING_NVS_ID = c"
proof -
  have "plat_store_write api ATTEMPTED_VERSION_NVS_ID v s = (p, s1)"
    using assms(3) by (simp add: plat_store_attempted_version_def)
  note g1 = store_write_good [OF assms(1) this]
  note g2 = commit_records [OF g1(1) assms(2,4)]
  have ids: "PENDING_NVS_ID \<noteq> ATTEMPTED_VERSION_NVS_ID" by (simp add: counter_ids)
  show "store_good api recs s'" by (rule g2(1))
  show "rid \<notin> {PENDING_NVS_ID, ATTEMPTED_VERSION_NVS_ID} \<Longrightarrow> records recs s' rid = records recs s rid"
    using g1(3) g2(2) by auto
  show "counter_of (records recs s') PENDING_NVS_ID \<in> {counter_of (records recs s) PENDING_NVS_ID, c}"
    using g1(3) g2(2) ids by auto
  show "q = None \<Longrightarrow> counter_of (records recs s') PENDING_NVS_ID = c"
    using g2(3) by simp
qed

text \<open>The store's own calls, and requesting the swap, do not touch the image in the secondary slot.\<close>

definition nvs_frame :: "('w, 'x) nvs_api_scheme \<Rightarrow> ('w \<Rightarrow> 'f) \<Rightarrow> bool" where
  "nvs_frame api f \<longleftrightarrow>
     (\<forall>fs w. f (snd (nvs_mount api fs w)) = f w)
     \<and> (\<forall>fs rid n w. f (snd (nvs_read api fs rid n w)) = f w)
     \<and> (\<forall>fs rid v w. f (snd (nvs_write api fs rid v w)) = f w)
     \<and> (\<forall>fs rid w. f (snd (nvs_delete api fs rid w)) = f w)"

definition slot_kept :: "('w, 'c, 'h, 'x) boot_api_scheme \<Rightarrow> ('w, 'c, 'h) fw_abs \<Rightarrow> bool" where
  "slot_kept api r \<longleftrightarrow> nvs_frame api (fa_slot r) \<and> (\<forall>w. fa_slot r (snd (boot_request_upgrade_test api w)) = fa_slot r w)"

lemma store_mount_frame: "nvs_frame api f \<Longrightarrow> f (world (snd (store_mount api s))) = f (world s)"
  by (simp add: store_mount_def nvs_frame_def Let_def split_beta)

lemma store_write_frame: "nvs_frame api f \<Longrightarrow> f (world (snd (plat_store_write api rid v s))) = f (world s)"
  using store_mount_frame [of api f s] by (simp add: plat_store_write_def nvs_frame_def Let_def split_beta)

lemma committed_slot:
  assumes "slot_kept api r" "plat_store_attempted_version api (Some v) s = (p, s1)" "plat_commit_and_reboot api c s1 = (q, s')"
  shows "fa_slot r (world s') = fa_slot r (world s)"
proof -
  have n: "nvs_frame api (fa_slot r)" using assms(1) by (simp add: slot_kept_def)
  have "fa_slot r (world s1) = fa_slot r (world s)"
    using store_write_frame [OF n, of ATTEMPTED_VERSION_NVS_ID v s] assms(2) by (simp add: plat_store_attempted_version_def)
  moreover have "fa_slot r (world s') = fa_slot r (world s1)"
    using store_write_frame [OF n, of PENDING_NVS_ID "u64_bytes c" s1] assms(1,3)
    by (auto simp: plat_commit_and_reboot_def plat_store_pending_def slot_kept_def Let_def split_beta split: if_splits)
  ultimately show ?thesis by simp
qed

section \<open>Properties of the poll\<close>

lemma poll_reboot_authentic:
  assumes "net_frame api recs" "boot_frame api recs" "app_frame (self_cfg s) recs" "store_good api recs s"
    and "fw_env api r" "slot_kept api r" "sizes_ok (ED25519_verify api) (pk_pub (pinned s))"
    and "poll_once api s = Rebooted s'"
  shows "\<exists>v. authentic (ED25519_verify api) (pk_pub (pinned s)) v
    \<and> counter_of (records recs s) COUNTER_NVS_ID < v_counter v
    \<and> v_counter v \<noteq> counter_of (records recs s) FAILED_NVS_ID
    \<and> hex32 (v_sha256 v @ [0]) = Ok (fa_sha r (take (unat (v_size v)) (fa_slot r (world s'))))
    \<and> counter_of (records recs s') PENDING_NVS_ID = v_counter v
    \<and> counter_of (records recs s') COUNTER_NVS_ID = counter_of (records recs s) COUNTER_NVS_ID"
proof (cases rule: poll_once_cases [OF assms(1-5,7), case_names idle committed])
  case (idle s'')
  with assms(8) show ?thesis by simp
next
  case (committed v s1 s2 s3 s4 q q2)
  from committed(8) assms(8) have q2: "q2 = None" "s4 = s'" by (auto split: option.splits)
  have g: "store_good api recs s2" "records recs s2 = records recs s" using committed(5) assms(4) by (simp_all add: keeps_def)
  note c = committed_records [OF g(1) assms(2) committed(6,7)]
  have "64 \<le> length (v_sha256 v @ [0])" "unat (v_size v) + FW_BUF < 2 ^ 64"
    using committed(1) assms(7) by (simp_all add: authentic_def valid_view_def sizes_ok_def)
  then have "hex32 (v_sha256 v @ [0]) = Ok (fa_sha r (take (unat (v_size v)) (fa_slot r (world s2))))"
    using stage_image_staged [OF _ _ _ _ _ _ committed(4)] assms(5) unfolding fw_env_def by blast
  moreover have "fa_slot r (world s') = fa_slot r (world s2)"
    using committed_slot [OF assms(6) committed(6,7)] q2 by simp
  moreover have "records recs s' COUNTER_NVS_ID = records recs s COUNTER_NVS_ID"
    using c(2) [of COUNTER_NVS_ID] q2(2) g(2) by (simp add: counter_ids)
  then have "counter_of (records recs s') COUNTER_NVS_ID = counter_of (records recs s) COUNTER_NVS_ID"
    by (simp add: counter_of_def)
  ultimately show ?thesis using committed(1-3) c(4) q2 by (intro exI [of _ v]) simp
qed



lemma poll_outcome:
  assumes "net_frame api recs" "boot_frame api recs" "app_frame (self_cfg s) recs" "store_good api recs s"
    and "fw_env api r" "sizes_ok (ED25519_verify api) (pk_pub (pinned s))"
  obtains s' where "poll_once api s \<in> {Returned () s', Rebooted s'}" "store_good api recs s'"
    "self_cfg s' = self_cfg s" "pinned s' = pinned s"
    "\<And>rid. rid \<notin> {PENDING_NVS_ID, ATTEMPTED_VERSION_NVS_ID} \<Longrightarrow> records recs s' rid = records recs s rid"
    "counter_of (records recs s') PENDING_NVS_ID = counter_of (records recs s) PENDING_NVS_ID
     \<or> (\<exists>v. authentic (ED25519_verify api) (pk_pub (pinned s)) v \<and> counter_of (records recs s) COUNTER_NVS_ID < v_counter v
          \<and> v_counter v \<noteq> counter_of (records recs s) FAILED_NVS_ID
          \<and> counter_of (records recs s') PENDING_NVS_ID = v_counter v)"
proof (cases rule: poll_once_cases [OF assms, case_names idle committed])
  case (idle s')
  then show thesis using that [of s'] assms(4) by (simp add: keeps_def)
next
  case (committed v s1 s2 s3 s4 q q2)
  have g: "store_good api recs s2" "records recs s2 = records recs s" using committed(5) assms(4) by (simp_all add: keeps_def)
  note c = committed_records [OF g(1) assms(2) committed(6,7)]
  define t where "t = (case q2 of None \<Rightarrow> s4 | Some _ \<Rightarrow> set_state MESHANICS_STATE_ONLINE s4)"
  have "keeps api recs s4 (set_state MESHANICS_STATE_ONLINE s4)"
    by (rule set_state_keeps) (simp add: committed(9) assms(3))
  then have t: "store_good api recs t" "records recs t = records recs s4"
    using c(1) by (auto simp: t_def keeps_def split: option.splits)
  have p: "counter_of (records recs t) PENDING_NVS_ID \<in> {counter_of (records recs s) PENDING_NVS_ID, v_counter v}"
    using c(3) g(2) t(2) by simp
  show thesis
  proof (rule that [of t])
    show "poll_once api s \<in> {Returned () t, Rebooted t}" using committed(8) by (auto simp: t_def split: option.splits)
    show "self_cfg t = self_cfg s" "pinned t = pinned s" using committed(9,10) by (auto simp: t_def split: option.splits)
    show "records recs t rid = records recs s rid" if "rid \<notin> {PENDING_NVS_ID, ATTEMPTED_VERSION_NVS_ID}" for rid
      using c(2) [OF that] g(2) t(2) by simp
    show "counter_of (records recs t) PENDING_NVS_ID = counter_of (records recs s) PENDING_NVS_ID
     \<or> (\<exists>v. authentic (ED25519_verify api) (pk_pub (pinned s)) v \<and> counter_of (records recs s) COUNTER_NVS_ID < v_counter v
          \<and> v_counter v \<noteq> counter_of (records recs s) FAILED_NVS_ID
          \<and> counter_of (records recs t) PENDING_NVS_ID = v_counter v)"
      using p committed(1-3) by blast
  qed (rule t(1))
qed

text \<open>
  A poll always comes to an end, and never by an access outside an object: whatever the server answers it returns or
  reboots the device, with the applied and the failed counter as they were.
\<close>

lemma poll_always_defined:
  assumes "net_frame api recs" "boot_frame api recs" "app_frame (self_cfg s) recs" "store_good api recs s"
    and "fw_env api r" "sizes_ok (ED25519_verify api) (pk_pub (pinned s))"
  shows "\<exists>s'. poll_once api s \<in> {Returned () s', Rebooted s'}
    \<and> counter_of (records recs s') COUNTER_NVS_ID = counter_of (records recs s) COUNTER_NVS_ID
    \<and> counter_of (records recs s') FAILED_NVS_ID = counter_of (records recs s) FAILED_NVS_ID"
proof (rule poll_outcome [OF assms])
  fix s'
  assume s': "poll_once api s \<in> {Returned () s', Rebooted s'}"
    "\<And>rid. rid \<notin> {PENDING_NVS_ID, ATTEMPTED_VERSION_NVS_ID} \<Longrightarrow> records recs s' rid = records recs s rid"
  have "records recs s' COUNTER_NVS_ID = records recs s COUNTER_NVS_ID" "records recs s' FAILED_NVS_ID = records recs s FAILED_NVS_ID"
    by (rule s'(2); simp add: counter_ids)+
  with s'(1) show ?thesis by (intro exI [of _ s']) (simp add: counter_of_def)
qed

end
