(* ===== verification/Agent_Boot.thy ===== *)
theory Agent_Boot
  imports Agent
begin

text \<open>
  The boot-confirm state machine, \<open>boot_confirm\<close>: an abstract specification over four cells, the refinement under a store
  whose writes succeed, and what remains true when any write may fail.
\<close>

section \<open>The boot-confirm state machine\<close>

text \<open>The abstract specification: four cells, and what a boot with a working network does to them.\<close>

record boot_slots =
  slot_applied :: u64
  slot_pending :: u64
  slot_failed :: u64
  slot_attempted :: "byte list option"

definition slots_of :: "(u16 \<Rightarrow> byte list option) \<Rightarrow> boot_slots" where
  "slots_of m = \<lparr>slot_applied = counter_of m COUNTER_NVS_ID, slot_pending = counter_of m PENDING_NVS_ID,
     slot_failed = counter_of m FAILED_NVS_ID, slot_attempted = m ATTEMPTED_VERSION_NVS_ID\<rparr>"

definition boot_spec :: "bool \<Rightarrow> boot_slots \<Rightarrow> boot_slots" where
  "boot_spec confirmed c =
     (if \<not> confirmed \<and> slot_applied c < slot_pending c
      then \<lparr>slot_applied = slot_pending c, slot_pending = 0, slot_failed = 0, slot_attempted = None\<rparr>
      else if confirmed \<and> slot_pending c \<noteq> 0 then c\<lparr>slot_pending := 0, slot_failed := slot_pending c\<rparr>
      else c\<lparr>slot_pending := 0\<rparr>)"

text \<open>A store whose writes and deletions succeed.\<close>

definition writes_ok :: "('w, 'x) nvs_api_scheme \<Rightarrow> bool" where
  "writes_ok api \<longleftrightarrow> (\<forall>fs rid v w. fst (nvs_write api fs rid v w) \<in> {int (length v), 0})
     \<and> (\<forall>fs rid w. fst (nvs_delete api fs rid w) = 0)"

lemma reliable_write_rc:
  assumes "store_good api recs s" "writes_ok api"
  shows "fst (plat_store_write api rid v s) = 0"
proof -
  obtain t where t: "store_mount api s = (0, t)" using store_mount_good [OF assms(1)] by blast
  show ?thesis using assms(2) by (auto simp: plat_store_write_def t writes_ok_def Let_def split_beta)
qed

lemma reliable_write:
  assumes "store_good api recs s" "writes_ok api"
  shows "records recs (snd (plat_store_write api rid v s)) = (records recs s)(rid := put_record v)"
  using store_write_collapse(2) [OF assms(1) reliable_write_rc [OF assms]] .

lemma reliable_delete:
  assumes "store_good api recs s" "writes_ok api"
  shows "records recs (snd (plat_store_delete api rid s)) = (records recs s)(rid := None)"
proof -
  obtain t where t: "store_mount api s = (0, t)" using store_mount_good [OF assms(1)] by blast
  have "fst (plat_store_delete api rid s) = 0"
    using assms(2) by (auto simp: plat_store_delete_def t writes_ok_def Let_def split_beta)
  then show ?thesis using store_delete_collapse(2) [OF assms(1)] by blast
qed

lemma confirm_image_good:
  assumes "boot_frame api recs" "store_good api recs s"
  shows "store_good api recs (snd (plat_confirm_image api s))" "records recs (snd (plat_confirm_image api s)) = records recs s"
proof -
  obtain rc w where "boot_write_img_confirmed api (world s) = (rc, w)" by fastforce
  with boot_frameD(2) [OF assms(1) this] assms(2)
  show "store_good api recs (snd (plat_confirm_image api s))" "records recs (snd (plat_confirm_image api s)) = records recs s"
    by (simp_all add: plat_confirm_image_def store_good_world records_def)
qed

text \<open>What every boot does to the state before the plan is carried out.\<close>

lemma boot_confirm_plan:
  assumes "boot_frame api recs" "store_good api recs s" "boot_is_img_confirmed api (world s) = (b, w)"
  obtains t where "boot_confirm api True s = Returned () (boot_confirm_act api (ota_plan_boot b
      (counter_of (records recs s) COUNTER_NVS_ID) (counter_of (records recs s) PENDING_NVS_ID)) t)"
    "store_good api recs t" "records recs t = records recs s" "store_state.more t = store_state.more s"
proof -
  define s1 where "s1 = s\<lparr>world := w\<rparr>"
  have k1: "keeps api recs s s1" unfolding s1_def by (rule keeps_world [OF boot_frameD(1) [OF assms(1,3)]])
  obtain applied s2 where a: "plat_applied_counter api s1 = (applied, s2)" by fastforce
  obtain pending s3 where p: "plat_pending_counter api s2 = (pending, s3)" by fastforce
  note k2 = keeps_trans [OF k1 applied_keeps [OF a]]
  note k3 = keeps_trans [OF k2 pending_keeps [OF p]]
  have g: "store_good api recs s1" "records recs s1 = records recs s" "store_good api recs s2" "records recs s2 = records recs s"
    using k1 k2 assms(2) by (simp_all add: keeps_def)
  have v: "applied = counter_of (records recs s) COUNTER_NVS_ID" "pending = counter_of (records recs s) PENDING_NVS_ID"
    using read_counter_good(1) [OF g(1), of COUNTER_NVS_ID] read_counter_good(1) [OF g(3), of PENDING_NVS_ID] a p g
    by (simp_all add: plat_applied_counter_def plat_pending_counter_def)
  have m: "store_state.more s3 = store_state.more s"
    using counter_more(1) [of api s1, unfolded a] counter_more(2) [of api s2, unfolded p] by (simp add: s1_def)
  show thesis
    by (rule that [of s3])
      (use k3 assms(2) m v in \<open>simp_all add: boot_confirm_def plat_image_confirmed_def assms(3) s1_def [symmetric] a p keeps_def\<close>)
qed

lemmas store_snd_good = store_write_collapse(1) store_delete_collapse(1)

lemma boot_confirm_implements:
  assumes "boot_frame api recs" "store_good api recs s" "writes_ok api" "boot_is_img_confirmed api (world s) = (b, w)"
  shows "\<exists>s'. boot_confirm api True s = Returned () s' \<and> store_good api recs s'
    \<and> slots_of (records recs s') = boot_spec b (slots_of (records recs s))
    \<and> (\<forall>rid. rid \<notin> {COUNTER_NVS_ID, PENDING_NVS_ID, FAILED_NVS_ID, ATTEMPTED_VERSION_NVS_ID} \<longrightarrow>
         records recs s' rid = records recs s rid)"
proof (rule boot_confirm_plan [OF assms(1,2,4)])
  fix t
  let ?a = "counter_of (records recs s) COUNTER_NVS_ID" and ?p = "counter_of (records recs s) PENDING_NVS_ID"
  assume bc: "boot_confirm api True s = Returned () (boot_confirm_act api (ota_plan_boot b ?a ?p) t)"
    and t: "store_good api recs t" "records recs t = records recs s"
  let ?s = "boot_confirm_act api (ota_plan_boot b ?a ?p) t"
  note step = boot_confirm_act_def ota_plan_boot_def no_action_def Let_def counter_ops reliable_write [OF _ assms(3)]
    reliable_delete [OF _ assms(3)] store_snd_good confirm_image_good [OF assms(1)] t
  have "store_good api recs ?s \<and> slots_of (records recs ?s) = boot_spec b (slots_of (records recs s))
    \<and> (\<forall>rid. rid \<notin> {COUNTER_NVS_ID, PENDING_NVS_ID, FAILED_NVS_ID, ATTEMPTED_VERSION_NVS_ID} \<longrightarrow>
         records recs ?s rid = records recs s rid)"
  proof (cases "b \<or> ?p = 0")
    case True
    then show ?thesis by (cases "?p = 0"; cases b) (simp_all add: step slots_of_def boot_spec_def counter_ids)
  next
    case False
    then show ?thesis by (cases "?a < ?p") (simp_all add: step slots_of_def boot_spec_def counter_ids)
  qed
  with bc show ?thesis by blast
qed

text \<open>
  C6. With a store whose writes succeed, \<open>boot_confirm\<close> on a working network implements the abstract boot: a fresh image with
  a higher pending counter is promoted and clears what failed before; a confirmed image that finds a pending counter records
  it as failed; everything else only clears the pending cell. The identity and all other records are untouched.
\<close>

theorem boot_confirm_refines:
  assumes "boot_frame api recs" "store_good api recs s" "writes_ok api" "boot_is_img_confirmed api (world s) = (b, w)"
  shows "\<exists>s'. boot_confirm api True s = Returned () s' \<and> store_good api recs s'
    \<and> slots_of (records recs s') = boot_spec b (slots_of (records recs s))
    \<and> (\<forall>rid. rid \<notin> {COUNTER_NVS_ID, PENDING_NVS_ID, FAILED_NVS_ID, ATTEMPTED_VERSION_NVS_ID} \<longrightarrow>
         records recs s' rid = records recs s rid)"
  by (rule boot_confirm_implements [OF assms])

text \<open>
  C25. The result of \<open>boot_write_img_confirmed\<close> is ignored: on a fresh image the pending counter becomes the applied one and
  the pending and failed cells are cleared even when the image could not be confirmed. If the bootloader then
  reverts that image, no manifest with its counter passes the rollback check any more, so it is not installed again.
\<close>

theorem promoted_without_confirmation:
  assumes "boot_frame api recs" "store_good api recs s" "writes_ok api" "boot_is_img_confirmed api (world s) = (False, w)"
    and "\<And>w. fst (boot_write_img_confirmed api w) \<noteq> 0"
    and "counter_of (records recs s) COUNTER_NVS_ID < counter_of (records recs s) PENDING_NVS_ID"
  shows "\<exists>s'. boot_confirm api True s = Returned () s'
    \<and> counter_of (records recs s') COUNTER_NVS_ID = counter_of (records recs s) PENDING_NVS_ID
    \<and> counter_of (records recs s') PENDING_NVS_ID = 0 \<and> counter_of (records recs s') FAILED_NVS_ID = 0
    \<and> (\<forall>c \<le> counter_of (records recs s) PENDING_NVS_ID. \<not> md_check_rollback (counter_of (records recs s') COUNTER_NVS_ID) c)"
  using boot_confirm_implements [OF assms(1-4)] assms(6)
  by (auto simp: slots_of_def boot_spec_def md_check_rollback_def)

text \<open>Each store operation either takes effect or leaves the records, and keeps the store working.\<close>

lemma write_or_not:
  "store_good api recs s \<Longrightarrow> records recs (snd (plat_store_write api rid v s)) = records recs s
     \<or> records recs (snd (plat_store_write api rid v s)) = (records recs s)(rid := put_record v)"
  using store_write_collapse(3) by blast

lemma delete_or_not:
  "store_good api recs s \<Longrightarrow> records recs (snd (plat_store_delete api rid s)) = records recs s
     \<or> records recs (snd (plat_store_delete api rid s)) = (records recs s)(rid := None)"
  using store_delete_collapse(3) by blast

text \<open>What promoting, clearing and recording can leave when any of their writes may fail.\<close>

lemma promote_act:
  fixes c :: u64
  assumes g: "store_good api recs t"
  defines "s1 \<equiv> snd (plat_store_counter api c t)"
  defines "s2 \<equiv> snd (plat_clear_attempted_version api s1)"
  defines "s3 \<equiv> snd (plat_clear_pending api s2)"
  defines "s4 \<equiv> snd (plat_clear_failed api s3)"
  defines "s5 \<equiv> snd (plat_clear_attempted_version api s4)"
  shows "store_good api recs s5 \<and> counter_of (records recs s5) COUNTER_NVS_ID \<in> {counter_of (records recs t) COUNTER_NVS_ID, c}
    \<and> counter_of (records recs s5) PENDING_NVS_ID \<in> {counter_of (records recs t) PENDING_NVS_ID, 0}
    \<and> counter_of (records recs s5) FAILED_NVS_ID \<in> {counter_of (records recs t) FAILED_NVS_ID, 0}
    \<and> (\<forall>rid. rid \<notin> {COUNTER_NVS_ID, PENDING_NVS_ID, FAILED_NVS_ID, ATTEMPTED_VERSION_NVS_ID} \<longrightarrow>
         records recs s5 rid = records recs t rid)"
proof -
  have gs: "store_good api recs s1" "store_good api recs s2" "store_good api recs s3" "store_good api recs s4" "store_good api recs s5"
    using g by (simp_all add: s1_def s2_def s3_def s4_def s5_def counter_ops store_snd_good)
  note r = write_or_not [OF g, of COUNTER_NVS_ID "u64_bytes c", folded plat_store_counter_def, folded s1_def]
    delete_or_not [OF gs(1), of ATTEMPTED_VERSION_NVS_ID, folded plat_clear_attempted_version_def, folded s2_def]
    delete_or_not [OF gs(2), of PENDING_NVS_ID, folded plat_clear_pending_def, folded s3_def]
    delete_or_not [OF gs(3), of FAILED_NVS_ID, folded plat_clear_failed_def, folded s4_def]
    delete_or_not [OF gs(4), of ATTEMPTED_VERSION_NVS_ID, folded plat_clear_attempted_version_def, folded s5_def]
  show ?thesis using r gs(5) by (elim disjE) (simp_all add: counter_ids)
qed

lemma record_failed_act:
  fixes c :: u64
  assumes g: "store_good api recs t"
  defines "s1 \<equiv> snd (plat_clear_pending api t)"
  defines "s2 \<equiv> snd (plat_store_failed api c s1)"
  shows "store_good api recs s2 \<and> counter_of (records recs s2) COUNTER_NVS_ID = counter_of (records recs t) COUNTER_NVS_ID
    \<and> counter_of (records recs s2) PENDING_NVS_ID \<in> {counter_of (records recs t) PENDING_NVS_ID, 0}
    \<and> counter_of (records recs s2) FAILED_NVS_ID \<in> {counter_of (records recs t) FAILED_NVS_ID, c}
    \<and> (\<forall>rid. rid \<notin> {COUNTER_NVS_ID, PENDING_NVS_ID, FAILED_NVS_ID, ATTEMPTED_VERSION_NVS_ID} \<longrightarrow>
         records recs s2 rid = records recs t rid)"
proof -
  have gs: "store_good api recs s1" "store_good api recs s2"
    using g by (simp_all add: s1_def s2_def counter_ops store_snd_good)
  note r = delete_or_not [OF g, of PENDING_NVS_ID, folded plat_clear_pending_def, folded s1_def]
    write_or_not [OF gs(1), of FAILED_NVS_ID "u64_bytes c", folded plat_store_failed_def, folded s2_def]
  show ?thesis using r gs(2) by (elim disjE) (simp_all add: counter_ids)
qed

lemma act_more: "store_state.more (boot_confirm_act api act s) = store_state.more s"
  by (simp add: boot_confirm_act_def Let_def plat_confirm_image_def split_beta)

text \<open>What a boot may do to the records when any write may fail.\<close>

definition boot_effect ::
  "('w \<Rightarrow> u16 \<Rightarrow> byte list option) \<Rightarrow> ('w, 'y) store_state_scheme \<Rightarrow> ('w, 'z) store_state_scheme \<Rightarrow> bool" where
  "boot_effect recs s s' \<longleftrightarrow>
     (counter_of (records recs s') COUNTER_NVS_ID = counter_of (records recs s) COUNTER_NVS_ID
      \<or> counter_of (records recs s) COUNTER_NVS_ID < counter_of (records recs s) PENDING_NVS_ID
        \<and> counter_of (records recs s') COUNTER_NVS_ID = counter_of (records recs s) PENDING_NVS_ID)
     \<and> counter_of (records recs s') PENDING_NVS_ID \<in> {counter_of (records recs s) PENDING_NVS_ID, 0}
     \<and> counter_of (records recs s') FAILED_NVS_ID
          \<in> {counter_of (records recs s) FAILED_NVS_ID, counter_of (records recs s) PENDING_NVS_ID, 0}
     \<and> (\<forall>rid. rid \<notin> {COUNTER_NVS_ID, PENDING_NVS_ID, FAILED_NVS_ID, ATTEMPTED_VERSION_NVS_ID} \<longrightarrow>
          records recs s' rid = records recs s rid)"

lemma act_effect:
  fixes b :: bool
  assumes "boot_frame api recs" and t: "store_good api recs t"
  defines "a \<equiv> counter_of (records recs t) COUNTER_NVS_ID" and "p \<equiv> counter_of (records recs t) PENDING_NVS_ID"
  defines "s' \<equiv> boot_confirm_act api (ota_plan_boot b a p) t"
  shows "store_good api recs s' \<and> boot_effect recs t s'"
proof -
  define u where "u = snd (plat_confirm_image api t)"
  have u: "store_good api recs u" "records recs u = records recs t"
    using confirm_image_good [OF assms(1) t] by (simp_all add: u_def)
  have d: "store_good api recs (snd (plat_clear_pending api u))
    \<and> (records recs (snd (plat_clear_pending api u)) = records recs t
       \<or> records recs (snd (plat_clear_pending api u)) = (records recs t)(PENDING_NVS_ID := None))"
    using delete_or_not [OF u(1), of PENDING_NVS_ID] u by (simp add: plat_clear_pending_def store_snd_good)
  note defs = s'_def boot_confirm_act_def ota_plan_boot_def no_action_def Let_def u_def [symmetric]
  show ?thesis
  proof (cases b)
    case True
    show ?thesis
    proof (cases "p = 0")
      case True
      with \<open>b\<close> t show ?thesis by (simp add: defs boot_effect_def)
    next
      case False
      with \<open>b\<close> have "s' = snd (plat_store_failed api p (snd (plat_clear_pending api t)))" by (simp add: defs)
      with record_failed_act [OF t, of p] show ?thesis unfolding boot_effect_def a_def p_def by auto
    qed
  next
    case False
    show ?thesis
    proof (cases "a < p")
      case True
      then have "p \<noteq> 0" by auto
      with False True have "s' = snd (plat_clear_attempted_version api (snd (plat_clear_failed api (snd (plat_clear_pending api
          (snd (plat_clear_attempted_version api (snd (plat_store_counter api p u)))))))))" by (simp add: defs)
      with promote_act [OF u(1), of p] True show ?thesis unfolding boot_effect_def a_def p_def u(2) by auto
    next
      case na: False
      have "s' = (if p = 0 then u else snd (plat_clear_pending api u))" using False na by (simp add: defs)
      with d u show ?thesis by (auto simp: boot_effect_def counter_ids)
    qed
  qed
qed

lemma boot_confirm_outcome:
  assumes "boot_frame api recs" "store_good api recs s"
  obtains s' where "boot_confirm api True s = Returned () s'" "store_good api recs s'" "boot_effect recs s s'"
    "store_state.more s' = store_state.more s"
proof -
  obtain b w where i: "boot_is_img_confirmed api (world s) = (b, w)" by fastforce
  show thesis
  proof (rule boot_confirm_plan [OF assms i])
    fix t
    let ?act = "ota_plan_boot b (counter_of (records recs s) COUNTER_NVS_ID) (counter_of (records recs s) PENDING_NVS_ID)"
    assume bc: "boot_confirm api True s = Returned () (boot_confirm_act api ?act t)"
      and t: "store_good api recs t" "records recs t = records recs s" "store_state.more t = store_state.more s"
    show thesis
      using that [OF bc] act_effect [OF assms(1) t(1), of b] act_more [of api ?act t] t(2,3)
      by (simp add: boot_effect_def)
  qed
qed

lemma boot_confirm_offline:
  assumes "boot_frame api recs" "boot_confirm api False s = r"
  obtains s' where "r \<in> {Returned () s', Rebooted s'}" "only_world recs s s'"
proof -
  obtain b w where i: "boot_is_img_confirmed api (world s) = (b, w)" by fastforce
  have "only_world recs s (s\<lparr>world := w\<rparr>)" using boot_frameD(1) [OF assms(1) i] by blast
  then show thesis using that [of "s\<lparr>world := w\<rparr>"] assms(2)
    by (auto simp: boot_confirm_def plat_image_confirmed_def i plat_reboot_def split: if_splits)
qed

text \<open>
  C9. The anti-rollback counter never goes down at a boot, whichever of the writes fail: afterwards it is the old value or a
  strictly higher pending one, the pending cell is the old one or empty, and a failed counter can only be the old one, the
  pending one or none. No other record changes.
\<close>

theorem boot_never_lowers_counter:
  assumes "boot_frame api recs" "store_good api recs s" "boot_confirm api True s = Returned () s'"
  shows "counter_of (records recs s) COUNTER_NVS_ID \<le> counter_of (records recs s') COUNTER_NVS_ID
    \<and> boot_effect recs s s'"
proof (rule boot_confirm_outcome [OF assms(1,2)])
  fix s''
  assume "boot_confirm api True s = Returned () s''" "boot_effect recs s s''"
  with assms(3) show ?thesis by (auto simp: boot_effect_def)
qed

end
