(* ===== verification/Agent_Run.thy ===== *)
theory Agent_Run
  imports Agent_Poll Agent_Boot
begin

text \<open>
  The agent thread: what each call of it leaves alone in its state and in the record store, how an identity is established, what the
  boot phase and a turn of the loop do to the records, and that the status server and the turns come to an end.
\<close>

section \<open>What the calls of the thread leave alone in its state\<close>

lemma wifi_evt_more [simp]: "net_state.more (wifi_evt ev s) = net_state.more s"
  by (simp add: wifi_evt_def)

lemma fold_wifi_more [simp]: "net_state.more (fold wifi_evt evs s) = net_state.more s"
  by (induction evs arbitrary: s) simp_all

lemma sleep_more [simp]: "net_state.more (sleep_ms api ms s) = net_state.more s"
  by (simp add: sleep_ms_def split_beta)

lemma wifi_request_more [simp]: "net_state.more (wifi_request_loop api prov n s) = net_state.more s"
  by (induction n arbitrary: s) (simp_all add: Let_def split_beta)

lemma wifi_wait_more [simp]: "net_state.more (wifi_wait_loop api n s) = net_state.more s"
  by (induction n arbitrary: s) simp_all

lemma wifi_up_more [simp]: "net_state.more (snd (plat_net_wifi_up api prov s)) = net_state.more s"
  by (simp add: plat_net_wifi_up_def Let_def split: option.splits)

lemma set_identity_more [simp]: "net_state.more (snd (plat_net_set_identity api prov idn s)) = net_state.more s"
  by (simp add: plat_net_set_identity_def Let_def split_beta split: option.splits)

lemma net_more_enroll: "net_state.more s' = net_state.more s \<Longrightarrow> enroll_state.more s' = enroll_state.more s"
  by (cases s; cases s'; simp)

lemma enroll_more_sleep [simp]: "enroll_state.more (sleep_ms api ms s) = enroll_state.more s"
  by (rule net_more_enroll) simp

lemma retry_loop_more [simp]: "enroll_state.more (snd (https_retry_loop api tag host ip port req k n s)) = enroll_state.more s"
  by (induction k arbitrary: n s) (simp_all add: Let_def split_beta)

lemma retry_more [simp]: "enroll_state.more (snd (https_retry api tag host ip port req s)) = enroll_state.more s"
  by (simp add: https_retry_def)

lemma enroll_claim_more [simp]: "enroll_state.more (snd (enroll_claim api prov s)) = enroll_state.more s"
  by (simp add: enroll_claim_def Let_def split_beta split: option.splits)

lemma enroll_key_more [simp]: "enroll_state.more (snd (enroll_manifest_key api prov cert key s)) = enroll_state.more s"
  by (simp add: enroll_manifest_key_def Let_def split_beta split: option.splits)

lemma enroll_more [simp]: "enroll_state.more (snd (meshanics_enroll api prov nn s)) = enroll_state.more s"
proof -
  have "enroll_state.more (snd (meshanics_enroll api (Some p) True s)) = enroll_state.more s" for p
  proof -
    obtain cl s1 where c: "enroll_claim api p s = (cl, s1)" by fastforce
    have 1: "enroll_state.more s1 = enroll_state.more s" using enroll_claim_more [of api p s, unfolded c] by simp
    show ?thesis
    proof (cases cl)
      case None
      with c 1 show ?thesis by (simp add: meshanics_enroll_def)
    next
      case (Some ck)
      obtain r s2 where k: "enroll_manifest_key api p (fst ck) (snd ck) s1 = (r, s2)" by fastforce
      have "enroll_state.more s2 = enroll_state.more s1" using enroll_key_more [of api p "fst ck" "snd ck" s1, unfolded k] by simp
      with c 1 k Some show ?thesis by (cases ck) (simp add: meshanics_enroll_def split_beta split: cres.splits)
    qed
  qed
  then show ?thesis by (cases prov) (simp_all add: meshanics_enroll_def)
qed

lemma exists_more [simp]: "store_state.more (snd (plat_store_exists api rid s)) = store_state.more s"
  by (simp add: plat_store_exists_def Let_def split_beta)

lemma identity_exists_more [simp]: "store_state.more (snd (meshanics_identity_exists api s)) = store_state.more s"
  by (simp add: meshanics_identity_exists_def Let_def split_beta)

lemma load_str_more [simp]: "store_state.more (snd (load_str api rid cap s)) = store_state.more s"
  by (simp add: load_str_def Let_def split_beta)

lemma identity_load_more [simp]: "store_state.more (snd (meshanics_identity_load api nn s)) = store_state.more s"
  by (simp add: meshanics_identity_load_def Let_def split_beta split: option.splits)

lemma identity_save_more [simp]: "store_state.more (snd (meshanics_identity_save api idn s)) = store_state.more s"
  by (simp add: meshanics_identity_save_def Let_def split_beta split: option.splits)

text \<open>The fields the thread keeps for itself.\<close>

lemma net_more_agent:
  assumes "net_state.more s' = net_state.more s"
  shows "self_cfg s' = self_cfg s" "pinned s' = pinned s" "ident s' = ident s" "state s' = state s"
    "version s' = version s" "requests_served s' = requests_served s"
  using assms by (cases s; cases s'; simp)+

lemma enroll_more_agent:
  assumes "enroll_state.more s' = enroll_state.more s"
  shows "self_cfg s' = self_cfg s" "pinned s' = pinned s" "ident s' = ident s" "state s' = state s"
    "version s' = version s" "requests_served s' = requests_served s"
  using assms by (cases s; cases s'; simp)+

lemma store_more_net: "store_state.more s' = store_state.more s \<Longrightarrow> net_state.more s' = net_state.more s"
  by (cases s; cases s'; simp)

lemma attempted_more [simp]: "store_state.more (snd (plat_attempted_version api nn cap s)) = store_state.more s"
  by (simp add: plat_attempted_version_def Let_def split_beta)

lemma heartbeat_more [simp]: "store_state.more (snd (plat_heartbeat api cs av ac ph pd lc s)) = store_state.more s"
  by (simp add: plat_heartbeat_def Let_def split_beta del: str_Cons split: option.splits)

lemma only_world_more: "only_world f s s' \<Longrightarrow> store_state.more s' = store_state.more s"
  by (auto simp: only_world_def)

lemma unit_frame [simp]: "net_frame api (\<lambda>_. ())"
  by (simp add: net_frame_def)

lemma register_more [simp]: "store_state.more (snd (plat_register api s)) = store_state.more s"
  by (rule only_world_more [OF register_frame [OF unit_frame prod.collapse [symmetric]]])

lemma upload_more [simp]: "store_state.more (snd (plat_net_upload_logs api rid body s)) = store_state.more s"
  by (rule only_world_more [OF upload_logs_frame [OF unit_frame prod.collapse [symmetric]]])

section \<open>Establishing the identity\<close>

abbreviation identity_records :: "u16 set" where
  "identity_records \<equiv> {ID_CERT, ID_KEY, ID_KEYID, ID_PUB}"

definition pin_of :: "meshanics_identity \<Rightarrow> md_pinned_key" where
  "pin_of i = \<lparr>pk_pub = manifest_pub i, pk_key_id = key_id i\<rparr>"

lemma env_frameD:
  assumes "env_frame api f"
  shows "net_frame api f" "mgmt_frame api f" "boot_frame api f" "dev_frame api f" "key_neutral api f" "agent_frame api f"
  using assms key_frame_neutral by (auto simp: env_frame_def)

text \<open>A stored complete identity is loaded, without an enrollment.\<close>

lemma establish_stored:
  assumes "store_good api recs s" "holds_identity (records recs s) i" "identity_ok i"
  obtains s' where "establish_identity api prov s = Returned True s'" "ident s' = i" "pinned s' = pin_of i"
    "keeps api recs s s'" "self_cfg s' = self_cfg s" "cfg s' = cfg s"
proof -
  obtain ex s1 where e: "meshanics_identity_exists api s = (ex, s1)" by fastforce
  obtain l s2 where l: "meshanics_identity_load api True s1 = (l, s2)" by fastforce
  have ex: "ex" using exists_good(1) [OF assms(1)] assms(2) e by (simp add: holds_identity_def)
  note k1 = identity_exists_keeps [OF e, of recs]
  note k2 = keeps_trans [OF k1 identity_load_keeps [OF l]]
  have g: "store_good api recs s1" "records recs s1 = records recs s" using k1 assms(1) by (simp_all add: keeps_def)
  have li: "l = Some i" using load_good [OF g(1) _ assms(3)] assms(2) g(2) l by simp
  have m: "store_state.more s2 = store_state.more s"
    using identity_exists_more [of api s, unfolded e] identity_load_more [of api True s1, unfolded l] by simp
  let ?t = "pin_identity (s2\<lparr>ident := i\<rparr>)"
  have "keeps api recs s ?t" using k2 by (simp add: keeps_def pin_identity_def store_good_def records_def)
  then show thesis
    using that [of ?t] more_agent [OF m] ex li by (simp add: establish_identity_def e l pin_identity_def pin_of_def)
qed

text \<open>An enrollment that is persisted is stored completely; whatever happens, only the identity records change.\<close>

lemma establish_fresh:
  assumes env: "env_frame api recs" and app: "app_frame (self_cfg s) recs" and good: "store_good api recs s" and pem: "pem_ok api"
    and no: "\<not> fst (meshanics_identity_exists api s)"
  obtains (overread) "establish_identity api prov s = Undefined"
  | (failed) s' where "establish_identity api prov s = Returned False s'" "store_good api recs s'"
      "self_cfg s' = self_cfg s" "\<And>rid. rid \<notin> identity_records \<Longrightarrow> records recs s' rid = records recs s rid"
      "records recs s' ID_PUB = records recs s ID_PUB \<or> (\<exists>i. holds_identity (records recs s') i \<and> identity_ok i)"
  | (enrolled) s' where "establish_identity api prov s = Returned True s'" "store_good api recs s'"
      "self_cfg s' = self_cfg s" "\<And>rid. rid \<notin> identity_records \<Longrightarrow> records recs s' rid = records recs s rid"
      "identity_ok (ident s')" "holds_identity (records recs s') (ident s')" "pinned s' = pin_of (ident s')"
proof -
  note f = env_frameD [OF env]
  obtain ex s1 where e: "meshanics_identity_exists api s = (ex, s1)" by fastforce
  define s2 where "s2 = set_state MESHANICS_STATE_ENROLLING s1"
  obtain r s3 where en: "meshanics_enroll api (Some prov) True s2 = (r, s3)" by fastforce
  have ex: "\<not> ex" using no e by simp
  note k1 = identity_exists_keeps [OF e, of recs]
  have m1: "self_cfg s1 = self_cfg s" using more_agent(1) identity_exists_more [of api s, unfolded e] by simp
  have k2: "keeps api recs s s2" unfolding s2_def by (rule keeps_trans [OF k1 set_state_keeps]) (simp add: m1 app)
  have k3: "keeps api recs s s3" by (rule keeps_trans [OF k2 same_store_keeps [OF enroll_same [OF f(1,2,4,5) en]]])
  have g3: "store_good api recs s3" "records recs s3 = records recs s" using k3 good by (simp_all add: keeps_def)
  have m3: "self_cfg s3 = self_cfg s"
    using enroll_more_agent(1) [OF enroll_more [of api "Some prov" True s2, unfolded en snd_conv]] m1 by (simp add: s2_def)
  note D = establish_identity_def [of api prov s, unfolded e Let_def prod.case, folded s2_def, unfolded en prod.case]
  show thesis
  proof (cases r)
    case Oob
    with ex overread show thesis by (simp add: D)
  next
    case (Fail u)
    show thesis by (rule failed [of s3]) (use Fail ex g3 m3 in \<open>simp_all add: D\<close>)
  next
    case (Ok i)
    define s4 where "s4 = s3\<lparr>ident := i\<rparr>"
    obtain rc s5 where sv: "meshanics_identity_save api (Some i) s4 = (rc, s5)" by fastforce
    have iok: "identity_ok i" by (rule enroll_identity_ok [OF pem en [unfolded Ok]])
    have g4: "store_good api recs s4" "records recs s4 = records recs s"
      using g3 by (simp_all add: s4_def store_good_def records_def)
    note sg = save_good [OF g4(1) iok sv]
    note m5 = more_agent [OF identity_save_more [of api "Some i" s4, unfolded sv snd_conv]]
    have m5': "self_cfg s5 = self_cfg s" "ident s5 = i" using m5 m3 by (simp_all add: s4_def)
    have E: "establish_identity api prov s = (if rc \<noteq> 0 then Returned False s5 else Returned True (pin_identity s5))"
      using ex Ok sv by (simp add: D s4_def)
    have fr: "records recs s5 rid = records recs s rid" if "rid \<notin> identity_records" for rid using sg(4) [OF that] g4(2) by simp
    show thesis
    proof (cases "rc = 0")
      case True
      have t: "store_good api recs (pin_identity s5)" "records recs (pin_identity s5) = records recs s5"
        "pinned (pin_identity s5) = pin_of i" "ident (pin_identity s5) = i" "self_cfg (pin_identity s5) = self_cfg s"
        using sg(1) m5' by (simp_all add: pin_identity_def store_good_def records_def pin_of_def)
      show thesis by (rule enrolled [of "pin_identity s5"]) (use True E t fr iok sg(2) in auto)
    next
      case False
      have "records recs s5 ID_PUB = records recs s ID_PUB \<or> (\<exists>i. holds_identity (records recs s5) i \<and> identity_ok i)"
        using sg(3) g4(2) iok by auto
      then show thesis by (intro failed [of s5]) (use False E sg(1) m5' fr in auto)
    qed
  qed
qed

text \<open>
  C16. The identity is pinned for good: once a first boot has enrolled and persisted its identity, every later boot that finds
  the same identity records loads exactly that certificate, key and manifest-verification key, and does not enroll again,
  whatever the network does.
\<close>

theorem enrolled_identity_persists:
  assumes "env_frame api recs" "app_frame (self_cfg s) recs" "store_good api recs s" "pem_ok api"
    and "\<not> fst (meshanics_identity_exists api s)" "establish_identity api prov s = Returned True s1"
    and "store_good api recs t" "\<forall>rid \<in> identity_records. records recs t rid = records recs s1 rid"
  shows "\<exists>t'. establish_identity api prov' t = Returned True t' \<and> ident t' = ident s1 \<and> pinned t' = pinned s1
    \<and> records recs t' = records recs t"
proof (cases rule: establish_fresh [OF assms(1-5), of prov, case_names overread failed enrolled])
  case (enrolled s')
  then have s1: "s' = s1" using assms(6) by simp
  have h: "holds_identity (records recs t) (ident s1)"
    using enrolled(6) assms(8) by (simp add: s1 holds_identity_def)
  show ?thesis
    by (rule establish_stored [OF assms(7) h enrolled(5) [unfolded s1], of prov'])
      (use enrolled(7) assms(7) in \<open>auto simp: s1 keeps_def\<close>)
qed (use assms(6) in simp_all)

section \<open>The identity in memory\<close>

text \<open>The texts fit their arrays with the terminator, the manifest key has its 32 bytes.\<close>

definition identity_typed :: "meshanics_identity \<Rightarrow> bool" where
  "identity_typed i \<longleftrightarrow> 0 \<notin> set (device_cert_pem i) \<and> length (device_cert_pem i) < CERT_CAP
     \<and> 0 \<notin> set (device_key_pem i) \<and> length (device_key_pem i) < KEY_CAP
     \<and> 0 \<notin> set (key_id i) \<and> length (key_id i) < KEYID_CAP \<and> length (manifest_pub i) = 32"

lemma load_str_typed:
  assumes "store_good api recs s" "load_str api rid cap s = (r, s')"
  shows "store_good api recs s' \<and> (\<forall>t. r = Some t \<longrightarrow> 0 \<notin> set t \<and> length t < cap)"
proof (rule store_read_good [OF assms(1), of rid "cap - 1"])
  fix n bs t
  assume *: "plat_store_read api rid (cap - 1) s = ((n, bs), t)" "store_good api recs t" "records recs s rid = None \<Longrightarrow> n < 0"
    "\<And>v. records recs s rid = Some v \<Longrightarrow> n = int (length v) \<and> bs = take (cap - 1) v"
  have "length (cstr bs) \<le> length bs" by (simp add: cstr_def length_takeWhile_le)
  moreover have "length bs < cap" if "0 < n" "n < int cap"
    using *(3,4) that by (cases "records recs s rid") auto
  moreover have "0 \<notin> set (cstr bs)" by (auto simp: cstr_def dest: set_takeWhileD)
  ultimately show ?thesis using assms(2) *(1,2) by (auto simp: load_str_def split: if_splits)
qed

lemma load_typed:
  assumes "store_good api recs s" "meshanics_identity_load api True s = (Some i, s')"
  shows "identity_typed i"
proof -
  obtain c s1 where 1: "load_str api ID_CERT CERT_CAP s = (c, s1)" by fastforce
  obtain k s2 where 2: "load_str api ID_KEY KEY_CAP s1 = (k, s2)" by fastforce
  obtain d s3 where 3: "load_str api ID_KEYID KEYID_CAP s2 = (d, s3)" by fastforce
  note t1 = load_str_typed [OF assms(1) 1]
  note t2 = load_str_typed [OF conjunct1 [OF t1] 2]
  note t3 = load_str_typed [OF conjunct1 [OF t2] 3]
  show ?thesis
  proof (rule store_read_good [OF conjunct1 [OF t3], of ID_PUB 32])
    fix n bs t
    assume *: "plat_store_read api ID_PUB 32 s3 = ((n, bs), t)" "records recs s3 ID_PUB = None \<Longrightarrow> n < 0"
      "\<And>v. records recs s3 ID_PUB = Some v \<Longrightarrow> n = int (length v) \<and> bs = take 32 v"
    have "n = 32 \<Longrightarrow> length bs = 32" using *(2,3) by (cases "records recs s3 ID_PUB") auto
    then show ?thesis
      using assms(2) t1 t2 t3 *(1)
      by (auto simp: meshanics_identity_load_def 1 2 3 identity_typed_def split: option.splits if_splits)
  qed
qed

text \<open>
  C22. Whenever an identity is established, freshly enrolled or loaded from whatever the records hold, it has the shape its
  struct requires: NUL-free texts that fit their arrays, and a manifest key of exactly 32 bytes; and the pinned key is that key.
\<close>

theorem established_identity_typed:
  assumes "env_frame api recs" "app_frame (self_cfg s) recs" "store_good api recs s" "pem_ok api"
    and "establish_identity api prov s = Returned True s'"
  shows "identity_typed (ident s') \<and> pinned s' = \<lparr>pk_pub = manifest_pub (ident s'), pk_key_id = key_id (ident s')\<rparr>"
proof (cases "fst (meshanics_identity_exists api s)")
  case False
  show ?thesis
    by (cases rule: establish_fresh [OF assms(1-4) False, of prov, case_names overread failed enrolled])
      (use assms(5) in \<open>auto simp: identity_ok_def identity_typed_def pin_of_def\<close>)
next
  case True
  obtain ex s1 where e: "meshanics_identity_exists api s = (ex, s1)" by fastforce
  obtain l s2 where l: "meshanics_identity_load api True s1 = (l, s2)" by fastforce
  have g: "store_good api recs s1" using identity_exists_keeps [OF e, of recs] assms(3) by (simp add: keeps_def)
  obtain i where i: "l = Some i" "s' = pin_identity (s2\<lparr>ident := i\<rparr>)"
    using assms(5) True by (auto simp: establish_identity_def e l split: option.splits)
  show ?thesis using load_typed [OF g l [unfolded i(1)]] by (simp add: i(2) pin_identity_def)
qed

section \<open>Steps that keep the records and the identity\<close>

definition steady ::
  "('w, 'x) nvs_api_scheme \<Rightarrow> ('w \<Rightarrow> u16 \<Rightarrow> byte list option) \<Rightarrow> ('w, 'y) agent_state_scheme \<Rightarrow> ('w, 'y) agent_state_scheme \<Rightarrow> bool" where
  "steady api recs s s' \<longleftrightarrow> keeps api recs s s' \<and> self_cfg s' = self_cfg s \<and> pinned s' = pinned s \<and> ident s' = ident s"

lemma steady_refl [simp]: "steady api recs s s"
  by (simp add: steady_def)

lemma steady_trans [trans]: "steady api recs s t \<Longrightarrow> steady api recs t u \<Longrightarrow> steady api recs s u"
  by (auto simp: steady_def intro: keeps_trans)

lemma steady_net: "keeps api recs s s' \<Longrightarrow> net_state.more s' = net_state.more s \<Longrightarrow> steady api recs s s'"
  unfolding steady_def using net_more_agent [of s' s] by blast

lemma steady_store: "keeps api recs s s' \<Longrightarrow> store_state.more s' = store_state.more s \<Longrightarrow> steady api recs s s'"
  by (rule steady_net [OF _ store_more_net])

lemma steady_world: "recs w = recs (world s) \<Longrightarrow> steady api recs s (s\<lparr>world := w\<rparr>)"
  by (simp add: steady_store keeps_world)

lemma steady_state: "app_frame (self_cfg s) recs \<Longrightarrow> steady api recs s (set_state st s)"
  by (simp add: steady_def set_state_keeps)

lemma steady_app: "steady api recs s s' \<Longrightarrow> app_frame (self_cfg s) f \<Longrightarrow> app_frame (self_cfg s') f"
  by (simp add: steady_def)

lemma steady_good: "steady api recs s s' \<Longrightarrow> store_good api recs s \<Longrightarrow> store_good api recs s' \<and> records recs s' = records recs s"
  by (simp add: steady_def keeps_def)

lemma steady_wifi: "mgmt_frame api recs \<Longrightarrow> plat_net_wifi_up api prov s = (rc, s') \<Longrightarrow> steady api recs s s'"
  using wifi_up_more [of api prov s] by (simp add: steady_net wifi_up_keeps)

lemma steady_set_identity: "mgmt_frame api recs \<Longrightarrow> plat_net_set_identity api prov i s = (rc, s') \<Longrightarrow> steady api recs s s'"
  using set_identity_more [of api prov i s] by (simp add: steady_net set_identity_keeps)

lemma steady_register: "net_frame api recs \<Longrightarrow> plat_register api s = (rc, s') \<Longrightarrow> steady api recs s s'"
  using register_more [of api s] by (simp add: steady_store only_world_keeps [OF register_frame])

lemma steady_heartbeat: "net_frame api recs \<Longrightarrow> plat_heartbeat api cs av ac ph pd lc s = (r, s') \<Longrightarrow> steady api recs s s'"
  using heartbeat_more [of api cs av ac ph pd lc s] by (simp add: steady_store heartbeat_keeps)

lemma steady_logs: "net_frame api recs \<Longrightarrow> steady api recs s (ship_logs api rid s)"
  unfolding ship_logs_def Let_def
  by (intro steady_store only_world_keeps upload_logs_frame [OF _ prod.collapse [symmetric]]) simp_all

lemma steady_sleep: "mgmt_frame api recs \<Longrightarrow> steady api recs s (sleep_ms api ms s)"
  by (simp add: steady_net sleep_keeps)

lemma steady_applied: "plat_applied_counter api s = (v, s') \<Longrightarrow> steady api recs s s'"
  using counter_more(1) [of api s] by (simp add: steady_store applied_keeps)

lemma http_listen_frame:
  assumes f: "net_frame api f" "agent_frame api f" and "http_listen api w = (fd, w')"
  shows "f w' = f w"
proof -
  obtain q w1 where s: "zsock_socket api False w = (q, w1)" by fastforce
  define w2 where "w2 = zsock_setsockopt api q (SO_REUSEADDR 1) w1"
  obtain r w3 where b: "zsock_bind api q (HTTP_PORT api) w2 = (r, w3)" by fastforce
  obtain r2 w4 where l: "zsock_listen api q 2 w3 = (r2, w4)" by fastforce
  have "f w1 = f w" using f(1) s by (metis net_frame_def snd_conv)
  moreover have "f w2 = f w1" using f(1) by (simp add: net_frame_def w2_def)
  moreover have "f w3 = f w2" "f w4 = f w3" using f(2) b l by (metis agent_frame_def snd_conv)+
  ultimately show ?thesis
    using assms(3) close_frame [OF f(1)] by (auto simp: http_listen_def s w2_def [symmetric] b l split: if_splits)
qed

lemma steady_probe:
  assumes "app_frame (self_cfg s) recs" "self_probe http s = (b, s')"
  shows "steady api recs s s'"
proof (cases "http < 0 \<or> health (self_cfg s) = None")
  case True
  with assms(2) show ?thesis by (auto simp: self_probe_def split: if_splits)
next
  case False
  then obtain h where h: "health (self_cfg s) = Some h" "\<not> http < 0" by auto
  obtain c w where c: "h (world s) = (c, w)" by fastforce
  have "recs w = recs (world s)" using assms(1) h c by (metis app_frame_def snd_conv)
  with assms(2) h c show ?thesis by (auto simp: self_probe_def intro: steady_world)
qed

text \<open>One answered connection of the status server, and all of them.\<close>

lemma hwid_frame: "dev_frame api f \<Longrightarrow> hwid api n w = (bs, w') \<Longrightarrow> f w' = f w"
  by (auto simp: hwid_def split: prod.splits option.splits dest!: dev_frameD(1))

lemma steady_build_status:
  assumes env: "env_frame api recs" and b: "build_status api ip s = (body, s')"
  shows "steady api recs s s' \<and> requests_served s' = requests_served s"
proof -
  note f = env_frameD [OF env]
  obtain i w1 where d: "device_id_hex api 40 (world s) = (i, w1)" by fastforce
  obtain up w2 where u: "k_uptime_get api w1 = (up, w2)" by fastforce
  obtain ap s3 where a: "plat_applied_counter api (s\<lparr>world := w2\<rparr>) = (ap, s3)" by fastforce
  obtain cs w4 where r: "reset_cause_str api (world s3) = (cs, w4)" by fastforce
  have "recs w1 = recs (world s)"
    using d hwid_frame [OF f(4)] by (auto simp: device_id_hex_def split: prod.splits)
  moreover have "recs w2 = recs w1" using f(6) u by (metis agent_frame_def snd_conv)
  ultimately have k1: "steady api recs s (s\<lparr>world := w2\<rparr>)" by (simp add: steady_world)
  have "recs w4 = recs (world s3)"
    using f(6) r by (auto simp: reset_cause_str_def agent_frame_def Let_def split_beta)
  then have k2: "steady api recs s3 (s3\<lparr>world := w4\<rparr>)" by (rule steady_world)
  have "s' = s3\<lparr>world := w4\<rparr>" using b by (simp add: build_status_def d u a r Let_def)
  moreover have "requests_served s3 = requests_served s"
    using net_more_agent(6) [OF store_more_net [OF counter_more(1) [of api "s\<lparr>world := w2\<rparr>", unfolded a snd_conv]]] by simp
  ultimately show ?thesis using steady_trans [OF k1 steady_trans [OF steady_applied [OF a] k2]] by simp
qed

lemma steady_serve_one:
  assumes env: "env_frame api recs"
  shows "steady api recs s (http_serve_one api c s) \<and> requests_served (http_serve_one api c s) = requests_served s + 1"
proof -
  note f = env_frameD [OF env]
  obtain l w1 where g: "zsock_getsockname api c (world s) = (l, w1)" by fastforce
  obtain rq w2 where rv: "recv api c 256 w1 = (rq, w2)" by fastforce
  define ip where "ip = (case l of None \<Rightarrow> str ''0.0.0.0'' | Some a \<Rightarrow> take 15 (zsock_inet_ntop api a))"
  define s2 where "s2 = s\<lparr>world := w2, requests_served := requests_served s + 1\<rparr>"
  obtain body s3 where b: "build_status api ip s2 = (body, s3)" by fastforce
  define w3 where "w3 = (if 0 < length body \<and> length body < 512 \<and> length (status_response body) < 768
      then snd (zsock_send api c (status_response body) (world s3)) else world s3)"
  have "recs w2 = recs (world s)" using f(6) g recv_frame [OF f(1) rv] by (metis agent_frame_def snd_conv)
  then have k2: "steady api recs s s2" by (simp add: steady_def s2_def keeps_def store_good_def records_def)
  have "recs (zsock_close api c w3) = recs (world s3)"
    using f(1) by (simp add: net_frame_def w3_def)
  then have k3: "steady api recs s3 (s3\<lparr>world := zsock_close api c w3\<rparr>)" by (rule steady_world)
  have "http_serve_one api c s = s3\<lparr>world := zsock_close api c w3\<rparr>"
    unfolding http_serve_one_def g prod.case rv Let_def ip_def [symmetric] s2_def [symmetric] b w3_def [symmetric] by simp
  then show ?thesis
    using steady_trans [OF steady_trans [OF k2 conjunct1 [OF steady_build_status [OF env b]]] k3] steady_build_status [OF env b]
    by (simp add: s2_def)
qed

lemma steady_serve:
  "http_serve_pending api l s = Some s' \<Longrightarrow> env_frame api recs \<Longrightarrow> steady api recs s s'"
proof (induct rule: http_serve_pending.raw_induct [rotated, consumes 1, case_names step])
  case (step rec api l s s')
  note f = env_frameD [OF step(3)]
  obtain n p w where po: "zsock_poll api l (world s) = ((n, p), w)" by (metis prod.collapse)
  obtain c w2 where ac: "zsock_accept api l w = (c, w2)" by fastforce
  have "recs w = recs (world s)" "recs w2 = recs w" using f(6) po ac by (metis agent_frame_def snd_conv)+
  then have k: "steady api recs s (s\<lparr>world := w\<rparr>)" "steady api recs s (s\<lparr>world := w2\<rparr>)" by (simp_all add: steady_world)
  note k3 = steady_trans [OF k(2) conjunct1 [OF steady_serve_one [OF step(3), of _ c]]]
  have "s' \<in> {s\<lparr>world := w\<rparr>, s\<lparr>world := w2\<rparr>} \<or> rec api l (http_serve_one api c (s\<lparr>world := w2\<rparr>)) = Some s'"
    using step(2) by (auto simp: po ac Let_def split: if_splits)
  then show ?case using k steady_trans [OF k3 step(1) [OF _ step(3)]] by auto
qed

section \<open>The boot phase\<close>

definition counters_step ::
  "('w \<Rightarrow> u16 \<Rightarrow> byte list option) \<Rightarrow> ('w, 'y) store_state_scheme \<Rightarrow> ('w, 'z) store_state_scheme \<Rightarrow> bool" where
  "counters_step recs s s' \<longleftrightarrow>
     (counter_of (records recs s') COUNTER_NVS_ID = counter_of (records recs s) COUNTER_NVS_ID
      \<or> counter_of (records recs s) COUNTER_NVS_ID < counter_of (records recs s) PENDING_NVS_ID
        \<and> counter_of (records recs s') COUNTER_NVS_ID = counter_of (records recs s) PENDING_NVS_ID)
     \<and> counter_of (records recs s') PENDING_NVS_ID \<in> {counter_of (records recs s) PENDING_NVS_ID, 0}"

lemma identity_not_counter:
  "COUNTER_NVS_ID \<notin> identity_records" "PENDING_NVS_ID \<notin> identity_records"
  "rid \<in> identity_records \<Longrightarrow> rid \<notin> {COUNTER_NVS_ID, PENDING_NVS_ID, FAILED_NVS_ID, ATTEMPTED_VERSION_NVS_ID}"
  by (auto simp: identity_ids counter_ids)

lemma counters_step_frame:
  "(\<And>rid. rid \<notin> identity_records \<Longrightarrow> records recs s' rid = records recs s rid) \<Longrightarrow> counters_step recs s s'"
  using identity_not_counter(1,2) by (simp add: counters_step_def counter_of_def)

lemma boot_effect_step: "boot_effect recs s s' \<Longrightarrow> counters_step recs s s'"
  by (auto simp: boot_effect_def counters_step_def)

lemma counters_step_cong:
  assumes "counters_step recs t t'" "\<And>rid. rid \<notin> identity_records \<Longrightarrow> records recs t rid = records recs s rid"
    "records recs u = records recs t'"
  shows "counters_step recs s u"
  using assms(1,3) assms(2) [OF identity_not_counter(1)] assms(2) [OF identity_not_counter(2)]
  by (simp add: counters_step_def counter_of_def)

text \<open>An identity is stored completely.\<close>

definition stored :: "('w \<Rightarrow> u16 \<Rightarrow> byte list option) \<Rightarrow> ('w, 'y) store_state_scheme \<Rightarrow> meshanics_identity \<Rightarrow> bool" where
  "stored recs s i \<longleftrightarrow> holds_identity (records recs s) i \<and> identity_ok i"

lemma stored_cong: "records recs s' = records recs s \<Longrightarrow> stored recs s' i = stored recs s i"
  by (simp add: stored_def)

text \<open>
  The identity records of a device that only the agent has written: no manifest key yet, or a complete identity.
\<close>

definition whole :: "('w \<Rightarrow> u16 \<Rightarrow> byte list option) \<Rightarrow> ('w, 'y) store_state_scheme \<Rightarrow> bool" where
  "whole recs s \<longleftrightarrow> records recs s ID_PUB = None \<or> (\<exists>i. stored recs s i)"

lemma whole_cong: "records recs s' = records recs s \<Longrightarrow> whole recs s' = whole recs s"
  by (simp add: whole_def stored_def)

lemma establish_outcome:
  assumes env: "env_frame api recs" and app: "app_frame (self_cfg s) recs" and good: "store_good api recs s" and pem: "pem_ok api"
  obtains (undef) "establish_identity api prov s = Undefined" "\<And>i. \<not> stored recs s i"
  | (ret) ok s' where "establish_identity api prov s = Returned ok s'" "store_good api recs s'" "self_cfg s' = self_cfg s"
      "\<And>rid. rid \<notin> identity_records \<Longrightarrow> records recs s' rid = records recs s rid"
      "\<And>i. stored recs s i \<Longrightarrow> ok \<and> pinned s' = pin_of i \<and> records recs s' = records recs s"
      "whole recs s \<Longrightarrow> whole recs s' \<and> (ok \<longrightarrow> (\<exists>i. stored recs s' i \<and> pinned s' = pin_of i))"
proof (cases "\<exists>i. stored recs s i")
  case True
  then obtain i where i: "holds_identity (records recs s) i" "identity_ok i" by (auto simp: stored_def)
  have same: "j = i" if "stored recs s j" for j using that i by (simp add: stored_def holds_identity_def meshanics_identity.equality)
  obtain s' where e: "establish_identity api prov s = Returned True s'" "pinned s' = pin_of i" "keeps api recs s s'"
    "self_cfg s' = self_cfg s" by (rule establish_stored [OF good i, of prov])
  have r: "store_good api recs s'" "records recs s' = records recs s" using e(3) good by (simp_all add: keeps_def)
  have "stored recs s' i" using i r(2) by (simp add: stored_def)
  then show thesis using ret [OF e(1) r(1) e(4)] e(2) r(2) same by (fastforce simp: whole_def)
next
  case no: False
  show thesis
  proof (cases "fst (meshanics_identity_exists api s)")
    case False
    show thesis
    proof (cases rule: establish_fresh [OF env app good pem False, of prov, case_names overread failed enrolled])
      case overread
      then show thesis using no undef by blast
    next
      case (failed s')
      have "whole recs s'" if "whole recs s" using failed(5) that no by (auto simp: whole_def stored_def)
      then show thesis by (intro ret [OF failed(1-4)]) (use no in auto)
    next
      case (enrolled s')
      have "stored recs s' (ident s')" using enrolled(5,6) by (simp add: stored_def)
      then show thesis using no enrolled(7) by (intro ret [OF enrolled(1-4)]) (auto simp: whole_def)
    qed
  next
    case True
    obtain ex s1 where e: "meshanics_identity_exists api s = (ex, s1)" by fastforce
    obtain l s2 where l: "meshanics_identity_load api True s1 = (l, s2)" by fastforce
    note k2 = keeps_trans [OF identity_exists_keeps [OF e, of recs] identity_load_keeps [OF l]]
    have m: "store_state.more s2 = store_state.more s"
      using identity_exists_more [of api s, unfolded e] identity_load_more [of api True s1, unfolded l] by simp
    have r: "establish_identity api prov s = (case l of None \<Rightarrow> Returned False s2
        | Some i \<Rightarrow> Returned True (pin_identity (s2\<lparr>ident := i\<rparr>)))"
      using True e l by (simp add: establish_identity_def)
    have "store_good api recs s2 \<and> records recs s2 = records recs s" using k2 good by (simp add: keeps_def)
    moreover have "store_good api recs (pin_identity (s2\<lparr>ident := i\<rparr>)) = store_good api recs s2"
      "records recs (pin_identity (s2\<lparr>ident := i\<rparr>)) = records recs s2" "self_cfg (pin_identity (s2\<lparr>ident := i\<rparr>)) = self_cfg s2" for i
      by (simp_all add: pin_identity_def store_good_def records_def)
    ultimately have q: "store_good api recs t \<and> records recs t = records recs s \<and> self_cfg t = self_cfg s"
      if "establish_identity api prov s = Returned b t" for b t
      using r more_agent(1) [OF m] that by (auto split: option.splits)
    obtain b t where e: "establish_identity api prov s = Returned b t" using r by (cases l) auto
    have "\<not> whole recs s" using True no exists_good(1) [OF good] by (simp add: whole_def)
    then show thesis by (intro ret [OF e]) (use q [OF e] no in auto)
  qed
qed

text \<open>Ending the thread keeps what the state before it had.\<close>

lemma steady_offline:
  "steady api recs s t \<Longrightarrow> app_frame (self_cfg s) recs \<Longrightarrow> steady api recs s (set_state MESHANICS_STATE_OFFLINE t)"
  by (rule steady_trans [OF _ steady_state [OF steady_app]])

lemma agent_online_outcome:
  assumes env: "env_frame api recs" and app: "app_frame (self_cfg s) recs" and good: "store_good api recs s"
  obtains r s' where "agent_online api prov s = Returned r s'" "store_good api recs s'" "self_cfg s' = self_cfg s"
    "pinned s' = pinned s" "boot_effect recs s s'"
proof -
  note f = env_frameD [OF env]
  obtain ir s6 where si: "plat_net_set_identity api (Some prov) (Some (ident s)) s = (ir, s6)" by fastforce
  note k6 = steady_set_identity [OF f(2) si]
  note g6 = steady_good [OF k6 good]
  show thesis
  proof (cases "ir = 0")
    case False
    note k = steady_offline [OF k6 app]
    show thesis
      by (rule that [of None "set_state MESHANICS_STATE_OFFLINE s6"])
        (use False k steady_good [OF k good] in \<open>auto simp: agent_online_def si steady_def boot_effect_def\<close>)
  next
    case True
    obtain s7 where b: "boot_confirm api True s6 = Returned () s7" "store_good api recs s7" "boot_effect recs s6 s7"
      "store_state.more s7 = store_state.more s6" by (rule boot_confirm_outcome [OF f(3) conjunct1 [OF g6]])
    obtain rr s8 where re: "plat_register api s7 = (rr, s8)" by fastforce
    obtain h w9 where ht: "http_listen api (world s8) = (h, w9)" by fastforce
    define t where "t = set_state MESHANICS_STATE_ONLINE (s8\<lparr>world := w9\<rparr>)"
    note m7 = more_agent [OF b(4)]
    have k9: "steady api recs s7 (s8\<lparr>world := w9\<rparr>)"
      by (rule steady_trans [OF steady_register [OF f(1) re] steady_world [OF http_listen_frame [OF f(1,6) ht]]])
    have app9: "app_frame (self_cfg (s8\<lparr>world := w9\<rparr>)) recs"
      using steady_app [OF k9] m7(1) steady_app [OF k6 app] by simp
    have kt: "steady api recs s7 t" unfolding t_def by (rule steady_trans [OF k9 steady_state [OF app9]])
    note gt = steady_good [OF kt b(2)]
    show thesis
    proof (rule that [of "Some h" t])
      show "agent_online api prov s = Returned (Some h) t" using True by (simp add: agent_online_def si b(1) re ht t_def)
      show "boot_effect recs s t" using b(3) g6 gt by (simp add: boot_effect_def)
      show "self_cfg t = self_cfg s" "pinned t = pinned s" using kt m7(1,2) k6 by (simp_all add: steady_def)
    qed (use gt in simp)
  qed
qed

text \<open>Up to the network: the thread ends, the device reboots, or the identity is established next, from a state with the same records.\<close>

lemma agent_boot_connect:
  assumes env: "env_frame api recs" and app: "app_frame (self_cfg s) recs"
  obtains (ended) t where "agent_boot api s \<in> {Returned None t, Rebooted t}" "steady api recs s t"
  | (connected) prov t where "steady api recs s t" "agent_boot api s = (case establish_identity api prov t of
       Rebooted s \<Rightarrow> Rebooted s | Undefined \<Rightarrow> Undefined
     | Returned ok s \<Rightarrow> if \<not> ok then Returned None (set_state MESHANICS_STATE_OFFLINE s) else agent_online api prov s)"
proof -
  note f = env_frameD [OF env]
  define s1 where "s1 = set_state MESHANICS_STATE_BOOT s"
  obtain rc w where pc: "psa_crypto_init api (world s1) = (rc, w)" by fastforce
  define s2 where "s2 = s1\<lparr>world := w\<rparr>"
  have k2: "steady api recs s s2"
    unfolding s2_def s1_def
    by (rule steady_trans [OF steady_state [OF app] steady_world]) (use dev_frameD(2) [OF f(4) pc] in \<open>simp add: s1_def\<close>)
  note D = agent_boot_def [of api s, unfolded Let_def, folded s1_def, unfolded pc prod.case, folded s2_def]
  show thesis
  proof (cases "rc \<noteq> 0 \<or> meshanics_provisioning_get (MESHANICS_PROVISIONING api) = None")
    case True
    show thesis by (rule ended [OF _ steady_offline [OF k2 app]]) (use True in \<open>auto simp: D\<close>)
  next
    case False
    then obtain prov where prov: "rc = 0" "meshanics_provisioning_get (MESHANICS_PROVISIONING api) = Some prov" by auto
    define s3 where "s3 = set_state MESHANICS_STATE_CONNECTING s2"
    have k3: "steady api recs s s3" unfolding s3_def by (rule steady_trans [OF k2 steady_state [OF steady_app [OF k2 app]]])
    obtain wr s4 where wi: "plat_net_wifi_up api (Some prov) s3 = (wr, s4)" by fastforce
    have k4: "steady api recs s s4" by (rule steady_trans [OF k3 steady_wifi [OF f(2) wi]])
    note D2 = D [unfolded prov option.case, folded s3_def, unfolded wi prod.case]
    show thesis
    proof (cases "wr = 0")
      case False
      obtain s5 where b: "boot_confirm api False s4 \<in> {Returned () s5, Rebooted s5}" "only_world recs s4 s5"
        by (rule boot_confirm_offline [OF f(3) refl])
      have k5: "steady api recs s s5"
        by (rule steady_trans [OF k4 steady_store [OF only_world_keeps [OF b(2)] only_world_more [OF b(2)]]])
      have "agent_boot api s \<in> {Returned None (set_state MESHANICS_STATE_OFFLINE s5), Rebooted s5}"
        using b(1) False by (auto simp: D2)
      then show thesis using ended k5 steady_offline [OF k5 app] by blast
    next
      case True
      show thesis by (rule connected [OF k4, of prov]) (simp add: D2 True)
    qed
  qed
qed

lemma agent_boot_outcome:
  assumes env: "env_frame api recs" and app: "app_frame (self_cfg s) recs" and good: "store_good api recs s" and pem: "pem_ok api"
  obtains (undef) "agent_boot api s = Undefined" "\<And>i. \<not> stored recs s i"
  | (ran) r s' where "agent_boot api s \<in> {Returned r s', Rebooted s'}" "store_good api recs s'" "self_cfg s' = self_cfg s"
      "counters_step recs s s'" "\<And>i. stored recs s i \<Longrightarrow> (\<forall>rid \<in> identity_records. records recs s' rid = records recs s rid)
         \<and> (\<forall>h. agent_boot api s = Returned (Some h) s' \<longrightarrow> pinned s' = pin_of i)"
      "whole recs s \<Longrightarrow> whole recs s' \<and> (\<forall>h. agent_boot api s = Returned (Some h) s' \<longrightarrow> (\<exists>i. stored recs s' i \<and> pinned s' = pin_of i))"
proof (cases rule: agent_boot_connect [OF env app, case_names ended connected])
  case (ended t)
  note g = steady_good [OF ended(2) good]
  show thesis
    by (rule ran [of None t]) (use ended g in \<open>auto simp: steady_def whole_def stored_def intro: counters_step_frame\<close>)
next
  case (connected prov t)
  note g = steady_good [OF connected(1) good]
  have app_t: "app_frame (self_cfg t) recs" by (rule steady_app [OF connected(1) app])
  have st: "stored recs t i = stored recs s i" for i by (rule stored_cong [OF conjunct2 [OF g]])
  have cf: "self_cfg t = self_cfg s" using connected(1) by (simp add: steady_def)
  show thesis
  proof (cases rule: establish_outcome [OF env app_t conjunct1 [OF g] pem, of prov, case_names undef ret])
    case undef
    then show thesis using that(1) st by (simp add: connected(2))
  next
    case (ret ok s5)
    have fr: "records recs s5 rid = records recs s rid" if "rid \<notin> identity_records" for rid using ret(4) [OF that] g by simp
    have wh: "whole recs s5 \<and> (ok \<longrightarrow> (\<exists>i. stored recs s5 i \<and> pinned s5 = pin_of i))" if "whole recs s"
      using ret(6) that whole_cong [OF conjunct2 [OF g]] by simp
    have pin: "ok \<and> pinned s5 = pin_of i \<and> records recs s5 = records recs s" if "stored recs s i" for i
      using ret(5) [of i] that g st by simp
    show thesis
    proof (cases ok)
      case False
      let ?t = "set_state MESHANICS_STATE_OFFLINE s5"
      have k: "steady api recs s5 ?t" by (rule steady_offline) (use ret(3) app_t in simp_all)
      note gt = steady_good [OF k ret(2)]
      have cs: "counters_step recs s ?t" by (rule counters_step_frame) (use fr gt in simp)
      show thesis
        by (rule ran [OF _ _ _ cs, of None]) (use False ret(1,3) gt cf pin wh whole_cong [OF conjunct2 [OF gt]] in \<open>auto simp: connected(2)\<close>)
    next
      case True
      obtain r u where u: "agent_online api prov s5 = Returned r u" "store_good api recs u" "self_cfg u = self_cfg s5"
        "pinned u = pinned s5" "boot_effect recs s5 u"
        by (rule agent_online_outcome [OF env _ ret(2)]) (use ret(3) app_t in simp)
      have cs: "counters_step recs s u"
        by (rule counters_step_cong [OF boot_effect_step [OF u(5)]]) (use fr in simp_all)
      have ids: "records recs u rid = records recs s5 rid" if "rid \<in> identity_records" for rid
        using u(5) identity_not_counter(3) [OF that] by (simp add: boot_effect_def)
      have st5: "stored recs u i = stored recs s5 i" for i using ids by (simp add: stored_def holds_identity_def)
      have wh5: "whole recs u = whole recs s5" using ids [of ID_PUB] st5 by (simp add: whole_def)
      show thesis
        by (rule ran [OF _ u(2) _ cs, of r]) (use True ret(1,3) u cf pin ids wh st5 wh5 in \<open>auto simp: connected(2)\<close>)
    qed
  qed
qed

section \<open>A turn of the loop\<close>

text \<open>The thread runs on the configuration and with the identity it was started with.\<close>

definition turn_ok ::
  "('w, 'c, 'h, 'k, 'q, 'x) agent_api_scheme \<Rightarrow> ('w \<Rightarrow> u16 \<Rightarrow> byte list option) \<Rightarrow> ('w, 'y) agent_state_scheme
     \<Rightarrow> ('w, 'y) agent_state_scheme \<Rightarrow> bool" where
  "turn_ok api recs s s' \<longleftrightarrow> store_good api recs s' \<and> self_cfg s' = self_cfg s \<and> pinned s' = pinned s
     \<and> (\<forall>rid. rid \<notin> {PENDING_NVS_ID, ATTEMPTED_VERSION_NVS_ID} \<longrightarrow> records recs s' rid = records recs s rid)
     \<and> (counter_of (records recs s') PENDING_NVS_ID = counter_of (records recs s) PENDING_NVS_ID
        \<or> (\<exists>v. authentic (ED25519_verify api) (pk_pub (pinned s)) v \<and> counter_of (records recs s) COUNTER_NVS_ID < v_counter v
             \<and> v_counter v \<noteq> counter_of (records recs s) FAILED_NVS_ID
             \<and> counter_of (records recs s') PENDING_NVS_ID = v_counter v))"

lemma steady_turn: "steady api recs s s' \<Longrightarrow> store_good api recs s \<Longrightarrow> turn_ok api recs s s'"
  by (simp add: steady_def turn_ok_def keeps_def)

lemma turn_steady_left:
  assumes "steady api recs s t" "store_good api recs s" "turn_ok api recs t u"
  shows "turn_ok api recs s u"
  using assms(3) steady_good [OF assms(1,2)] assms(1) by (simp add: turn_ok_def steady_def)

lemma turn_steady_right:
  assumes "turn_ok api recs s t" "steady api recs t u"
  shows "turn_ok api recs s u"
  using assms(1) steady_good [OF assms(2)] assms(2) by (simp add: turn_ok_def steady_def)

lemma agent_poll_outcome:
  assumes env: "env_frame api recs" and app: "app_frame (self_cfg s) recs" and good: "store_good api recs s"
    and fw: "fw_env api r" and sz: "sizes_ok (ED25519_verify api) (pk_pub (pinned s))"
  obtains b s' where "agent_poll api http s \<in> {Returned b s', Rebooted s'}" "turn_ok api recs s s'"
proof -
  note f = env_frameD [OF env]
  obtain hl s1 where pr: "self_probe http s = (hl, s1)" by fastforce
  obtain ap s2 where pa: "plat_applied_counter api s1 = (ap, s2)" by fastforce
  let ?ver = "case version s2 of None \<Rightarrow> [] | Some v \<Rightarrow> v"
  let ?detail = "if hl then str ''status-server up'' else str ''health check failed''"
  obtain hb rq s3 where hb: "plat_heartbeat api (char_signed api) ?ver ap hl ?detail (Some 48) s2 = ((hb, rq), s3)"
    by (metis prod.collapse)
  define s4 where "s4 = (if hb > 0 \<and> rq \<noteq> [] then ship_logs api rq s3 else s3)"
  have k3: "steady api recs s s3"
    by (rule steady_trans [OF steady_probe [OF app pr] steady_trans [OF steady_applied [OF pa] steady_heartbeat [OF f(1) hb]]])
  have k4: "steady api recs s s4" unfolding s4_def using k3 steady_trans [OF k3 steady_logs [OF f(1)]] by simp
  note D = agent_poll_def [of api http s, unfolded pr Let_def prod.case pa hb, folded s4_def]
  show thesis
  proof (cases "hb = 0")
    case True
    show thesis by (rule that [of True s3]) (use True steady_turn [OF k3 good] in \<open>simp_all add: D\<close>)
  next
    case False
    have p4: "pinned s4 = pinned s" using k4 by (simp add: steady_def)
    show thesis
    proof (rule poll_outcome [OF f(1,3) steady_app [OF k4 app] conjunct1 [OF steady_good [OF k4 good]] fw])
      show "sizes_ok (ED25519_verify api) (pk_pub (pinned s4))" using sz p4 by simp
    next
      fix s'
      assume s': "poll_once api s4 \<in> {Returned () s', Rebooted s'}" "store_good api recs s'" "self_cfg s' = self_cfg s4"
        "pinned s' = pinned s4"
        "\<And>rid. rid \<notin> {PENDING_NVS_ID, ATTEMPTED_VERSION_NVS_ID} \<Longrightarrow> records recs s' rid = records recs s4 rid"
        "counter_of (records recs s') PENDING_NVS_ID = counter_of (records recs s4) PENDING_NVS_ID
         \<or> (\<exists>v. authentic (ED25519_verify api) (pk_pub (pinned s4)) v \<and> counter_of (records recs s4) COUNTER_NVS_ID < v_counter v
              \<and> v_counter v \<noteq> counter_of (records recs s4) FAILED_NVS_ID
              \<and> counter_of (records recs s') PENDING_NVS_ID = v_counter v)"
      have "turn_ok api recs s4 s'" unfolding turn_ok_def using s'(2-6) by blast
      note t = turn_steady_left [OF k4 good this]
      show thesis by (rule that [OF _ t, of False]) (use s'(1) False in \<open>auto simp: D\<close>)
    qed
  qed
qed

text \<open>A turn whose pending connections come to an end is defined, and changes of the records the pending update only.\<close>

lemma agent_tick_outcome:
  assumes env: "env_frame api recs" and app: "app_frame (self_cfg s) recs" and good: "store_good api recs s"
    and fw: "fw_env api r" and sz: "sizes_ok (ED25519_verify api) (pk_pub (pinned s))"
  obtains (undef) "agent_tick api http n s = Undefined" "POLL_TICKS api = 0 \<or> http_serve_pending api http s = None"
  | (ran) b s' where "agent_tick api http n s \<in> {Returned b s', Rebooted s'}" "turn_ok api recs s s'"
proof -
  note f = env_frameD [OF env]
  define sv where "sv = (if http \<ge> 0 then http_serve_pending api http s else Some s)"
  note D = agent_tick_def [of api http n s, folded sv_def]
  show thesis
  proof (cases "sv = None \<or> POLL_TICKS api = 0")
    case True
    show thesis by (rule undef) (use True in \<open>auto simp: D sv_def split: option.splits if_splits\<close>)
  next
    case False
    then obtain s1 where s1: "sv = Some s1" "POLL_TICKS api \<noteq> 0" by auto
    have k1: "steady api recs s s1" using steady_serve [OF _ env, of http s s1] s1(1) by (auto simp: sv_def split: if_splits)
    note g1 = conjunct1 [OF steady_good [OF k1 good]]
    show thesis
    proof (cases "n mod POLL_TICKS api = 0")
      case False
      have "turn_ok api recs s (sleep_ms api 1000 s1)"
        by (rule steady_turn [OF steady_trans [OF k1 steady_sleep [OF f(2)]] good])
      then show thesis by (intro ran [of False]) (use False s1 in \<open>simp_all add: D\<close>)
    next
      case True
      show thesis
      proof (rule agent_poll_outcome [OF env steady_app [OF k1 app] g1 fw, of http])
        show "sizes_ok (ED25519_verify api) (pk_pub (pinned s1))" using sz k1 by (simp add: steady_def)
      next
        fix b s'
        assume p: "agent_poll api http s1 \<in> {Returned b s', Rebooted s'}" and t: "turn_ok api recs s1 s'"
        note t' = turn_steady_left [OF k1 good t]
        note t2 = turn_steady_right [OF t' steady_sleep [OF f(2), of _ 1000]]
        have "agent_tick api http n s \<in> {Returned b s', Rebooted s', Returned b (sleep_ms api 1000 s')}"
          using p True s1 by (cases b) (auto simp: D)
        then show thesis using ran t' t2 by blast
      qed
    qed
  qed
qed

section \<open>The status server\<close>

text \<open>
  A listener with a finite number of waiting connections: polling reports whether there is one, accepting takes one off, and
  nothing else the server does lets new ones in.
\<close>

definition backlog_ok :: "('w, 'c, 'h, 'k, 'q, 'x) agent_api_scheme \<Rightarrow> int \<Rightarrow> ('w \<Rightarrow> nat) \<Rightarrow> bool" where
  "backlog_ok api fd waiting \<longleftrightarrow>
     (\<forall>w. case zsock_poll api fd w of ((n, pollin), w') \<Rightarrow> (n > 0 \<and> pollin \<longleftrightarrow> 0 < waiting w) \<and> waiting w' = waiting w)
     \<and> (\<forall>w. 0 < waiting w \<longrightarrow> (case zsock_accept api fd w of (c, w') \<Rightarrow> 0 \<le> c \<and> waiting w' = waiting w - 1))
     \<and> net_frame api waiting \<and> dev_frame api waiting \<and> nvs_frame api waiting
     \<and> (\<forall>w. waiting (snd (snd (hwinfo_get_reset_cause api w))) = waiting w)
     \<and> (\<forall>w. waiting (snd (k_uptime_get api w)) = waiting w)
     \<and> (\<forall>c w. waiting (snd (zsock_getsockname api c w)) = waiting w)"

lemma read_counter_frame: "nvs_frame api f \<Longrightarrow> f (world (snd (read_counter api rid s))) = f (world s)"
  using store_mount_frame [of api f s]
  by (simp add: read_counter_def plat_store_read_def nvs_frame_def Let_def split_beta)

lemma build_status_frame:
  assumes "dev_frame api f" "nvs_frame api f" "\<And>w. f (snd (snd (hwinfo_get_reset_cause api w))) = f w"
    "\<And>w. f (snd (k_uptime_get api w)) = f w"
  shows "f (world (snd (build_status api ip s))) = f (world s)"
proof -
  obtain i w1 where d: "device_id_hex api 40 (world s) = (i, w1)" by fastforce
  have "f w1 = f (world s)" using d hwid_frame [OF assms(1)] by (auto simp: device_id_hex_def split: prod.splits)
  then show ?thesis
    using assms(3,4)
    by (simp add: build_status_def d reset_cause_str_def read_counter_frame [OF assms(2)] plat_applied_counter_def Let_def split_beta)
qed

lemma serve_one_frame:
  assumes "backlog_ok api fd waiting"
  shows "waiting (world (http_serve_one api c s)) = waiting (world s)"
proof -
  note b = assms [unfolded backlog_ok_def]
  have r: "waiting (snd (recv api c n w)) = waiting w" for n w
    using recv_frame [of api waiting c n w "fst (recv api c n w)"] b by simp
  have n: "waiting (zsock_close api c w) = waiting w" "waiting (snd (zsock_send api c bs w)) = waiting w" for w bs
    using b by (simp_all add: net_frame_def)
  have bs: "waiting (world (snd (build_status api ip t))) = waiting (world t)" for ip and t :: "('a, 'g) agent_state_scheme"
    by (rule build_status_frame) (use b in simp_all)
  show ?thesis using b by (simp add: http_serve_one_def n r bs Let_def split_beta)
qed

lemma serve_all:
  fixes recs :: "'w \<Rightarrow> u16 \<Rightarrow> byte list option"
  assumes env: "env_frame api recs" and b: "backlog_ok api fd waiting"
  shows "waiting (world s) = k \<Longrightarrow> \<exists>s'. http_serve_pending api fd s = Some s' \<and> waiting (world s') = 0
    \<and> requests_served s' = requests_served s + of_nat k"
proof (induction k arbitrary: s)
  case 0
  obtain n p w where po: "zsock_poll api fd (world s) = ((n, p), w)" by (metis prod.collapse)
  have "\<not> (n > 0 \<and> p)" "waiting w = 0" using b [unfolded backlog_ok_def, THEN conjunct1, rule_format, of "world s"] po 0 by auto
  then show ?case by (subst http_serve_pending.simps) (auto simp: po Let_def)
next
  case (Suc k)
  obtain n p w where po: "zsock_poll api fd (world s) = ((n, p), w)" by (metis prod.collapse)
  have w: "n > 0 \<and> p" "waiting w = Suc k" using b [unfolded backlog_ok_def, THEN conjunct1, rule_format, of "world s"] po Suc(2) by auto
  obtain c w2 where ac: "zsock_accept api fd w = (c, w2)" by fastforce
  have w2: "0 \<le> c" "waiting w2 = k"
    using b [unfolded backlog_ok_def, THEN conjunct2, THEN conjunct1, rule_format, of w] ac w(2) by auto
  let ?t = "http_serve_one api c (s\<lparr>world := w2\<rparr>)"
  have "waiting (world ?t) = k" using serve_one_frame [OF b, of c "s\<lparr>world := w2\<rparr>"] w2 by simp
  from Suc(1) [OF this] obtain s' where s': "http_serve_pending api fd ?t = Some s'" "waiting (world s') = 0"
    "requests_served s' = requests_served ?t + of_nat k" by blast
  have "requests_served ?t = requests_served s + 1" using steady_serve_one [OF env, of "s\<lparr>world := w2\<rparr>" c] by simp
  with s' show ?case by (subst http_serve_pending.simps) (use w w2 in \<open>simp add: po ac Let_def\<close>)
qed



end
