(* ===== verification/Device.thy ===== *)
theory Device
  imports Agent_Run
begin

text \<open>
  The device over its whole life: a step relation of boots, turns of the loop, reboots, losses of power and changes of the world
  around it, with an invariant for an enrolled device that every step keeps.
\<close>

section \<open>The device over its boots\<close>

text \<open>
  The interface of a guarded transition system: a guard every step keeps, and an observation that never decreases.
\<close>

locale guarded_steps =
  fixes step :: "'d \<Rightarrow> 'd \<Rightarrow> bool" and guard :: "'d \<Rightarrow> bool" and level :: "'d \<Rightarrow> 'o::preorder"
  assumes guard_step: "guard d \<Longrightarrow> step d d' \<Longrightarrow> guard d'"
    and level_step: "guard d \<Longrightarrow> step d d' \<Longrightarrow> level d \<le> level d'"
begin

lemma reachable_guard: "step\<^sup>*\<^sup>* d d' \<Longrightarrow> guard d \<Longrightarrow> guard d'"
  by (induction rule: rtranclp_induct) (auto intro: guard_step)

lemma reachable_level: "step\<^sup>*\<^sup>* d d' \<Longrightarrow> guard d \<Longrightarrow> level d \<le> level d'"
proof (induction rule: rtranclp_induct)
  case (step y z)
  then show ?case using level_step [OF reachable_guard] order_trans by blast
qed simp

end

text \<open>
  Off (no agent thread, only the world lasts), or running: the listener, the turn, the state of the thread.
\<close>

datatype ('w, 's) device = Off 'w | On int nat 's

fun dev_world :: "('w, 'w agent_state) device \<Rightarrow> 'w" where
  "dev_world (Off w) = w"
| "dev_world (On http n s) = world s"

text \<open>The static variables as the C runtime starts them.\<close>

definition cold :: "('w, 'y) agent_state_scheme \<Rightarrow> bool" where
  "cold s \<longleftrightarrow> \<not> store_ready s \<and> \<not> started s \<and> version s = None \<and> state s = MESHANICS_STATE_BOOT \<and> requests_served s = 0"

text \<open>
  A boot of the thread from a cold start, a turn of its loop, the end of the thread, a loss of power between turns, and anything that
  happens around the device without touching the record store: packets, connections, a swap of the image slots.
\<close>

inductive dstep ::
  "('w, 'c, 'h, 'k, 'q, 'x) agent_api_scheme \<Rightarrow> ('w \<Rightarrow> u16 \<Rightarrow> byte list option) \<Rightarrow> 'w meshanics_config
     \<Rightarrow> ('w, 'w agent_state) device \<Rightarrow> ('w, 'w agent_state) device \<Rightarrow> bool"
  for api recs conf where
  boot_up: "cold (s :: 'w agent_state) \<Longrightarrow> meshanics_agent_start api (Some conf) s = (MESHANICS_OK, s1) \<Longrightarrow> agent_boot api s1 = Returned (Some http) s'
     \<Longrightarrow> dstep api recs conf (Off (world s)) (On http 0 s')"
| boot_end: "cold (s :: 'w agent_state) \<Longrightarrow> meshanics_agent_start api (Some conf) s = (MESHANICS_OK, s1) \<Longrightarrow> agent_boot api s1 = Returned None s'
     \<Longrightarrow> dstep api recs conf (Off (world s)) (Off (world s'))"
| boot_reboot: "cold (s :: 'w agent_state) \<Longrightarrow> meshanics_agent_start api (Some conf) s = (MESHANICS_OK, s1) \<Longrightarrow> agent_boot api s1 = Rebooted s'
     \<Longrightarrow> dstep api recs conf (Off (world s)) (Off (world s'))"
| turn: "agent_tick api http n s = Returned False s' \<Longrightarrow> dstep api recs conf (On http n s) (On http (n + 1) s')"
| retired: "agent_tick api http n s = Returned True s'
     \<Longrightarrow> dstep api recs conf (On http n s) (Off (world (set_state MESHANICS_STATE_OFFLINE s')))"
| turn_reboot: "agent_tick api http n s = Rebooted s' \<Longrightarrow> dstep api recs conf (On http n s) (Off (world s'))"
| power_off: "dstep api recs conf (On http n s) (Off (world s))"
| outside_off: "recs w' = recs w \<Longrightarrow> dstep api recs conf (Off w) (Off w')"
| outside_on: "recs w' = recs (world s) \<Longrightarrow> dstep api recs conf (On http n s) (On http n (s\<lparr>world := w'\<rparr>))"

inductive_simps dstep_Off: "dstep api recs conf (Off w) d"
inductive_simps dstep_On: "dstep api recs conf (On http n s) d"

text \<open>Where the counters of an enrolled device come from: those of the start, and those of authentic manifests.\<close>

definition known :: "ed25519_fn \<Rightarrow> byte list \<Rightarrow> u64 set \<Rightarrow> u64 set" where
  "known ed pub C = C \<union> {0} \<union> {v_counter v | v. authentic ed pub v}"

definition dev_env ::
  "('w, 'c, 'h, 'k, 'q, 'x) agent_api_scheme \<Rightarrow> ('w \<Rightarrow> u16 \<Rightarrow> byte list option) \<Rightarrow> 'w meshanics_config \<Rightarrow> ('w, 'c, 'h) fw_abs
     \<Rightarrow> meshanics_identity \<Rightarrow> bool" where
  "dev_env api recs conf r i \<longleftrightarrow> env_frame api recs \<and> app_frame conf recs \<and> nvs_ok api recs \<and> pem_ok api \<and> fw_env api r
     \<and> sizes_ok (ED25519_verify api) (manifest_pub i)"

definition dev_guard ::
  "('w, 'c, 'h, 'k, 'q, 'x) agent_api_scheme \<Rightarrow> ('w \<Rightarrow> u16 \<Rightarrow> byte list option) \<Rightarrow> 'w meshanics_config \<Rightarrow> ('w, 'c, 'h) fw_abs
     \<Rightarrow> meshanics_identity \<Rightarrow> u64 set \<Rightarrow> ('w, 'w agent_state) device \<Rightarrow> bool" where
  "dev_guard api recs conf r i C d \<longleftrightarrow> dev_env api recs conf r i
     \<and> holds_identity (recs (dev_world d)) i \<and> identity_ok i
     \<and> counter_of (recs (dev_world d)) COUNTER_NVS_ID \<in> known (ED25519_verify api) (manifest_pub i) C
     \<and> counter_of (recs (dev_world d)) PENDING_NVS_ID \<in> known (ED25519_verify api) (manifest_pub i) C
     \<and> (\<forall>http n s. d = On http n s \<longrightarrow> store_good api recs s \<and> self_cfg s = conf \<and> pinned s = pin_of i)"

definition dev_applied :: "('w \<Rightarrow> u16 \<Rightarrow> byte list option) \<Rightarrow> ('w, 'w agent_state) device \<Rightarrow> u64" where
  "dev_applied recs d = counter_of (recs (dev_world d)) COUNTER_NVS_ID"

text \<open>What a finished piece of the thread leaves for the device.\<close>

definition dev_next ::
  "('w, 'c, 'h, 'k, 'q, 'x) agent_api_scheme \<Rightarrow> ('w \<Rightarrow> u16 \<Rightarrow> byte list option) \<Rightarrow> meshanics_identity \<Rightarrow> u64 set \<Rightarrow> 'w \<Rightarrow> 'w \<Rightarrow> bool" where
  "dev_next api recs i C w w' \<longleftrightarrow> holds_identity (recs w') i
     \<and> counter_of (recs w) COUNTER_NVS_ID \<le> counter_of (recs w') COUNTER_NVS_ID
     \<and> counter_of (recs w') COUNTER_NVS_ID \<in> known (ED25519_verify api) (manifest_pub i) C
     \<and> counter_of (recs w') PENDING_NVS_ID \<in> known (ED25519_verify api) (manifest_pub i) C"

lemma start_ok:
  assumes "meshanics_agent_start api (Some conf) s = (MESHANICS_OK, s1)"
  shows "self_cfg s1 = conf" "world s1 = world s" "store_ready s1 = store_ready s" "started s1"
  using assms by (auto simp: meshanics_agent_start_def Let_def split: if_splits)

lemma boot_next:
  assumes g: "dev_guard api recs conf r i C (Off (world s))" and "cold s"
    and st: "meshanics_agent_start api (Some conf) s = (MESHANICS_OK, s1)"
  obtains r' s' where "agent_boot api s1 \<in> {Returned r' s', Rebooted s'}" "store_good api recs s'" "self_cfg s' = conf"
    "dev_next api recs i C (world s) (world s')" "\<And>http. agent_boot api s1 = Returned (Some http) s' \<Longrightarrow> pinned s' = pin_of i"
proof -
  note c = start_ok [OF st]
  have good: "store_good api recs s1" using g assms(2) c(3) by (simp add: store_good_def dev_guard_def dev_env_def cold_def)
  have stored: "stored recs s1 i" using g c(2) by (simp add: stored_def dev_guard_def records_def)
  show thesis
  proof (cases rule: agent_boot_outcome [of api recs s1, case_names env app good pem undef ran])
    case undef
    then show thesis using stored by blast
  next
    case (ran r' s')
    note p = ran(5) [OF stored]
    have "holds_identity (recs (world s')) i"
      using p stored by (simp add: stored_def holds_identity_def records_def)
    moreover have "counter_of (recs (world s)) COUNTER_NVS_ID \<le> counter_of (recs (world s')) COUNTER_NVS_ID
      \<and> counter_of (recs (world s')) COUNTER_NVS_ID \<in> known (ED25519_verify api) (manifest_pub i) C
      \<and> counter_of (recs (world s')) PENDING_NVS_ID \<in> known (ED25519_verify api) (manifest_pub i) C"
      using ran(4) g c(2) unfolding counters_step_def dev_guard_def records_def by (auto simp: known_def)
    ultimately have n: "dev_next api recs i C (world s) (world s')" by (simp add: dev_next_def)
    show thesis by (rule that [OF ran(1,2) _ n]) (use ran(3) c(1) p in auto)
  qed (use g c good in \<open>simp_all add: dev_guard_def dev_env_def\<close>)
qed

lemma turn_next:
  assumes g: "dev_guard api recs conf r i C (On http n s)" and d: "agent_tick api http n s \<in> {Returned b s', Rebooted s'}"
  shows "store_good api recs s' \<and> self_cfg s' = conf \<and> pinned s' = pin_of i \<and> dev_next api recs i C (world s) (world s')"
proof -
  have h: "store_good api recs s" "self_cfg s = conf" "pinned s = pin_of i" using g by (simp_all add: dev_guard_def)
  have "turn_ok api recs s s'"
  proof (cases rule: agent_tick_outcome [of api recs s r http n, case_names env app good fw sz undef ran])
    case undef
    with d show ?thesis by simp
  next
    case (ran b' t)
    with d show ?thesis by auto
  qed (use g h in \<open>simp_all add: dev_guard_def dev_env_def pin_of_def\<close>)
  note t = this [unfolded turn_ok_def]
  have same: "recs (world s') rid = recs (world s) rid" if "rid \<in> identity_records \<union> {COUNTER_NVS_ID}" for rid
  proof -
    have "rid \<notin> {PENDING_NVS_ID, ATTEMPTED_VERSION_NVS_ID}" using that by (auto simp: identity_ids counter_ids)
    then show ?thesis using t unfolding records_def by blast
  qed
  then have "holds_identity (recs (world s')) i" "counter_of (recs (world s')) COUNTER_NVS_ID = counter_of (recs (world s)) COUNTER_NVS_ID"
    using g by (simp_all add: dev_guard_def holds_identity_def counter_of_def)
  moreover have "counter_of (recs (world s')) PENDING_NVS_ID \<in> known (ED25519_verify api) (manifest_pub i) C"
    using t g h(3) by (auto simp: dev_guard_def known_def records_def pin_of_def)
  ultimately show ?thesis using t h g by (simp add: dev_next_def dev_guard_def)
qed

text \<open>Every step of the device keeps the guard and never lowers the applied counter.\<close>

lemma dev_next_guard:
  assumes "dev_guard api recs conf r i C d" "dev_next api recs i C (dev_world d) (dev_world d')"
    "\<And>http n s. d' = On http n s \<Longrightarrow> store_good api recs s \<and> self_cfg s = conf \<and> pinned s = pin_of i"
  shows "dev_guard api recs conf r i C d' \<and> dev_applied recs d \<le> dev_applied recs d'"
  using assms by (auto simp: dev_guard_def dev_next_def dev_applied_def)

lemma dev_next_same: "dev_guard api recs conf r i C d \<Longrightarrow> recs w' = recs (dev_world d) \<Longrightarrow> dev_next api recs i C (dev_world d) w'"
  by (simp add: dev_guard_def dev_next_def)

lemma dev_next_then: "dev_next api recs i C w w' \<Longrightarrow> recs u = recs w' \<Longrightarrow> dev_next api recs i C w u"
  by (simp add: dev_next_def)

lemma dstep_guard:
  assumes "dstep api recs conf d d'" "dev_guard api recs conf r i C d"
  shows "dev_guard api recs conf r i C d' \<and> dev_applied recs d \<le> dev_applied recs d'"
proof (rule dev_next_guard [OF assms(2)])
  show "dev_next api recs i C (dev_world d) (dev_world d')"
    using assms
  proof cases
    case (boot_up s s1 http s')
    show ?thesis
      by (rule boot_next [OF assms(2) [unfolded boot_up(1)] boot_up(3,4)]) (use boot_up in auto)
  next
    case (boot_end s s1 s')
    show ?thesis
      by (rule boot_next [OF assms(2) [unfolded boot_end(1)] boot_end(3,4)]) (use boot_end in auto)
  next
    case (boot_reboot s s1 s')
    show ?thesis
      by (rule boot_next [OF assms(2) [unfolded boot_reboot(1)] boot_reboot(3,4)]) (use boot_reboot in auto)
  next
    case (turn http n s s')
    then show ?thesis using turn_next [OF assms(2) [unfolded turn(1)], of False s'] by simp
  next
    case (retired http n s s')
    note t = turn_next [OF assms(2) [unfolded retired(1)], of True s']
    have "app_frame (self_cfg s') recs" using t retired(3) assms(2) by (simp add: dev_guard_def dev_env_def)
    from set_state_same [OF this] have "recs (world (set_state MESHANICS_STATE_OFFLINE s')) = recs (world s')"
      by (simp add: same_store_def)
    then show ?thesis using t retired by (auto intro: dev_next_then)
  next
    case (turn_reboot http n s s')
    then show ?thesis using turn_next [OF assms(2) [unfolded turn_reboot(1)], of undefined s'] by simp
  qed (use dev_next_same [OF assms(2)] in simp_all)
next
  fix http n t
  assume t: "d' = On http n t"
  from assms(1) show "store_good api recs t \<and> self_cfg t = conf \<and> pinned t = pin_of i"
  proof cases
    case (boot_up s s1 h s')
    show ?thesis
      by (rule boot_next [OF assms(2) [unfolded boot_up(1)] boot_up(3,4)]) (use boot_up t in auto)
  next
    case (turn h m s s')
    then show ?thesis using turn_next [OF assms(2) [unfolded turn(1)], of False s'] t by simp
  next
    case (outside_on w' s h m)
    then show ?thesis using assms(2) t by (simp add: dev_guard_def store_good_world)
  qed (use t in simp_all)
qed

section \<open>The power may fail inside a step\<close>

text \<open>
  From the moment \<open>alive\<close> no longer holds of the world, nothing more is written to the record store: the records a step leaves then are
  those of a device that lost its power in the middle of the step, between any two of its writes. A step of a life is a step cut short in this way, or not at all.
\<close>

definition unplugged ::
  "('w \<Rightarrow> bool) \<Rightarrow> ('w, 'c, 'h, 'k, 'q, 'x) agent_api_scheme \<Rightarrow> ('w, 'c, 'h, 'k, 'q, 'x) agent_api_scheme" where
  "unplugged alive api = api\<lparr>nvs_write := \<lambda>fs rid v w. if alive w then nvs_write api fs rid v w else (-1, w),
     nvs_delete := \<lambda>fs rid w. if alive w then nvs_delete api fs rid w else (-1, w)\<rparr>"

definition lstep ::
  "('w, 'c, 'h, 'k, 'q, 'x) agent_api_scheme \<Rightarrow> ('w \<Rightarrow> u16 \<Rightarrow> byte list option) \<Rightarrow> 'w meshanics_config
     \<Rightarrow> ('w, 'w agent_state) device \<Rightarrow> ('w, 'w agent_state) device \<Rightarrow> bool" where
  "lstep api recs conf d d' \<longleftrightarrow> (\<exists>alive. dstep (unplugged alive api) recs conf d d')"

lemma unplugged_never: "unplugged (\<lambda>_. True) api = api"
  by (simp add: unplugged_def)

lemma dstep_lstep: "dstep api recs conf d d' \<Longrightarrow> lstep api recs conf d d'"
  unfolding lstep_def by (rule exI [of _ "\<lambda>_. True"]) (simp add: unplugged_never)

lemma dsteps_lsteps: "(dstep api recs conf)\<^sup>*\<^sup>* d d' \<Longrightarrow> (lstep api recs conf)\<^sup>*\<^sup>* d d'"
  by (erule rtranclp_mono [THEN predicate2D, rotated]) (auto intro: dstep_lstep)

lemma unplugged_frames:
  "env_frame (unplugged alive api) f = env_frame api f" "fw_env (unplugged alive api) r = fw_env api r"
  "pem_ok (unplugged alive api) = pem_ok api" "ED25519_verify (unplugged alive api) = ED25519_verify api"
  "store_geometry (unplugged alive api) = store_geometry api"
  by (simp_all add: unplugged_def env_frame_def net_frame_def mgmt_frame_def boot_frame_def dev_frame_def key_frame_def agent_frame_def
      fw_env_def flash_img_ok_def slot_hash_ok_def sock_ok_def pem_ok_def store_geometry_def)

lemma unplugged_nvs_ok: "nvs_ok api recs \<Longrightarrow> nvs_ok (unplugged alive api) recs"
  unfolding nvs_ok_def unplugged_frames(5) by (simp add: unplugged_def split: if_splits)

lemma unplugged_guard:
  "dev_env api recs conf r i \<Longrightarrow> dev_guard (unplugged alive api) recs conf r i C d = dev_guard api recs conf r i C d"
  using unplugged_nvs_ok [of api recs alive]
  by (auto simp: dev_guard_def dev_env_def store_good_def unplugged_frames)

lemma lstep_guard:
  assumes "lstep api recs conf d d'" "dev_guard api recs conf r i C d"
  shows "dev_guard api recs conf r i C d' \<and> dev_applied recs d \<le> dev_applied recs d'"
proof -
  have e: "dev_env api recs conf r i" using assms(2) by (simp add: dev_guard_def)
  obtain alive where "dstep (unplugged alive api) recs conf d d'" using assms(1) by (auto simp: lstep_def)
  from dstep_guard [OF this, of r i C] show ?thesis using assms(2) by (simp add: unplugged_guard [OF e])
qed

interpretation device: guarded_steps "lstep api recs conf" "dev_guard api recs conf r i C" "dev_applied recs"
  by unfold_locales (simp_all add: lstep_guard)

lemma dev_guard_start:
  assumes "dev_env api recs conf r i" "holds_identity (recs w) i" "identity_ok i"
  shows "dev_guard api recs conf r i {counter_of (recs w) COUNTER_NVS_ID, counter_of (recs w) PENDING_NVS_ID} (Off w)"
  using assms by (simp add: dev_guard_def known_def)


section \<open>From the factory\<close>

text \<open>
  A device that leaves the factory with no manifest key. Until its first enrollment it is off or booting; from then on it is
  the enrolled device of the guard above, with whatever identity that enrollment stored.
\<close>

definition factory_guard ::
  "('w, 'c, 'h, 'k, 'q, 'x) agent_api_scheme \<Rightarrow> ('w \<Rightarrow> u16 \<Rightarrow> byte list option) \<Rightarrow> 'w meshanics_config \<Rightarrow> ('w, 'c, 'h) fw_abs
     \<Rightarrow> u64 set \<Rightarrow> ('w, 'w agent_state) device \<Rightarrow> bool" where
  "factory_guard api recs conf r C d \<longleftrightarrow> (\<forall>i. dev_env api recs conf r i)
     \<and> ((\<exists>w. d = Off w \<and> recs w ID_PUB = None \<and> counter_of (recs w) COUNTER_NVS_ID \<in> C \<union> {0} \<and> counter_of (recs w) PENDING_NVS_ID \<in> C \<union> {0})
        \<or> (\<exists>i. dev_guard api recs conf r i C d))"

text \<open>A boot of a device without a manifest key: it still has none, or it has enrolled.\<close>

lemma boot_factory:
  fixes s :: "'w agent_state"
  assumes env: "\<forall>i. dev_env api recs conf r i" and blank: "recs (world s) ID_PUB = None"
    "counter_of (recs (world s)) COUNTER_NVS_ID \<in> C \<union> {0}" "counter_of (recs (world s)) PENDING_NVS_ID \<in> C \<union> {0}"
    and "cold s" and st: "meshanics_agent_start api (Some conf) s = (MESHANICS_OK, s1)"
    and b: "agent_boot api s1 \<in> {Returned q s', Rebooted s'}"
  shows "counter_of (recs (world s)) COUNTER_NVS_ID \<le> counter_of (recs (world s')) COUNTER_NVS_ID"
    "factory_guard api recs conf r C (Off (world s'))"
    "agent_boot api s1 = Returned (Some http) s' \<Longrightarrow> factory_guard api recs conf r C (On http 0 s')"
proof -
  note c = start_ok [OF st]
  have good: "store_good api recs s1" using env assms(5) c(3) by (simp add: store_good_def dev_env_def cold_def)
  have wh: "whole recs s1" using blank(1) c(2) by (simp add: whole_def records_def)
  have "counters_step recs s1 s' \<and> store_good api recs s' \<and> self_cfg s' = conf \<and> whole recs s'
    \<and> (\<forall>h. agent_boot api s1 = Returned (Some h) s' \<longrightarrow> (\<exists>i. stored recs s' i \<and> pinned s' = pin_of i))"
  proof (cases rule: agent_boot_outcome [of api recs s1, case_names env app good pem undef ran])
    case (ran q' t)
    then have "t = s'" using b by auto
    with ran wh c(1) show ?thesis by simp
  qed (use b env c good in \<open>simp_all add: dev_env_def\<close>)
  note o = this [unfolded counters_step_def records_def c(2)]
  show "counter_of (recs (world s)) COUNTER_NVS_ID \<le> counter_of (recs (world s')) COUNTER_NVS_ID" using o by auto
  have C: "counter_of (recs (world s')) COUNTER_NVS_ID \<in> C \<union> {0}" "counter_of (recs (world s')) PENDING_NVS_ID \<in> C \<union> {0}"
    using o blank by auto
  have g: "dev_guard api recs conf r i C d" if "stored recs s' i" "d = Off (world s') \<or> d = On http 0 s' \<and> pinned s' = pin_of i" for i d
    using that C env o by (auto simp: dev_guard_def known_def stored_def records_def)
  show "factory_guard api recs conf r C (Off (world s'))"
    using o g C env by (auto simp: factory_guard_def whole_def records_def)
  show "factory_guard api recs conf r C (On http 0 s')" if "agent_boot api s1 = Returned (Some http) s'"
    using o g that env by (auto simp: factory_guard_def)
qed

lemma dstep_factory:
  assumes "dstep api recs conf d d'" "factory_guard api recs conf r C d"
  shows "factory_guard api recs conf r C d' \<and> dev_applied recs d \<le> dev_applied recs d'"
proof (cases "\<exists>i. dev_guard api recs conf r i C d")
  case True
  then obtain i where "dev_guard api recs conf r i C d" by blast
  from dstep_guard [OF assms(1) this] show ?thesis using assms(2) by (auto simp: factory_guard_def)
next
  case False
  then obtain w where w: "d = Off w" "recs w ID_PUB = None" "counter_of (recs w) COUNTER_NVS_ID \<in> C \<union> {0}"
    "counter_of (recs w) PENDING_NVS_ID \<in> C \<union> {0}" and env: "\<forall>i. dev_env api recs conf r i"
    using assms(2) by (auto simp: factory_guard_def)
  show ?thesis
    using assms(1)
  proof cases
    case (boot_up s s1 http s')
    note o = boot_factory [OF env _ _ _ boot_up(3,4), of C "Some http" s']
    show ?thesis using o w boot_up by (simp add: dev_applied_def)
  next
    case (boot_end s s1 s')
    note o = boot_factory [OF env _ _ _ boot_end(3,4), of C None s']
    show ?thesis using o w boot_end by (simp add: dev_applied_def)
  next
    case (boot_reboot s s1 s')
    note o = boot_factory [OF env _ _ _ boot_reboot(3,4), of C undefined s']
    show ?thesis using o w boot_reboot by (simp add: dev_applied_def)
  next
    case (outside_off w' v)
    then show ?thesis using w env by (simp add: factory_guard_def dev_applied_def)
  qed (use w in simp_all)
qed

lemma unplugged_env: "dev_env api recs conf r i \<Longrightarrow> dev_env (unplugged alive api) recs conf r i"
  using unplugged_nvs_ok [of api recs alive] by (simp add: dev_env_def unplugged_frames)

lemma lstep_factory:
  assumes "lstep api recs conf d d'" "factory_guard api recs conf r C d"
  shows "factory_guard api recs conf r C d' \<and> dev_applied recs d \<le> dev_applied recs d'"
proof -
  have e: "\<forall>i. dev_env api recs conf r i" using assms(2) by (simp add: factory_guard_def)
  obtain alive where st: "dstep (unplugged alive api) recs conf d d'" using assms(1) by (auto simp: lstep_def)
  have "factory_guard (unplugged alive api) recs conf r C x = factory_guard api recs conf r C x" for x
    using e unplugged_env [of api recs conf r] unplugged_guard [of api recs conf r] by (auto simp: factory_guard_def)
  then show ?thesis using dstep_factory [OF st, of r C] assms(2) by simp
qed

interpretation factory: guarded_steps "lstep api recs conf" "factory_guard api recs conf r C" "dev_applied recs"
  by unfold_locales (simp_all add: lstep_factory)


section \<open>The loop and the steps\<close>

lemma loop_steps:
  "(\<forall>s'. agent_loop api http n turns s = Returned False s' \<longrightarrow> (dstep api recs conf)\<^sup>*\<^sup>* (On http n s) (On http (n + turns) s'))
   \<and> (\<forall>s'. agent_loop api http n turns s \<in> {Returned True s', Rebooted s'} \<longrightarrow> (dstep api recs conf)\<^sup>*\<^sup>* (On http n s) (Off (world s')))"
proof (induction turns arbitrary: n s)
  case (Suc turns)
  show ?case
  proof (cases "agent_tick api http n s")
    case (Returned b t)
    show ?thesis
    proof (cases b)
      case True
      then have "dstep api recs conf (On http n s) (Off (world (set_state MESHANICS_STATE_OFFLINE t)))"
        using Returned by (simp add: retired)
      then show ?thesis using Returned True by auto
    next
      case False
      then have "dstep api recs conf (On http n s) (On http (n + 1) t)" using turn [of api http n s t] Returned by simp
      then show ?thesis
        using Returned False Suc [of "n + 1" t] by (auto intro: converse_rtranclp_into_rtranclp)
    qed
  next
    case (Rebooted t)
    then show ?thesis using turn_reboot by fastforce
  qed simp
qed simp


end
