(* ===== verification/Agent_End.thy ===== *)
theory Agent_End
  imports Agent_Run
begin

text \<open>
  How the thread of the agent ends: in a boot without a network, and in the loop only on the word of the server.
\<close>

section \<open>The running image\<close>

text \<open>What the bootloader reports about the running image, and the calls before \<open>boot_confirm\<close> that do not change it.\<close>

definition boot_img :: "('w, 'c, 'h, 'k, 'q, 'x) agent_api_scheme \<Rightarrow> 'w meshanics_config \<Rightarrow> ('w \<Rightarrow> bool) \<Rightarrow> bool" where
  "boot_img api conf img \<longleftrightarrow> (\<forall>w. fst (boot_is_img_confirmed api w) = img w)
     \<and> app_frame conf img \<and> dev_frame api img \<and> mgmt_frame api img \<and> nvs_frame api img"

lemma boot_imgD: "boot_img api conf img \<Longrightarrow> fst (boot_is_img_confirmed api w) = img w"
  by (simp add: boot_img_def)

lemma set_state_img: "app_frame (self_cfg s) f \<Longrightarrow> f (world (set_state st s)) = f (world s)"
  using set_state_same [of s f st] by (simp add: same_store_def)

section \<open>A boot without a network\<close>

text \<open>No access point answers: neither a connect request nor a wait brings the event of a successful connection.\<close>

definition no_link :: "('w, 'x) net_api_scheme \<Rightarrow> bool" where
  "no_link api \<longleftrightarrow>
     (\<forall>ms w. \<forall>ev \<in> set (fst (k_msleep api ms w)). \<not> (is_connect_result ev \<and> wifi_status ev = 0))
     \<and> (\<forall>ssid psk w. \<forall>ev \<in> set (fst (snd (net_mgmt_wifi_connect api ssid psk w))).
          \<not> (is_connect_result ev \<and> wifi_status ev = 0))"

lemma fold_wifi_link:
  "\<forall>ev \<in> set evs. \<not> (is_connect_result ev \<and> wifi_status ev = 0) \<Longrightarrow> wifi_connected (fold wifi_evt evs s) = wifi_connected s"
  by (induction evs arbitrary: s) (auto simp: wifi_evt_def)

lemma no_link_sleep: "no_link api \<Longrightarrow> wifi_connected (sleep_ms api ms s) = wifi_connected s"
  by (simp add: no_link_def sleep_ms_def split_beta fold_wifi_link)

lemma no_link_request: "no_link api \<Longrightarrow> wifi_connected (wifi_request_loop api prov n s) = wifi_connected s"
proof (induction n arbitrary: s)
  case (Suc n)
  then have "wifi_connected (fold wifi_evt (fst (snd (net_mgmt_wifi_connect api (wifi_ssid prov) (wifi_psk prov) (world s)))) t)
      = wifi_connected t" for t :: "('a, 'c) net_state_scheme"
    by (simp add: no_link_def fold_wifi_link)
  with Suc show ?case by (simp add: Let_def split_beta no_link_sleep)
qed simp

lemma no_link_wait: "no_link api \<Longrightarrow> wifi_connected (wifi_wait_loop api n s) = wifi_connected s"
  by (induction n arbitrary: s) (simp_all add: no_link_sleep)

lemma no_link_wifi_up: "no_link api \<Longrightarrow> \<not> wifi_connected s \<Longrightarrow> fst (plat_net_wifi_up api (Some prov) s) = -1"
  by (simp add: plat_net_wifi_up_def no_link_request no_link_wait Let_def)

text \<open>
  C24. A boot that gets no WiFi in its ten requests and two hundred waits: on a new, unconfirmed image the device reboots, so that the bootloader puts the old image back;
  on a confirmed image the thread ends, offline, and stays so however long it is watched: there is no retry. The records are as before.
\<close>

theorem offline_boot_ends:
  assumes "env_frame api recs" "app_frame (self_cfg s) recs" "store_good api recs s" "boot_img api (self_cfg s) img"
    and "\<And>w. fst (psa_crypto_init api w) = 0" "MESHANICS_PROVISIONING api = Some prov"
    and "no_link api" "\<not> wifi_connected s"
  shows "\<exists>t. store_good api recs t \<and> records recs t = records recs s
    \<and> (\<forall>turns. agent_main api turns s = (if img (world s) then Returned True t else Rebooted t))
    \<and> (img (world s) \<longrightarrow> state t = MESHANICS_STATE_OFFLINE)"
proof -
  note f = env_frameD [OF assms(1)]
  have im: "app_frame (self_cfg s) img" "dev_frame api img" "mgmt_frame api img" using assms(4) by (simp_all add: boot_img_def)
  define s1 where "s1 = set_state MESHANICS_STATE_BOOT s"
  obtain rc w where pc: "psa_crypto_init api (world s1) = (rc, w)" by fastforce
  have rc: "rc = 0" using assms(5) [of "world s1"] pc by simp
  define s3 where "s3 = set_state MESHANICS_STATE_CONNECTING (s1\<lparr>world := w\<rparr>)"
  have w: "recs w = recs (world s1)" "img w = img (world s1)" using dev_frameD(2) [OF f(4) pc] dev_frameD(2) [OF im(2) pc] by simp_all
  have k3: "steady api recs s s3" unfolding s3_def s1_def
    by (rule steady_trans [OF steady_trans [OF steady_state [OF assms(2)] steady_world] steady_state])
      (use w(1) assms(2) in \<open>simp_all add: s1_def\<close>)
  obtain wr s4 where wi: "plat_net_wifi_up api (Some prov) s3 = (wr, s4)" by fastforce
  have "wifi_connected s3 = wifi_connected s"
    by (simp add: s3_def s1_def set_state_def Let_def split: option.splits)
  then have wr: "wr \<noteq> 0" using no_link_wifi_up [OF assms(7), of s3 prov] assms(8) wi by simp
  note k4 = steady_trans [OF k3 steady_wifi [OF f(2) wi]]
  have "img (world s3) = img (world s)" using w(2) im(1) by (simp add: s3_def s1_def set_state_img)
  then have i4: "img (world s4) = img (world s)" using wifi_up_same [OF im(3) wi] by (simp add: same_store_def)
  obtain w5 where ic: "boot_is_img_confirmed api (world s4) = (img (world s), w5)"
    using boot_imgD [OF assms(4), of "world s4"] i4 by (cases "boot_is_img_confirmed api (world s4)") simp
  define s5 where "s5 = s4\<lparr>world := w5\<rparr>"
  have k5: "steady api recs s s5"
    unfolding s5_def by (rule steady_trans [OF k4 steady_world]) (use boot_frameD(1) [OF f(3) ic] in simp)
  have bt: "agent_boot api s = (if img (world s) then Returned None (set_state MESHANICS_STATE_OFFLINE s5) else Rebooted s5)"
    using pc wi wr
    by (simp add: agent_boot_def s1_def [symmetric] rc meshanics_provisioning_get_def assms(6) s3_def [symmetric] Let_def
        boot_confirm_def plat_image_confirmed_def ic s5_def [symmetric] plat_reboot_def)
  define t where "t = (if img (world s) then set_state MESHANICS_STATE_OFFLINE s5 else s5)"
  have "steady api recs s t" unfolding t_def using k5 steady_offline [OF k5 assms(2)] by simp
  from steady_good [OF this assms(3)] bt show ?thesis
    by (intro exI [of _ t]) (simp add: agent_main_def t_def)
qed

section \<open>The loop ends only when the device is decommissioned\<close>

text \<open>The server the thread talks to is the one its configuration names; nothing in a turn changes that.\<close>

lemma wifi_evt_cfg [simp]: "cfg (fold wifi_evt evs s) = cfg s"
  by (induction evs arbitrary: s) (simp_all add: wifi_evt_def)

lemma sleep_cfg [simp]: "cfg (sleep_ms api ms s) = cfg s"
  by (simp add: sleep_ms_def split_beta)

lemma probe_cfg [simp]: "cfg (snd (self_probe http s)) = cfg s"
  by (simp add: self_probe_def split_beta split: option.splits)

lemma store_cfg:
  "cfg (snd (plat_applied_counter api s)) = cfg s" "cfg (snd (plat_failed_counter api s)) = cfg s"
  "cfg (snd (plat_store_attempted_version api v s)) = cfg s" "cfg (snd (plat_commit_and_reboot api c s)) = cfg s"
  "cfg (snd (plat_heartbeat api cs av ac ph pd lc s)) = cfg s" "cfg (snd (plat_net_upload_logs api rid body s)) = cfg s"
  "cfg (snd (plat_fetch_manifest api cap s)) = cfg s"
  for s :: "('w, 'y) agent_state_scheme"
  by (rule more_agent(3); simp add: fetch_manifest_more [OF prod.collapse [symmetric]])+

lemma stage_cfg: "plat_stage_image api hex sz s = Some (rc, s') \<Longrightarrow> cfg s' = cfg s" for s :: "('w, 'y) agent_state_scheme"
  by (rule more_agent(3) [OF stage_image_more])

lemma logs_cfg [simp]: "cfg (ship_logs api rid s) = cfg s"
  by (simp add: ship_logs_def store_cfg)

lemma serve_one_cfg: "cfg (http_serve_one api c s) = cfg s"
proof -
  have "cfg (snd (build_status api ip t)) = cfg t" for ip and t :: "('a, 'b) agent_state_scheme"
    by (simp add: build_status_def store_cfg split_beta Let_def)
  then show ?thesis by (simp add: http_serve_one_def split_beta Let_def)
qed

lemma serve_cfg: "http_serve_pending api l s = Some s' \<Longrightarrow> cfg s' = cfg s"
proof (induct rule: http_serve_pending.raw_induct [rotated, consumes 1, case_names step])
  case (step rec api l s s')
  obtain n p w where po: "zsock_poll api l (world s) = ((n, p), w)" by (metis prod.collapse)
  obtain c w2 where ac: "zsock_accept api l w = (c, w2)" by fastforce
  have "s' \<in> {s\<lparr>world := w\<rparr>, s\<lparr>world := w2\<rparr>} \<or> rec api l (http_serve_one api c (s\<lparr>world := w2\<rparr>)) = Some s'"
    using step(2) by (auto simp: po ac Let_def split: if_splits)
  then show ?case using step(1) by (auto simp: serve_one_cfg)
qed

lemma poll_once_cfg: "poll_once api s = Returned u s' \<Longrightarrow> cfg s' = cfg s"
  unfolding poll_once_def Let_def
  by (auto simp: store_cfg split_beta split: if_splits cres.splits option.splits dest!: stage_cfg)

definition decommissioned_mark :: "byte list" where
  \<open>decommissioned_mark = str ''"decommissioned":true''\<close>

text \<open>In the world \<open>w\<close> the server answers a heartbeat \<open>body\<close> with 200 and the mark.\<close>

definition decommissioned_answer ::
  "('w, 'x) net_api_scheme \<Rightarrow> meshanics_provisioning \<Rightarrow> byte list \<Rightarrow> 'w \<Rightarrow> bool" where
  "decommissioned_answer api prov body w \<longleftrightarrow>
     (case post_device api prov (fleet_port prov) (str ''/device/heartbeat'') body 512 w of ((code, resp), _) \<Rightarrow>
        code = 200 \<and> strstr (cstr resp) decommissioned_mark \<noteq> None)"

lemma heartbeat_zero:
  fixes s :: "('w, 'y) agent_state_scheme"
  assumes "plat_heartbeat api cs av ac ph pd lc s = ((0, rq), s')"
  shows "\<exists>body w. decommissioned_answer api (cfg s) body w"
proof -
  obtain failed s1 where fa: "plat_failed_counter api s = (failed, s1)" by fastforce
  obtain rev s2 where rv: "(if failed \<noteq> 0 then plat_attempted_version api True 32 s1 else (None, s1)) = (rev, s2)" by fastforce
  have "cfg s1 = cfg s" using more_agent(3) [OF counter_more(3) [of api s]] fa by simp
  moreover have "cfg s2 = cfg s1"
    using more_agent(3) [OF attempted_more [of api True 32 s1]] rv by (auto split: if_splits)
  ultimately have c: "cfg s2 = cfg s" by simp
  note h = assms [unfolded plat_heartbeat_def fa Let_def prod.case rv c]
  from h obtain body where b: "ota_heartbeat_json cs True 256 (Some SDK_AGENT_VERSION) (Some av) ac ph (Some pd)
      (Some (case rev of None \<Rightarrow> [] | Some v \<Rightarrow> v)) = Some body"
    by (auto split: option.splits)
  obtain code resp w where p: "post_device api (cfg s) (fleet_port (cfg s)) (str ''/device/heartbeat'') body 512 (world s2) = ((code, resp), w)"
    by (metis prod.collapse)
  have "code = 200 \<and> strstr (cstr resp) decommissioned_mark \<noteq> None"
    using h unfolding b option.case p prod.case decommissioned_mark_def by (auto simp del: str_Cons split: if_splits)
  with p have "decommissioned_answer api (cfg s) body (world s2)" unfolding decommissioned_answer_def p by simp
  then show ?thesis by blast
qed

lemma agent_poll_end:
  fixes s :: "('w, 'y) agent_state_scheme"
  assumes "agent_poll api http s = Returned b s'"
  shows "(b \<longrightarrow> (\<exists>body w. decommissioned_answer api (cfg s) body w)) \<and> cfg s' = cfg s"
proof -
  obtain hl s1 where pr: "self_probe http s = (hl, s1)" by fastforce
  obtain ap s2 where pa: "plat_applied_counter api s1 = (ap, s2)" by fastforce
  let ?ver = "case version s2 of None \<Rightarrow> [] | Some v \<Rightarrow> v"
  let ?detail = "if hl then str ''status-server up'' else str ''health check failed''"
  obtain hb rq s3 where hb: "plat_heartbeat api (char_signed api) ?ver ap hl ?detail (Some 48) s2 = ((hb, rq), s3)"
    by (metis prod.collapse)
  have c2: "cfg s2 = cfg s" using probe_cfg [of http s] store_cfg(1) [of api s1] by (simp add: pr pa)
  have c3: "cfg s3 = cfg s" using store_cfg(5) [of api "char_signed api" ?ver ap hl ?detail "Some 48" s2] c2 by (simp only: hb snd_conv)
  note h = assms [unfolded agent_poll_def pr Let_def prod.case pa hb]
  have "hb = 0 \<longleftrightarrow> b" using h by (auto split: if_splits run.splits)
  moreover have "cfg s' = cfg s" using h c3 poll_once_cfg by (fastforce split: if_splits run.splits)
  ultimately show ?thesis using heartbeat_zero [of api _ _ _ _ _ _ s2] hb c2 by auto
qed

lemma agent_tick_end:
  fixes s :: "('w, 'y) agent_state_scheme"
  assumes t: "agent_tick api http n s = Returned b s'"
  shows "(b \<longrightarrow> n mod POLL_TICKS api = 0 \<and> (\<exists>body w. decommissioned_answer api (cfg s) body w)) \<and> cfg s' = cfg s"
proof -
  obtain s1 where s1: "(if http \<ge> 0 then http_serve_pending api http s else Some s) = Some s1"
    using t by (auto simp: agent_tick_def split: option.splits)
  have c1: "cfg s1 = cfg s" using s1 serve_cfg by (auto split: if_splits)
  show ?thesis
  proof (cases "n mod POLL_TICKS api = 0")
    case True
    then obtain s2 where p: "agent_poll api http s1 = Returned b s2" "s' = s2 \<or> s' = sleep_ms api 1000 s2"
      using t s1 by (auto simp: agent_tick_def split: if_splits run.splits bool.splits)
    then show ?thesis using agent_poll_end [OF p(1)] True c1 by auto
  next
    case False
    then show ?thesis using t s1 c1 by (auto simp: agent_tick_def split: if_splits)
  qed
qed

lemma loop_end:
  fixes s :: "('w, 'y) agent_state_scheme"
  assumes "agent_loop api http n turns s = Returned True s'"
  shows "state s' = MESHANICS_STATE_OFFLINE \<and> (\<exists>k < turns. (n + k) mod POLL_TICKS api = 0)
    \<and> (\<exists>body w. decommissioned_answer api (cfg s) body w)"
  using assms
proof (induction turns arbitrary: n s)
  case (Suc turns)
  show ?case
  proof (cases "agent_tick api http n s")
    case (Returned b t)
    note e = agent_tick_end [OF Returned]
    show ?thesis
    proof (cases b)
      case True
      with Returned Suc.prems have "state s' = MESHANICS_STATE_OFFLINE" by (auto simp: set_state_sel)
      moreover have "\<exists>k < Suc turns. (n + k) mod POLL_TICKS api = 0" using e True by (intro exI [of _ 0]) simp
      ultimately show ?thesis using e True by (intro conjI) simp_all
    next
      case False
      with Returned Suc.prems have "agent_loop api http (n + 1) turns t = Returned True s'" by simp
      note ih = Suc.IH [OF this]
      from conjunct1 [OF conjunct2 [OF ih]] obtain k where "k < turns" "(n + 1 + k) mod POLL_TICKS api = 0" by (elim exE conjE)
      then have "\<exists>k < Suc turns. (n + k) mod POLL_TICKS api = 0" by (intro exI [of _ "Suc k"]) simp
      with ih e show ?thesis by (intro conjI) simp_all
    qed
  qed (use Suc.prems in simp_all)
qed simp

text \<open>
  C23. The agent does not retire by itself: once online, its loop ends, offline, only after a turn that polls, and only because the server
  of its configuration answers a heartbeat with status 200 and the mark of a decommissioned device. No other answer, failure or silence ends it.
\<close>

theorem loop_ends_decommissioned:
  fixes s :: "('w, 'y) agent_state_scheme"
  assumes "agent_loop api http n turns s = Returned True s'"
  shows "state s' = MESHANICS_STATE_OFFLINE \<and> (\<exists>k < turns. (n + k) mod POLL_TICKS api = 0)
    \<and> (\<exists>body w. decommissioned_answer api (cfg s) body w)"
  by (rule loop_end [OF assms])

end
