(* ===== verification/Update_Cycle.thy ===== *)
theory Update_Cycle
  imports Device Agent_End
begin

text \<open>
  The life of one update: the poll that installs it, the next boot, which finds the new image or the old one again, and the
  polls after that. The image the bootloader started is an observation \<open>img\<close> of the world.
\<close>

section \<open>Reading the records leaves the running image alone\<close>

lemma store_read_frame: "nvs_frame api f \<Longrightarrow> f (world (snd (plat_store_read api rid n s))) = f (world s)"
  using store_mount_frame [of api f s] by (simp add: plat_store_read_def nvs_frame_def Let_def split_beta)

lemma store_exists_frame: "nvs_frame api f \<Longrightarrow> f (world (snd (plat_store_exists api rid s))) = f (world s)"
  using store_mount_frame [of api f s] by (simp add: plat_store_exists_def nvs_frame_def Let_def split_beta)

lemma load_str_frame: "nvs_frame api f \<Longrightarrow> f (world (snd (load_str api rid cap s))) = f (world s)"
  by (simp add: load_str_def store_read_frame split_beta)

lemma identity_exists_frame: "nvs_frame api f \<Longrightarrow> f (world (snd (meshanics_identity_exists api s))) = f (world s)"
  by (simp add: meshanics_identity_exists_def store_exists_frame Let_def split_beta)

lemma identity_load_frame: "nvs_frame api f \<Longrightarrow> f (world (snd (meshanics_identity_load api nn s))) = f (world s)"
  by (simp add: meshanics_identity_load_def store_read_frame load_str_frame Let_def split_beta split: option.splits)

lemma establish_stored_img:
  assumes "store_good api recs s" "holds_identity (records recs s) i" "nvs_frame api f"
    "establish_identity api prov s = Returned ok s'"
  shows "f (world s') = f (world s)"
proof -
  obtain ex s1 where e: "meshanics_identity_exists api s = (ex, s1)" by fastforce
  obtain l s2 where l: "meshanics_identity_load api True s1 = (l, s2)" by fastforce
  have ex: "ex" using exists_good(1) [OF assms(1)] assms(2) e by (simp add: holds_identity_def)
  have "f (world s2) = f (world s)"
    using identity_exists_frame [OF assms(3), of s] identity_load_frame [OF assms(3), of True s1] by (simp add: e l)
  then show ?thesis using assms(4) ex by (auto simp: establish_identity_def e l pin_identity_def split: option.splits)
qed

text \<open>A boot that gets online with a stored identity reaches \<open>boot_confirm\<close> with the records and the image it started with.\<close>

lemma agent_boot_online:
  assumes b: "agent_boot api s = Returned (Some http) s'" and env: "env_frame api recs" and app: "app_frame (self_cfg s) recs"
    and good: "store_good api recs s" and h: "holds_identity (records recs s) i" "identity_ok i"
    and im: "boot_img api (self_cfg s) img"
  obtains t u where "store_good api recs t" "records recs t = records recs s" "self_cfg t = self_cfg s" "pinned t = pin_of i"
    "img (world t) = img (world s)" "boot_confirm api True t = Returned () u" "steady api recs u s'"
proof -
  note f = env_frameD [OF env]
  have im: "app_frame (self_cfg s) img" "dev_frame api img" "mgmt_frame api img" "nvs_frame api img"
    using im by (simp_all add: boot_img_def)
  define s1 where "s1 = set_state MESHANICS_STATE_BOOT s"
  obtain rc w where pc: "psa_crypto_init api (world s1) = (rc, w)" by fastforce
  define s3 where "s3 = set_state MESHANICS_STATE_CONNECTING (s1\<lparr>world := w\<rparr>)"
  have w: "recs w = recs (world s1)" "img w = img (world s1)" using dev_frameD(2) [OF f(4) pc] dev_frameD(2) [OF im(2) pc] by simp_all
  have k3: "steady api recs s s3" unfolding s3_def s1_def
    by (rule steady_trans [OF steady_trans [OF steady_state [OF app] steady_world] steady_state]) (use w(1) app in \<open>simp_all add: s1_def\<close>)
  have i3: "img (world s3) = img (world s)" using w(2) im(1) by (simp add: s3_def s1_def set_state_img)
  note D = agent_boot_def [of api s, unfolded Let_def, folded s1_def, unfolded pc prod.case]
  obtain prov where p: "rc = 0" "meshanics_provisioning_get (MESHANICS_PROVISIONING api) = Some prov"
    using b by (auto simp: D split: if_splits option.splits)
  obtain s4 where wi: "plat_net_wifi_up api (Some prov) s3 = (0, s4)"
    using b p by (auto simp: D s3_def split: if_splits prod.splits run.splits)
  note k4 = steady_trans [OF k3 steady_wifi [OF f(2) wi]]
  note g4 = steady_good [OF k4 good]
  have i4: "img (world s4) = img (world s)" using wifi_up_same [OF im(3) wi] i3 by (simp add: same_store_def)
  have h4: "holds_identity (records recs s4) i" using g4 h(1) by simp
  obtain s5 where es: "establish_identity api prov s4 = Returned True s5" "pinned s5 = pin_of i" "keeps api recs s4 s5"
    "self_cfg s5 = self_cfg s4"
    by (rule establish_stored [OF conjunct1 [OF g4] h4 h(2), of prov])
  have i5: "img (world s5) = img (world s)" using establish_stored_img [OF conjunct1 [OF g4] h4 im(4) es(1)] i4 by simp
  have on: "agent_online api prov s5 = Returned (Some http) s'"
    using b p by (simp add: D s3_def [symmetric] wi es(1))
  obtain ir s6 where si: "plat_net_set_identity api (Some prov) (Some (ident s5)) s5 = (ir, s6)" by fastforce
  note k6 = steady_set_identity [OF f(2) si]
  have i6: "img (world s6) = img (world s)" using set_identity_same [OF im(3) si] i5 by (simp add: same_store_def)
  have g5: "store_good api recs s5" "records recs s5 = records recs s4" using es(3) g4 by (simp_all add: keeps_def)
  note g6 = steady_good [OF k6 g5(1)]
  obtain u where u: "boot_confirm api True s6 = Returned () u" "store_state.more u = store_state.more s6"
    by (rule boot_confirm_outcome [OF f(3) conjunct1 [OF g6]])
  obtain rr s8 where re: "plat_register api u = (rr, s8)" by fastforce
  obtain ht w9 where ht: "http_listen api (world s8) = (ht, w9)" by fastforce
  have cf: "self_cfg s6 = self_cfg s" "pinned s6 = pin_of i" using k6 es k4 by (simp_all add: steady_def)
  have s': "s' = set_state MESHANICS_STATE_ONLINE (s8\<lparr>world := w9\<rparr>)"
    using on by (auto simp: agent_online_def si u(1) re ht Let_def split: if_splits)
  have k9: "steady api recs u (s8\<lparr>world := w9\<rparr>)"
    by (rule steady_trans [OF steady_register [OF f(1) re] steady_world [OF http_listen_frame [OF f(1,6) ht]]])
  have "app_frame (self_cfg u) recs" using app cf(1) more_agent(1) [OF u(2)] by simp
  from steady_trans [OF k9 steady_state [OF steady_app [OF k9 this]]]
  show thesis by (intro that [OF _ _ cf i6 u(1)]) (use g4 g5 g6 in \<open>simp_all add: s'\<close>)
qed

text \<open>With a store whose writes succeed, such a boot carries out the abstract boot on the four cells.\<close>

lemma boot_online_slots:
  assumes b: "agent_boot api s = Returned (Some http) s'" and env: "env_frame api recs" and app: "app_frame (self_cfg s) recs"
    and good: "store_good api recs s" and h: "holds_identity (records recs s) i" "identity_ok i"
    and im: "boot_img api (self_cfg s) img" and wr: "writes_ok api"
  shows "store_good api recs s' \<and> self_cfg s' = self_cfg s \<and> pinned s' = pin_of i
    \<and> slots_of (records recs s') = boot_spec (img (world s)) (slots_of (records recs s))
    \<and> holds_identity (records recs s') i"
proof (rule agent_boot_online [OF assms(1-7)])
  fix t u
  assume t: "store_good api recs t" "records recs t = records recs s" "self_cfg t = self_cfg s" "pinned t = pin_of i"
    "img (world t) = img (world s)" "boot_confirm api True t = Returned () u" "steady api recs u s'"
  have f: "boot_frame api recs" using env_frameD [OF env] by blast
  have "fst (boot_is_img_confirmed api (world t)) = img (world s)" using boot_imgD [OF im] t(5) by simp
  then obtain w where w: "boot_is_img_confirmed api (world t) = (img (world s), w)"
    by (cases "boot_is_img_confirmed api (world t)") simp
  from boot_confirm_implements [OF f t(1) wr w] t(6)
  have u: "store_good api recs u" "slots_of (records recs u) = boot_spec (img (world s)) (slots_of (records recs t))"
    "\<And>rid. rid \<notin> {COUNTER_NVS_ID, PENDING_NVS_ID, FAILED_NVS_ID, ATTEMPTED_VERSION_NVS_ID} \<Longrightarrow> records recs u rid = records recs t rid"
    by auto
  have m: "store_state.more u = store_state.more t"
    by (rule boot_confirm_outcome [OF f t(1)]) (use t(6) in simp)
  have "records recs u rid = records recs s rid" if "rid \<in> identity_records" for rid
    using u(3) [OF identity_not_counter(3) [OF that]] t(2) by simp
  then have "holds_identity (records recs u) i" using h(1) by (simp add: holds_identity_def)
  moreover have "self_cfg s' = self_cfg s" "pinned s' = pin_of i"
    using t(3,4,7) more_agent(1,2) [OF m] by (simp_all add: steady_def)
  ultimately show ?thesis using steady_good [OF t(7) u(1)] u(2) t(2) by simp
qed

section \<open>The poll that installs, and the polls of the loop\<close>

text \<open>The effect of a poll that reboots, on all four cells, with a store whose writes succeed.\<close>

lemma poll_reboot_slots:
  assumes "net_frame api recs" "boot_frame api recs" "app_frame (self_cfg s) recs" "store_good api recs s"
    and "fw_env api r" "sizes_ok (ED25519_verify api) (pk_pub (pinned s))" "writes_ok api"
    and "poll_once api s = Rebooted s'"
  obtains v where "authentic (ED25519_verify api) (pk_pub (pinned s)) v"
    "counter_of (records recs s) COUNTER_NVS_ID < v_counter v" "v_counter v \<noteq> counter_of (records recs s) FAILED_NVS_ID"
    "slots_of (records recs s') = (slots_of (records recs s))\<lparr>slot_pending := v_counter v,
       slot_attempted := put_record (cstr (take 31 (v_version v)))\<rparr>"
    "\<And>rid. rid \<notin> {PENDING_NVS_ID, ATTEMPTED_VERSION_NVS_ID} \<Longrightarrow> records recs s' rid = records recs s rid"
proof (cases rule: poll_once_cases [OF assms(1-6), case_names idle committed])
  case (idle s'')
  with assms(8) show ?thesis by simp
next
  case (committed v s1 s2 s3 s4 q q2)
  from committed(8) assms(8) have q2: "q2 = None" "s4 = s'" by (auto split: option.splits)
  have g2: "store_good api recs s2" "records recs s2 = records recs s" using committed(5) assms(4) by (simp_all add: keeps_def)
  have w: "plat_store_write api ATTEMPTED_VERSION_NVS_ID (cstr (take 31 (v_version v))) s2 = (q, s3)"
    using committed(6) by (simp add: plat_store_attempted_version_def)
  have g3: "store_good api recs s3" by (rule store_write_good(1) [OF g2(1) w])
  have r3: "records recs s3 = (records recs s)(ATTEMPTED_VERSION_NVS_ID := put_record (cstr (take 31 (v_version v))))"
    using reliable_write [OF g2(1) assms(7), of ATTEMPTED_VERSION_NVS_ID] w g2(2) by (metis snd_conv)
  have r4: "records recs s' = (records recs s3)(PENDING_NVS_ID := put_record (u64_bytes (v_counter v)))"
    using commit_records(3) [OF g3 assms(2) committed(7) q2(1)] q2(2) by simp
  show ?thesis
    by (rule that [OF committed(1-3)]) (simp_all add: r3 r4 slots_of_def counter_ids)
qed

text \<open>A turn that reboots does so in its poll, from a state with the records and the key the turn began with.\<close>

lemma poll_of_tick:
  assumes "agent_tick api http n s = Rebooted s'" and env: "env_frame api recs" and app: "app_frame (self_cfg s) recs"
  obtains u where "steady api recs s u" "poll_once api u = Rebooted s'"
proof -
  note f = env_frameD [OF env]
  obtain s1 where s1: "(if http \<ge> 0 then http_serve_pending api http s else Some s) = Some s1" "agent_poll api http s1 = Rebooted s'"
    using assms(1) by (auto simp: agent_tick_def split: option.splits if_splits run.splits bool.splits)
  have k1: "steady api recs s s1" using steady_serve [OF _ env, of http s s1] s1(1) by (auto split: if_splits)
  obtain hl s2 where pr: "self_probe http s1 = (hl, s2)" by fastforce
  obtain ap s3 where pa: "plat_applied_counter api s2 = (ap, s3)" by fastforce
  let ?ver = "case version s3 of None \<Rightarrow> [] | Some v \<Rightarrow> v"
  let ?detail = "if hl then str ''status-server up'' else str ''health check failed''"
  obtain hb rq s4 where hb: "plat_heartbeat api (char_signed api) ?ver ap hl ?detail (Some 48) s3 = ((hb, rq), s4)"
    by (metis prod.collapse)
  define s5 where "s5 = (if hb > 0 \<and> rq \<noteq> [] then ship_logs api rq s4 else s4)"
  have k4: "steady api recs s s4"
    by (rule steady_trans [OF k1 steady_trans [OF steady_probe [OF steady_app [OF k1 app] pr]
          steady_trans [OF steady_applied [OF pa] steady_heartbeat [OF f(1) hb]]]])
  have k5: "steady api recs s s5" unfolding s5_def using k4 steady_trans [OF k4 steady_logs [OF f(1)]] by simp
  have "poll_once api s5 = Rebooted s'"
    using s1(2) unfolding agent_poll_def pr Let_def prod.case pa hb s5_def by (auto split: if_splits run.splits)
  with k5 show thesis by (rule that)
qed

text \<open>
  However many turns the loop takes before it reboots, it reboots for an authentic manifest that is newer than what is applied
  when the loop begins, and is not the one that had failed by then.
\<close>

definition installs :: "ed25519_fn \<Rightarrow> byte list \<Rightarrow> boot_slots \<Rightarrow> u64 \<Rightarrow> bool" where
  "installs ed pub c n \<longleftrightarrow> (\<exists>v. authentic ed pub v \<and> v_counter v = n) \<and> slot_applied c < n \<and> n \<noteq> slot_failed c"

lemma loop_reboot:
  assumes env: "env_frame api recs" and fw: "fw_env api r" and sl: "slot_kept api r"
  shows "agent_loop api http n turns s = Rebooted s' \<Longrightarrow> app_frame (self_cfg s) recs \<Longrightarrow> store_good api recs s
    \<Longrightarrow> sizes_ok (ED25519_verify api) (pk_pub (pinned s))
    \<Longrightarrow> installs (ED25519_verify api) (pk_pub (pinned s)) (slots_of (records recs s)) (counter_of (records recs s') PENDING_NVS_ID)"
proof (induction turns arbitrary: n s)
  case (Suc turns)
  note f = env_frameD [OF env]
  show ?case
  proof (cases "agent_tick api http n s")
    case (Rebooted t)
    then have t: "agent_tick api http n s = Rebooted s'" using Suc.prems(1) by simp
    obtain u where u: "steady api recs s u" "poll_once api u = Rebooted s'" by (rule poll_of_tick [OF t env Suc.prems(2)])
    note g = steady_good [OF u(1) Suc.prems(3)]
    have p: "pinned u = pinned s" using u(1) by (simp add: steady_def)
    from poll_reboot_authentic [OF f(1,3) steady_app [OF u(1) Suc.prems(2)] conjunct1 [OF g] fw sl _ u(2)] Suc.prems(4) p g
    show ?thesis by (auto simp: installs_def slots_of_def)
  next
    case (Returned b t)
    have k: "turn_ok api recs s t"
    proof (cases rule: agent_tick_outcome [OF env Suc.prems(2,3) fw Suc.prems(4), of http n, case_names undef ran])
      case undef
      with Returned show ?thesis by simp
    next
      case (ran b' t')
      with Returned show ?thesis by auto
    qed
    have nb: "\<not> b" "agent_loop api http (n + 1) turns t = Rebooted s'" using Suc.prems(1) Returned by (cases b; simp)+
    have e: "self_cfg t = self_cfg s" "pinned t = pinned s" "store_good api recs t"
      "records recs t COUNTER_NVS_ID = records recs s COUNTER_NVS_ID" "records recs t FAILED_NVS_ID = records recs s FAILED_NVS_ID"
      using k by (simp_all add: turn_ok_def counter_ids)
    then show ?thesis using Suc.IH [OF nb(2)] Suc.prems by (simp add: installs_def slots_of_def counter_of_def)
  next
    case Undefined
    with Suc.prems(1) show ?thesis by simp
  qed
qed simp

section \<open>From one poll to the next boot\<close>

text \<open>The thread of an enrolled device, between two turns.\<close>

definition running ::
  "('w, 'c, 'h, 'k, 'q, 'x) agent_api_scheme \<Rightarrow> ('w \<Rightarrow> u16 \<Rightarrow> byte list option) \<Rightarrow> 'w meshanics_config \<Rightarrow> meshanics_identity
     \<Rightarrow> 'w agent_state \<Rightarrow> bool" where
  "running api recs conf i s \<longleftrightarrow> store_good api recs s \<and> self_cfg s = conf \<and> pinned s = pin_of i \<and> holds_identity (records recs s) i"

lemma running_reachable:
  assumes "dev_env api recs conf r i" "holds_identity (recs w) i" "identity_ok i"
    and "(lstep api recs conf)\<^sup>*\<^sup>* (Off w) (On http n s)"
  shows "running api recs conf i s"
  using device.reachable_guard [OF assms(4) dev_guard_start [OF assms(1-3)]]
  by (simp add: dev_guard_def running_def records_def)

lemma turn_reboot_slots:
  assumes env: "dev_env api recs conf r i" and wr: "writes_ok api" and run: "running api recs conf i s"
    and t: "agent_tick api http n s = Rebooted t"
  obtains v where "authentic (ED25519_verify api) (manifest_pub i) v"
    "counter_of (records recs s) COUNTER_NVS_ID < v_counter v" "v_counter v \<noteq> counter_of (records recs s) FAILED_NVS_ID"
    "slots_of (records recs t) = (slots_of (records recs s))\<lparr>slot_pending := v_counter v,
       slot_attempted := put_record (cstr (take 31 (v_version v)))\<rparr>"
    "holds_identity (records recs t) i"
proof -
  note e = env [unfolded dev_env_def] and rn = run [unfolded running_def]
  have app: "app_frame (self_cfg s) recs" using e rn by simp
  obtain u where u: "steady api recs s u" "poll_once api u = Rebooted t" by (rule poll_of_tick [OF t _ app]) (use e in simp)
  have g: "store_good api recs u" "records recs u = records recs s" using steady_good [OF u(1)] rn by simp_all
  have p: "pinned u = pin_of i" using u(1) rn by (simp add: steady_def)
  show thesis
  proof (rule poll_reboot_slots [OF _ _ steady_app [OF u(1) app] g(1) _ _ wr u(2)])
    fix v
    assume v: "authentic (ED25519_verify api) (pk_pub (pinned u)) v"
      "counter_of (records recs u) COUNTER_NVS_ID < v_counter v" "v_counter v \<noteq> counter_of (records recs u) FAILED_NVS_ID"
      "slots_of (records recs t) = (slots_of (records recs u))\<lparr>slot_pending := v_counter v,
         slot_attempted := put_record (cstr (take 31 (v_version v)))\<rparr>"
      "\<And>rid. rid \<notin> {PENDING_NVS_ID, ATTEMPTED_VERSION_NVS_ID} \<Longrightarrow> records recs t rid = records recs u rid"
    have "records recs t rid = records recs s rid" if "rid \<in> identity_records" for rid
      using v(5) [of rid] identity_not_counter(3) [OF that] g(2) by simp
    then have "holds_identity (records recs t) i" using rn by (simp add: holds_identity_def)
    with v(1-4) show thesis by (intro that) (simp_all add: p g(2) pin_of_def)
  qed (use e env_frameD(1,3) p in \<open>auto simp: pin_of_def\<close>)
qed

lemma boot_up_slots:
  assumes env: "dev_env api recs conf r i" and wr: "writes_ok api" and im: "boot_img api conf img"
    and h: "holds_identity (recs w) i" "identity_ok i" and up: "dstep api recs conf (Off w) (On http 0 b)"
  shows "running api recs conf i b \<and> slots_of (records recs b) = boot_spec (img w) (slots_of (recs w))"
proof -
  note e = env [unfolded dev_env_def]
  obtain s s1 where s: "w = world s" "cold s" "meshanics_agent_start api (Some conf) s = (MESHANICS_OK, s1)"
    "agent_boot api s1 = Returned (Some http) b"
    using up by (auto simp: dstep_Off)
  note c = start_ok [OF s(3)]
  have g: "store_good api recs s1" using e s(2) c(3) by (simp add: store_good_def cold_def)
  have r: "records recs s1 = recs w" using c(2) s(1) by (simp add: records_def)
  have "store_good api recs b \<and> self_cfg b = self_cfg s1 \<and> pinned b = pin_of i
    \<and> slots_of (records recs b) = boot_spec (img (world s1)) (slots_of (records recs s1)) \<and> holds_identity (records recs b) i"
    by (rule boot_online_slots [OF s(4) _ _ g _ h(2) _ wr]) (use e im r c(1) h(1) in simp_all)
  then show ?thesis using c(1,2) s(1) r by (simp add: running_def)
qed

lemma running_reboot:
  assumes "dev_env api recs conf r i" "slot_kept api r" "running api recs conf i b" "agent_loop api http n turns b = Rebooted t"
  shows "installs (ED25519_verify api) (manifest_pub i) (slots_of (records recs b)) (counter_of (records recs t) PENDING_NVS_ID)"
  using loop_reboot [OF _ _ assms(2,4), of recs] assms(1,3) by (simp add: dev_env_def running_def pin_of_def)



section \<open>The poll installs what it may install\<close>

lemma poll_installs:
  assumes "net_frame api recs" "boot_frame api recs" "app_frame (self_cfg s) recs" "store_good api recs s" "writes_ok api"
    and "\<And>w. fst (boot_request_upgrade_test api w) = 0"
    and "plat_fetch_manifest api MANIFEST_BUF s = ((n, buf), s1)" "0 < n"
    and "md_verify (ED25519_verify api) (pinned s) buf (nat n) = Ok m"
    and "counter_of (records recs s) COUNTER_NVS_ID < rollback_counter m"
    and "rollback_counter m \<noteq> counter_of (records recs s) FAILED_NVS_ID"
    and "plat_stage_image api (Some (v_sha256 (view buf m) @ [0])) (size_bytes m)
      (set_state MESHANICS_STATE_UPDATING (snd (plat_failed_counter api (snd (plat_applied_counter api s1))))) = Some (0, s4)"
  shows "\<exists>s'. poll_once api s = Rebooted s' \<and> counter_of (records recs s') PENDING_NVS_ID = rollback_counter m"
proof -
  obtain s2 s3 where ap: "plat_applied_counter api s1 = (counter_of (records recs s) COUNTER_NVS_ID, s2)"
    and fa: "plat_failed_counter api s2 = (counter_of (records recs s) FAILED_NVS_ID, s3)"
    and k: "\<forall>t \<in> {s1, s2, s3}. keeps api recs s t \<and> self_cfg t = self_cfg s \<and> pinned t = pinned s"
    by (rule poll_reads [OF assms(1,4,7)])
  define t where "t = set_state MESHANICS_STATE_UPDATING s3"
  have "keeps api recs s t" unfolding t_def by (rule keeps_trans [OF _ set_state_keeps]) (use k assms(3) in simp_all)
  moreover have st: "plat_stage_image api (Some (v_sha256 (view buf m) @ [0])) (size_bytes m) t = Some (0, s4)"
    using assms(12) by (simp add: ap fa t_def)
  ultimately have "keeps api recs s s4" using keeps_trans only_world_keeps [OF stage_image_frame [OF assms(1,2)]] by blast
  then have g4: "store_good api recs s4" using assms(4) by (simp add: keeps_def)
  obtain q s5 where at: "plat_store_attempted_version api (Some (cstr (take 31 (v_version (view buf m))))) s4 = (q, s5)" by fastforce
  have g5: "store_good api recs s5" using store_write_good(1) [OF g4] at by (fastforce simp: plat_store_attempted_version_def)
  obtain q2 s6 where co: "plat_commit_and_reboot api (rollback_counter m) s5 = (q2, s6)" by fastforce
  have q2: "q2 = None"
    using assms(6) reliable_write_rc [OF g5 assms(5)] co
    by (auto simp: plat_commit_and_reboot_def plat_store_pending_def Let_def split_beta)
  have "pinned s1 = pinned s" using k by simp
  from poll_accepted [OF assms(7,8) ap fa this assms(9-11)] have "poll_once api s = Rebooted s6"
    by (simp add: t_def [symmetric] st at co q2)
  then show ?thesis using commit_records(3) [OF g5 assms(2) co q2] by simp
qed

text \<open>
  C11. The poll does install: when the server hands out a manifest that verifies under the pinned key, whose counter is above the applied one and
  not the failed one, the image is staged, the store takes its writes and MCUboot accepts the request, the device reboots
  with that counter pending.
\<close>

theorem poll_installs_update:
  assumes "net_frame api recs" "boot_frame api recs" "app_frame (self_cfg s) recs" "store_good api recs s" "writes_ok api"
    and "\<And>w. fst (boot_request_upgrade_test api w) = 0"
    and "plat_fetch_manifest api MANIFEST_BUF s = ((n, buf), s1)" "0 < n"
    and "md_verify (ED25519_verify api) (pinned s) buf (nat n) = Ok m"
    and "counter_of (records recs s) COUNTER_NVS_ID < rollback_counter m"
    and "rollback_counter m \<noteq> counter_of (records recs s) FAILED_NVS_ID"
    and "plat_stage_image api (Some (v_sha256 (view buf m) @ [0])) (size_bytes m)
      (set_state MESHANICS_STATE_UPDATING (snd (plat_failed_counter api (snd (plat_applied_counter api s1))))) = Some (0, s4)"
  shows "\<exists>s'. poll_once api s = Rebooted s' \<and> counter_of (records recs s') PENDING_NVS_ID = rollback_counter m"
  by (rule poll_installs [OF assms])

end
