(* ===== verification/Agent_Sim.thy ===== *)
theory Agent_Sim
  imports Update_Cycle
begin

text \<open>
  An instance of all parameters of the agent, on which the properties of the agent and of the device are evaluated: a poll
  that fetches a signed manifest and a three-byte image and reboots, and a boot.
\<close>

section \<open>A simulated agent\<close>

text \<open>The simulated chip with a status port; a signature check that accepts one signed manifest, for a three-byte image.\<close>

record sim_agent = sim_chip +
  sim_backlog :: nat

definition update_view :: manifest_view where
  "update_view = sample_view\<lparr>v_sha256 := hex_text (sim_sha [1, 2, 3]), v_size := 3, v_counter := 7\<rparr>"

definition sim_ed :: ed25519_fn where
  "sim_ed msg sig pub = (if msg = MD_SIGN_CONTEXT @ enc_manifest update_view \<and> sig = replicate 64 2 then 1 else 0)"

definition update_message :: "byte list" where
  "update_message = enc_signed (enc_manifest update_view) (key_id enrolled_identity) (str ''ed25519'') (replicate 64 2)"

definition sim_agent_ext :: "'x \<Rightarrow> ('a sim_agent_scheme, 'x) agent_api_ext" where
  "sim_agent_ext ext = agent_api_ext (str ''0.1.0'') (str ''esp32s3'') 30 8080 4096 (Some sample_prov) False sim_ed
     8 1 2 16 4
     (\<lambda>w. (0, 8, w))
     (\<lambda>w. (5000, w))
     (\<lambda>fd port w. (0, w))
     (\<lambda>fd n w. (0, w))
     (\<lambda>fd w. (if 0 < sim_backlog w then (1, True) else (0, False), w))
     (\<lambda>fd w. (5, w\<lparr>sim_backlog := sim_backlog w - 1\<rparr>))
     (\<lambda>fd w. (None, w))
     (\<lambda>a. str ''192.0.2.9'')
     (\<lambda>w. ring_start 16) ext"

abbreviation sim_api :: "(sim_agent, byte list \<times> bool, byte list, unit, byte list) agent_api" where
  "sim_api \<equiv> sim_chip_api (sim_agent_ext ())"

lemma sim_api_sel:
  "CONFIG_MESHANICS_FW_VERSION sim_api = str ''0.1.0''" "CONFIG_BOARD sim_api = str ''esp32s3''" "POLL_TICKS sim_api = 30"
  "MESHANICS_PROVISIONING sim_api = Some sample_prov" "ED25519_verify sim_api = sim_ed"
  "zsock_poll sim_api = (\<lambda>fd w. (if 0 < sim_backlog w then (1, True) else (0, False), w))"
  "zsock_accept sim_api = (\<lambda>fd w. (5, w\<lparr>sim_backlog := sim_backlog w - 1\<rparr>))"
  "char_signed sim_api = False" "log_ring sim_api = (\<lambda>w. ring_start 16)" "CONFIG_MESHANICS_LOG_BUF_SIZE sim_api = 4096"
  by (simp_all add: sim_net_def sim_boot_ext_def sim_chip_ext_def sim_agent_ext_def del: str_Cons)

definition no_callbacks :: "'w meshanics_config" where
  "no_callbacks = \<lparr>firmware_version = None, on_state = None, health = None\<rparr>"

definition agent_start_state :: "'w \<Rightarrow> 'w agent_state" where
  "agent_start_state w = \<lparr>world = w, store_fs = \<lparr>fs_offset = 0, fs_sector_size = 0, fs_sector_count = 0\<rparr>,
     store_ready = False, cfg = sample_prov, wifi_connected = False, resp_buf = replicate 4096 0, self_cfg = no_callbacks,
     version = None, state = MESHANICS_STATE_BOOT, started = False, ident = enrolled_identity,
     pinned = \<lparr>pk_pub = manifest_pub enrolled_identity, pk_key_id = key_id enrolled_identity\<rparr>, requests_served = 0\<rparr>"

definition sample_agent :: "byte list list \<Rightarrow> sim_agent" where
  "sample_agent responses = \<lparr>sim_nvs = (\<lambda>_. None), sim_responses = responses, sim_rx = [], sim_creds = [],
     sim_slot = [], sim_confirmed = True, sim_swap = False, sim_keys = [], sim_backlog = 0\<rparr>"

lemma sim_agent_frame: "agent_frame sim_api sim_nvs"
  by (simp add: agent_frame_def sim_net_def sim_boot_ext_def sim_chip_ext_def sim_agent_ext_def)

lemma sim_env: "env_frame sim_api sim_nvs"
  by (simp add: env_frame_def sim_chip_frames sim_boot_nvs sim_agent_frame)

lemma sim_app: "app_frame (self_cfg (agent_start_state w)) f"
  by (simp add: app_frame_def agent_start_state_def no_callbacks_def)

lemma sim_no_callbacks: "app_frame no_callbacks f"
  by (simp add: app_frame_def no_callbacks_def)

lemma sim_agent_good: "store_good sim_api sim_nvs (agent_start_state w)"
  by (simp add: store_good_def sim_net_nvs agent_start_state_def)

lemma sim_fw_env: "fw_env sim_api sim_fw"
  by (simp add: fw_env_def sim_flash_img_ok sim_slot_hash_ok sim_boot_sock sim_boot_frame)

lemma sim_slot_kept: "slot_kept sim_api sim_fw"
  by (simp add: slot_kept_def nvs_frame_def sim_fw_def sim_net_def sim_boot_ext_def)

lemma sim_writes_ok: "writes_ok sim_api"
  by (simp add: writes_ok_def sim_net_def)

lemma sim_sizes_ok: "sizes_ok sim_ed pub"
proof -
  have "case decode_body (enc_manifest update_view) of Some v \<Rightarrow> v_size v = 3 | None \<Rightarrow> False" by code_simp
  then have "decode_body (enc_manifest update_view) = Some v \<Longrightarrow> v_size v = 3" for v by simp
  then show ?thesis by (auto simp: sizes_ok_def authentic_def sim_ed_def FW_BUF_def split: if_splits)
qed

lemma poll_always_defined_witness:
  "\<exists>s'. poll_once sim_api (agent_start_state (sample_agent [])) \<in> {Returned () s', Rebooted s'}
    \<and> counter_of (records sim_nvs s') COUNTER_NVS_ID = counter_of (records sim_nvs (agent_start_state (sample_agent []))) COUNTER_NVS_ID
    \<and> counter_of (records sim_nvs s') FAILED_NVS_ID = counter_of (records sim_nvs (agent_start_state (sample_agent []))) FAILED_NVS_ID"
  by (rule poll_always_defined [OF sim_chip_frames(8) sim_boot_nvs(2) sim_app sim_agent_good sim_fw_env])
    (simp only: sim_api_sel sim_sizes_ok)

abbreviation update_buf :: "byte list" where
  "update_buf \<equiv> update_message @ drop (length update_message) (http_ok update_message @ [0])"

lemma update_verified:
  "case md_verify sim_ed \<lparr>pk_pub = manifest_pub enrolled_identity, pk_key_id = key_id enrolled_identity\<rparr> update_buf
       (length update_message) of
     Ok m \<Rightarrow> rollback_counter m = 7 \<and> size_bytes m = 3
       \<and> load_slice update_buf (sha256 m) 64 = (Ok (hex_text (sim_sha [1, 2, 3])) :: (unit, byte list) cres)
       \<and> sl_len (artifact_version m) = 1 \<and> load_slice update_buf (artifact_version m) 1 = (Ok [49] :: (unit, byte list) cres)
   | _ \<Rightarrow> False"
  by code_simp

lemma sim_fetch:
  assumes "cfg s = sample_prov" "sim_responses (world s) = http_ok body # rs" "length body < 1000"
  shows "plat_fetch_manifest (sim_net ext) MANIFEST_BUF s = ((int (length body), body @ drop (length body) (http_ok body @ [0])),
    s\<lparr>world := (world s)\<lparr>sim_responses := rs, sim_rx := []\<rparr>\<rparr>)"
proof -
  have "length (get_request (str ''/device/manifest'') sample_prov) < 256" by code_simp
  moreover have "length (http_ok body) \<le> MANIFEST_BUF - 1" using assms(3) by (simp add: http_ok_parts MANIFEST_BUF_def)
  ultimately show ?thesis
    using assms by (simp add: plat_fetch_manifest_def sim_calls http_ok_parts Let_def del: str_Cons One_nat_def)
qed

lemma sim_read_world [simp]: "world (snd (read_counter (sim_net ext) rid s)) = world s"
  by (simp add: read_counter_def plat_store_read_def store_mount_def sim_net_def Let_def split_beta)

text \<open>A state of the thread at which the server has the update, and what the calls of the poll return there.\<close>

definition update_ready :: "sim_agent agent_state \<Rightarrow> bool" where
  "update_ready s \<longleftrightarrow> cfg s = sample_prov \<and> self_cfg s = no_callbacks \<and> pinned s = pin_of enrolled_identity
     \<and> store_good sim_api sim_nvs s \<and> sim_responses (world s) = [http_ok update_message, http_ok [1, 2, 3, 4]]
     \<and> counter_of (records sim_nvs s) COUNTER_NVS_ID < 7 \<and> counter_of (records sim_nvs s) FAILED_NVS_ID \<noteq> 7"

lemma sim_update_ready:
  assumes r: "update_ready s"
  obtains m s1 s4 where "plat_fetch_manifest sim_api MANIFEST_BUF s = ((int (length update_message), update_buf), s1)"
    "0 < int (length update_message)"
    "md_verify (ED25519_verify sim_api) (pinned s) update_buf (nat (int (length update_message))) = Ok m"
    "rollback_counter m = 7" "counter_of (records sim_nvs s) COUNTER_NVS_ID < rollback_counter m"
    "rollback_counter m \<noteq> counter_of (records sim_nvs s) FAILED_NVS_ID"
    "plat_stage_image sim_api (Some (v_sha256 (view update_buf m) @ [0])) (size_bytes m)
      (set_state MESHANICS_STATE_UPDATING (snd (plat_failed_counter sim_api (snd (plat_applied_counter sim_api s1))))) = Some (0, s4)"
proof -
  note r = r [unfolded update_ready_def]
  define s1 where "s1 = s\<lparr>world := (world s)\<lparr>sim_responses := [http_ok [1, 2, 3, 4]], sim_rx := []\<rparr>\<rparr>"
  have len: "length update_message < 1000 \<and> 0 < length update_message" by code_simp
  have fe: "plat_fetch_manifest sim_api MANIFEST_BUF s = ((int (length update_message), update_buf), s1)"
    unfolding s1_def by (rule sim_fetch) (use r len in simp_all)
  obtain m where m: "md_verify sim_ed (pin_of enrolled_identity) update_buf (length update_message) = Ok m"
    "rollback_counter m = 7" "size_bytes m = 3"
    "load_slice update_buf (sha256 m) 64 = (Ok (hex_text (sim_sha [1, 2, 3])) :: (unit, byte list) cres)"
    using update_verified by (auto simp: pin_of_def split: cres.splits)
  have "load_slice update_buf (sha256 m) 64 = (Ok (v_sha256 (view update_buf m)) :: (unit, byte list) cres)"
    by (rule verified_manifest(2) [OF _ m(1)]) simp
  then have sha: "v_sha256 (view update_buf m) = hex_text (sim_sha [1, 2, 3])" using m(4) by simp
  define t where "t = set_state MESHANICS_STATE_UPDATING (snd (plat_failed_counter sim_api (snd (plat_applied_counter sim_api s1))))"
  note mt = more_agent [OF counter_more(3) [of sim_api "snd (plat_applied_counter sim_api s1)"]]
    more_agent [OF counter_more(1) [of sim_api s1]]
  have t: "cfg t = sample_prov" "sim_responses (world t) = [http_ok [1, 2, 3, 4]]"
    using r mt by (simp_all add: t_def s1_def set_state_def no_callbacks_def plat_applied_counter_def plat_failed_counter_def)
  note st = sim_staged3 [OF t]
  have "pinned s = pin_of enrolled_identity" using r by simp
  then have md: "md_verify (ED25519_verify sim_api) (pinned s) update_buf (nat (int (length update_message))) = Ok m"
    using m(1) by (simp only: nat_int sim_api_sel(5))
  have lp: "0 < int (length update_message)" using len by (simp only: of_nat_0_less_iff)
  have c: "counter_of (records sim_nvs s) COUNTER_NVS_ID < rollback_counter m"
    "rollback_counter m \<noteq> counter_of (records sim_nvs s) FAILED_NVS_ID" using r unfolding m(2) by auto
  show thesis by (rule that [OF fe lp md m(2) c st [unfolded t_def, folded sha m(3)]])
qed

lemma sim_poll_installs:
  assumes "update_ready s"
  shows "\<exists>s'. poll_once sim_api s = Rebooted s' \<and> counter_of (records sim_nvs s') PENDING_NVS_ID = 7"
proof (rule sim_update_ready [OF assms])
  note r = assms [unfolded update_ready_def]
  fix m s1 s4
  assume m: "plat_fetch_manifest sim_api MANIFEST_BUF s = ((int (length update_message), update_buf), s1)"
    "0 < int (length update_message)"
    "md_verify (ED25519_verify sim_api) (pinned s) update_buf (nat (int (length update_message))) = Ok m"
    "counter_of (records sim_nvs s) COUNTER_NVS_ID < rollback_counter m"
    "rollback_counter m \<noteq> counter_of (records sim_nvs s) FAILED_NVS_ID"
    "plat_stage_image sim_api (Some (v_sha256 (view update_buf m) @ [0])) (size_bytes m)
      (set_state MESHANICS_STATE_UPDATING (snd (plat_failed_counter sim_api (snd (plat_applied_counter sim_api s1))))) = Some (0, s4)"
    "rollback_counter m = 7"
  have "app_frame (self_cfg s) sim_nvs" using r sim_no_callbacks by simp
  from poll_installs [OF sim_chip_frames(8) sim_boot_nvs(2) this _ sim_writes_ok _ m(1-6)] r m(7)
  show ?thesis by (simp add: sim_boot_sel)
qed

lemma sim_start_ready: "update_ready (agent_start_state (sample_agent [http_ok update_message, http_ok [1, 2, 3, 4]]))"
  using sim_agent_good by (simp add: update_ready_def agent_start_state_def sample_agent_def pin_of_def records_def counter_of_def)


theorem boot_confirm_refines_witness:
  "\<exists>s'. boot_confirm sim_api True (agent_start_state (sample_agent [])) = Returned () s'
    \<and> slots_of (records sim_nvs s') = boot_spec True (slots_of (records sim_nvs (agent_start_state (sample_agent []))))"
proof -
  have "boot_is_img_confirmed sim_api (world (agent_start_state (sample_agent []))) = (True, sample_agent [])"
    by (simp add: sim_boot_sel agent_start_state_def sample_agent_def)
  from boot_confirm_refines [OF sim_boot_nvs(2) sim_agent_good sim_writes_ok this] show ?thesis by blast
qed

theorem boot_never_lowers_counter_witness:
  "\<exists>s'. boot_confirm sim_api True (agent_start_state (sample_agent [])) = Returned () s'
    \<and> counter_of (records sim_nvs (agent_start_state (sample_agent []))) COUNTER_NVS_ID
        \<le> counter_of (records sim_nvs s') COUNTER_NVS_ID"
proof -
  obtain s' where s': "boot_confirm sim_api True (agent_start_state (sample_agent [])) = Returned () s'"
    by (rule boot_confirm_outcome [OF sim_boot_nvs(2) sim_agent_good])
  from boot_never_lowers_counter [OF sim_boot_nvs(2) sim_agent_good s'] s' show ?thesis by blast
qed

lemma agent_starts_once_witness:
  "\<exists>s1. meshanics_agent_start sim_api None (agent_start_state (sample_agent [])) = (MESHANICS_OK, s1)
    \<and> meshanics_agent_start sim_api (Some no_callbacks) s1 = (MESHANICS_ERR_STATE, s1)"
proof -
  have "\<not> started (agent_start_state (sample_agent []))" by (simp add: agent_start_state_def)
  from agent_starts_once [OF this, of sim_api None "Some no_callbacks"] show ?thesis by blast
qed

end
