(* ===== verification/Device_Sim.thy ===== *)
theory Device_Sim
  imports Agent_Sim
begin

text \<open>
  The simulated agent as a device: a first boot that enrolls, a boot with a stored identity, a status port with two waiting clients,
  and a chip that cannot confirm its image. The properties of \<open>Agent_Run\<close> and \<open>Device\<close> are evaluated on them.
\<close>

section \<open>A simulated device\<close>

definition enrolled_nvs :: "u16 \<Rightarrow> byte list option" where
  "enrolled_nvs = [ID_CERT \<mapsto> device_cert_pem enrolled_identity, ID_KEY \<mapsto> device_key_pem enrolled_identity,
     ID_KEYID \<mapsto> key_id enrolled_identity, ID_PUB \<mapsto> manifest_pub enrolled_identity]"

definition enrolled_world :: sim_agent where
  "enrolled_world = (sample_agent [])\<lparr>sim_nvs := enrolled_nvs, sim_backlog := 2\<rparr>"

abbreviation started_state :: "sim_agent \<Rightarrow> sim_agent agent_state" where
  "started_state w \<equiv> snd (meshanics_agent_start sim_api (Some no_callbacks) (agent_start_state w))"

lemma sim_identity: "holds_identity (sim_nvs enrolled_world) enrolled_identity" "identity_ok enrolled_identity"
  by (simp_all add: holds_identity_def enrolled_world_def enrolled_nvs_def identity_ids identity_ok_def enrolled_identity_def
      CERT_CAP_def KEY_CAP_def KEYID_CAP_def)

lemma sim_dev_env: "dev_env sim_api sim_nvs no_callbacks sim_fw i"
  using sim_sizes_ok sim_app [of "sample_agent []" sim_nvs]
  by (simp add: dev_env_def sim_env sim_net_nvs sim_chip_pem_ok sim_fw_env sim_api_sel agent_start_state_def)

lemma sim_cold: "cold (agent_start_state w)"
  by (simp add: cold_def agent_start_state_def)

lemma sim_started: "meshanics_agent_start sim_api (Some no_callbacks) (agent_start_state w) = (MESHANICS_OK, started_state w)"
  by (simp add: meshanics_agent_start_def agent_start_state_def Let_def)

lemma sim_wifi_up: "fst (plat_net_wifi_up (sim_net ext) (Some p) s) = 0"
proof -
  have "wifi_connected (wifi_wait_loop (sim_net ext) (Suc n) t)" for n t
    by (cases n) (simp_all add: sleep_ms_def sim_net_def wifi_evt_def)
  from this [of 199] show ?thesis by (simp add: plat_net_wifi_up_def Let_def)
qed

lemma sim_set_identity: "fst (plat_net_set_identity (sim_net ext) (Some p) (Some i) s) = 0"
  by (simp add: plat_net_set_identity_def sim_net_def)

lemma sim_started_sel:
  "world (started_state w) = w" "self_cfg (started_state w) = no_callbacks" "store_good sim_api sim_nvs (started_state w)"
  using sim_agent_good [of w]
  by (simp_all add: meshanics_agent_start_def agent_start_state_def Let_def store_good_def no_callbacks_def)

lemma sim_online:
  assumes "store_good sim_api sim_nvs s" "app_frame (self_cfg s) sim_nvs"
  shows "\<exists>http s'. agent_online sim_api sample_prov s = Returned (Some http) s'"
proof -
  obtain s6 where si: "plat_net_set_identity sim_api (Some sample_prov) (Some (ident s)) s = (0, s6)"
    using sim_set_identity by (metis prod.collapse)
  have "store_good sim_api sim_nvs s6" using steady_good [OF steady_set_identity [OF sim_chip_frames(9) si] assms(1)] by simp
  then obtain s7 where "boot_confirm sim_api True s6 = Returned () s7" using boot_confirm_outcome [OF sim_boot_nvs(2)] by metis
  then show ?thesis by (simp add: agent_online_def si split_beta Let_def)
qed

text \<open>The network comes up without a change of the world; the identity is established there, and the thread goes online.\<close>

lemma sim_mgmt_world: "mgmt_frame sim_api (\<lambda>w. (sim_nvs w, sim_responses w, sim_keys w))"
  unfolding mgmt_frame_def by (simp add: sim_api_sel) (simp add: sim_net_def)

lemma sim_boots_when:
  assumes "\<And>s4 :: sim_agent agent_state. store_good sim_api sim_nvs s4 \<Longrightarrow> sim_nvs (world s4) = sim_nvs w \<Longrightarrow> sim_responses (world s4) = sim_responses w
      \<Longrightarrow> sim_keys (world s4) = sim_keys w \<Longrightarrow> self_cfg s4 = no_callbacks \<Longrightarrow> length (resp_buf s4) = 4096
      \<Longrightarrow> \<exists>s5. establish_identity sim_api sample_prov s4 = Returned True s5 \<and> store_good sim_api sim_nvs s5 \<and> self_cfg s5 = no_callbacks"
  shows "\<exists>http s'. agent_boot sim_api (started_state w) = Returned (Some http) s'"
proof -
  let ?s = "started_state w"
  define t where "t = set_state MESHANICS_STATE_CONNECTING (set_state MESHANICS_STATE_BOOT ?s)"
  have kt: "steady sim_api sim_nvs ?s t"
    unfolding t_def by (intro steady_trans [OF steady_state steady_state]) (simp_all add: sim_started_sel(2) sim_no_callbacks)
  have t: "world t = w" "length (resp_buf t) = 4096"
    by (simp_all add: t_def set_state_def sim_started_sel meshanics_agent_start_def agent_start_state_def Let_def no_callbacks_def)
  obtain s4 where wi: "plat_net_wifi_up sim_api (Some sample_prov) t = (0, s4)" using sim_wifi_up by (metis prod.collapse)
  note k4 = steady_trans [OF kt steady_wifi [OF sim_chip_frames(9) wi]]
  note g4 = steady_good [OF k4 sim_started_sel(3)]
  have m: "net_state.more s4 = net_state.more t" using wifi_up_more [of sim_api "Some sample_prov" t] by (simp add: wi)
  have b4: "length (resp_buf s4) = 4096" using t(2) m by (cases s4; cases t; simp)
  have w4: "sim_nvs (world s4) = sim_nvs w" "sim_responses (world s4) = sim_responses w" "sim_keys (world s4) = sim_keys w"
    using wifi_up_same [OF sim_mgmt_world wi] t(1) by (simp_all add: same_store_def)
  have c4: "self_cfg s4 = no_callbacks" using k4 by (simp add: steady_def sim_started_sel(2))
  from assms [OF conjunct1 [OF g4] w4 c4 b4]
  obtain s5 where es: "establish_identity sim_api sample_prov s4 = Returned True s5" "store_good sim_api sim_nvs s5"
    "self_cfg s5 = no_callbacks" by blast
  have "\<exists>http s'. agent_online sim_api sample_prov s5 = Returned (Some http) s'"
    by (rule sim_online) (use es(2,3) in \<open>simp_all add: sim_no_callbacks\<close>)
  moreover have "agent_boot sim_api ?s = agent_online sim_api sample_prov s5"
    by (simp add: agent_boot_def sim_chip_sel sim_api_sel meshanics_provisioning_get_def Let_def t_def [symmetric] wi es(1))
  ultimately show ?thesis by simp
qed

lemma sim_boots:
  assumes "holds_identity (sim_nvs w) enrolled_identity"
  shows "\<exists>http s'. agent_boot sim_api (started_state w) = Returned (Some http) s'"
proof (rule sim_boots_when)
  fix s4 :: "sim_agent agent_state"
  assume *: "store_good sim_api sim_nvs s4" "sim_nvs (world s4) = sim_nvs w" "self_cfg s4 = no_callbacks"
  have h: "holds_identity (records sim_nvs s4) enrolled_identity" using *(2) assms by (simp add: records_def)
  show "\<exists>s5. establish_identity sim_api sample_prov s4 = Returned True s5 \<and> store_good sim_api sim_nvs s5 \<and> self_cfg s5 = no_callbacks"
    by (rule establish_stored [OF *(1) h sim_identity(2), of sample_prov]) (use *(1,3) in \<open>auto simp: keeps_def\<close>)
qed


lemma sim_backlog_ok: "backlog_ok sim_api fd sim_backlog"
proof -
  have "net_frame sim_api sim_backlog" by (rule sim_net_frame) simp_all
  moreover have "dev_frame sim_api sim_backlog" "nvs_frame sim_api sim_backlog"
    by (simp_all add: dev_frame_def nvs_frame_def sim_chip_sel) (simp_all add: sim_net_def)
  ultimately show ?thesis
    by (simp add: backlog_ok_def sim_api_sel) (simp add: sim_net_def sim_boot_ext_def sim_chip_ext_def sim_agent_ext_def)
qed



lemma reliable_save:
  assumes "store_good api recs s" "writes_ok api"
  shows "fst (meshanics_identity_save api (Some i) s) = 0"
proof -
  obtain r1 s1 where 1: "plat_store_write api ID_CERT (device_cert_pem i) s = (r1, s1)" by fastforce
  obtain r2 s2 where 2: "plat_store_write api ID_KEY (device_key_pem i) s1 = (r2, s2)" by fastforce
  obtain r3 s3 where 3: "plat_store_write api ID_KEYID (key_id i) s2 = (r3, s3)" by fastforce
  obtain r4 s4 where 4: "plat_store_write api ID_PUB (manifest_pub i) s3 = (r4, s4)" by fastforce
  note g1 = store_write_good(1) [OF assms(1) 1]
  note g2 = store_write_good(1) [OF g1 2]
  note g3 = store_write_good(1) [OF g2 3]
  have "r1 = 0" "r2 = 0" "r3 = 0" "r4 = 0"
    using reliable_write_rc [OF assms(1,2), of ID_CERT "device_cert_pem i"] reliable_write_rc [OF g1 assms(2), of ID_KEY "device_key_pem i"]
      reliable_write_rc [OF g2 assms(2), of ID_KEYID "key_id i"] reliable_write_rc [OF g3 assms(2), of ID_PUB "manifest_pub i"]
    by (simp_all add: 1 2 3 4)
  then show ?thesis by (simp add: meshanics_identity_save_def 1 2 3 4)
qed

lemma sim_exists_world: "world (snd (plat_store_exists (sim_net ext) rid s)) = world s"
  by (simp add: plat_store_exists_def store_mount_def sim_net_def Let_def split_beta)

lemma sim_identity_exists_world: "world (snd (meshanics_identity_exists (sim_net ext) s)) = world s"
  by (simp add: meshanics_identity_exists_def sim_exists_world Let_def split_beta)

abbreviation fresh_state :: "sim_agent agent_state" where
  "fresh_state \<equiv> agent_start_state (sample_agent [claim_answer, key_answer])"

lemma sim_enrolls:
  assumes "store_good sim_api sim_nvs s" "sim_nvs (world s) ID_PUB = None" "sim_responses (world s) = [claim_answer, key_answer]"
    "sim_keys (world s) = []" "self_cfg s = no_callbacks" "length (resp_buf s) = 4096"
  shows "\<exists>s'. establish_identity sim_api sample_prov s = Returned True s' \<and> store_good sim_api sim_nvs s' \<and> self_cfg s' = no_callbacks"
proof -
  obtain ex s1 where e: "meshanics_identity_exists sim_api s = (ex, s1)" by fastforce
  have ex: "\<not> ex" using exists_good(1) [OF assms(1)] assms(2) e by (simp add: records_def)
  have w1: "world s1 = world s" using sim_identity_exists_world by (metis e snd_conv)
  have m: "store_state.more s1 = store_state.more s" using identity_exists_more by (metis e snd_conv)
  have c1: "self_cfg s1 = no_callbacks" "length (resp_buf s1) = 4096"
    using m assms(5,6) by (cases s1; cases s; simp)+
  define s2 where "s2 = set_state MESHANICS_STATE_ENROLLING s1"
  have s2: "s2 = s1\<lparr>state := MESHANICS_STATE_ENROLLING\<rparr>" by (simp add: s2_def set_state_def c1 no_callbacks_def)
  obtain r s3 where en: "meshanics_enroll sim_api (Some sample_prov) True s2 = (r, s3)" by fastforce
  have "fst (meshanics_enroll sim_api (Some sample_prov) True s2) = Ok enrolled_identity"
    by (rule sim_enrolled) (simp_all add: s2 c1 w1 assms)
  then have r: "r = Ok enrolled_identity" by (simp add: en)
  have "keeps sim_api sim_nvs s s2" unfolding s2_def
    by (rule keeps_trans [OF identity_exists_keeps [OF e] set_state_keeps]) (simp add: c1 sim_no_callbacks)
  moreover have "keeps sim_api sim_nvs s2 s3"
    by (rule same_store_keeps [OF enroll_same [OF sim_chip_frames(8-10) key_frame_neutral [OF sim_chip_frames(11)] en]])
  ultimately have "store_good sim_api sim_nvs s3" using assms(1) by (simp add: keeps_def)
  then have g: "store_good sim_api sim_nvs (s3\<lparr>ident := enrolled_identity\<rparr>)" by (simp add: store_good_def)
  note rc = reliable_save [OF g sim_writes_ok, of enrolled_identity]
  obtain s' where s': "establish_identity sim_api sample_prov s = Returned True s'"
    using ex rc by (simp add: establish_identity_def e s2_def [symmetric] en r Let_def split_beta)
  have "app_frame (self_cfg s) sim_nvs" using assms(5) sim_no_callbacks by simp
  then have "store_good sim_api sim_nvs s' \<and> self_cfg s' = self_cfg s"
    by (rule establish_outcome [OF sim_env _ assms(1) sim_chip_pem_ok, of sample_prov]) (use s' in auto)
  with s' assms(5) show ?thesis by auto
qed

lemma sim_first_boot: "\<exists>s'. establish_identity sim_api sample_prov fresh_state = Returned True s'"
  using sim_enrolls [OF sim_agent_good, of "sample_agent [claim_answer, key_answer]"]
  by (auto simp: agent_start_state_def sample_agent_def)

lemma sim_not_enrolled: "\<not> fst (meshanics_identity_exists sim_api fresh_state)"
  using exists_good(1) [OF sim_agent_good, of "sample_agent [claim_answer, key_answer]"]
  by (auto simp: records_def agent_start_state_def sample_agent_def)


theorem enrolled_identity_persists_witness:
  "\<exists>s1 t'. establish_identity sim_api sample_prov fresh_state = Returned True s1
    \<and> establish_identity sim_api sample_prov s1 = Returned True t' \<and> ident t' = ident s1 \<and> pinned t' = pinned s1"
proof -
  obtain s1 where s1: "establish_identity sim_api sample_prov fresh_state = Returned True s1" using sim_first_boot by blast
  have g: "store_good sim_api sim_nvs s1"
  proof (rule establish_outcome [OF sim_env sim_app sim_agent_good sim_chip_pem_ok, of sample_prov "sample_agent [claim_answer, key_answer]"])
  qed (use s1 in auto)
  from enrolled_identity_persists [OF sim_env sim_app sim_agent_good sim_chip_pem_ok sim_not_enrolled s1 g] s1
  show ?thesis by blast
qed

theorem established_identity_typed_witness:
  "\<exists>s'. establish_identity sim_api sample_prov fresh_state = Returned True s' \<and> identity_typed (ident s')"
  using sim_first_boot established_identity_typed [OF sim_env sim_app sim_agent_good sim_chip_pem_ok] by blast

text \<open>A chip that cannot confirm its image, after the swap to an image with the pending counter 7.\<close>

abbreviation stuck_api :: "(sim_agent, byte list \<times> bool, byte list, unit, byte list) agent_api" where
  "stuck_api \<equiv> sim_api\<lparr>boot_write_img_confirmed := \<lambda>w. (-1, w)\<rparr>"

definition swapped_world :: sim_agent where
  "swapped_world = (sample_agent [])\<lparr>sim_nvs := [PENDING_NVS_ID \<mapsto> u64_bytes 7], sim_confirmed := False\<rparr>"

lemma confirm_fails:
  "boot_frame api f \<Longrightarrow> boot_frame (api\<lparr>boot_write_img_confirmed := \<lambda>w. (-1, w)\<rparr>) f"
  "store_good api recs s \<Longrightarrow> store_good (api\<lparr>boot_write_img_confirmed := \<lambda>w. (-1, w)\<rparr>) recs s"
  "writes_ok api \<Longrightarrow> writes_ok (api\<lparr>boot_write_img_confirmed := \<lambda>w. (-1, w)\<rparr>)"
  by (simp_all add: boot_frame_def store_good_def nvs_ok_def writes_ok_def store_geometry_def)

lemmas stuck_ok = confirm_fails(1) [OF sim_boot_nvs(2)] confirm_fails(2) [OF sim_agent_good] confirm_fails(3) [OF sim_writes_ok]

theorem promoted_without_confirmation_witness:
  "\<exists>s'. boot_confirm stuck_api True (agent_start_state swapped_world) = Returned () s'
    \<and> counter_of (records sim_nvs s') COUNTER_NVS_ID = 7 \<and> \<not> md_check_rollback (counter_of (records sim_nvs s') COUNTER_NVS_ID) 7"
proof -
  let ?s = "agent_start_state swapped_world"
  have c: "counter_of (records sim_nvs ?s) COUNTER_NVS_ID = 0" "counter_of (records sim_nvs ?s) PENDING_NVS_ID = 7"
    by (simp_all add: records_def agent_start_state_def swapped_world_def counter_of_def counter_ids)
  have i: "boot_is_img_confirmed stuck_api (world ?s) = (False, swapped_world)"
    by (simp add: sim_boot_sel agent_start_state_def swapped_world_def)
  have f: "fst (boot_write_img_confirmed stuck_api w) \<noteq> 0" for w by simp
  from promoted_without_confirmation [OF stuck_ok i f] c show ?thesis by auto
qed

end
