(* ===== verification/Cycle_Sim.thy ===== *)
theory Cycle_Sim
  imports Device_Sim
begin

text \<open>
  The simulated device in an update: a turn that fetches, stages and commits the signed manifest, the boot after it on either
  image, a chip that finds no access point, and a device after a swap. The properties of \<open>Update_Cycle\<close>, \<open>Agent_End\<close> and the
  anti-rollback of \<open>Device\<close> are evaluated on them.
\<close>

section \<open>A turn that installs\<close>

lemma enrolled_nvs_counters: "counter_of enrolled_nvs COUNTER_NVS_ID = 0" "counter_of enrolled_nvs FAILED_NVS_ID = 0"
  by (simp_all add: counter_of_def enrolled_nvs_def identity_ids counter_ids)

lemma sim_body_fits:
  "case ota_heartbeat_json False True 256 (Some SDK_AGENT_VERSION) (Some []) 0 False (Some (str ''health check failed'')) (Some []) of
     Some body \<Rightarrow> length (post_request (str ''/device/heartbeat'') sample_prov body) < 512 | None \<Rightarrow> False"
  by code_simp

lemma sim_heartbeat_answer:
  fixes s :: "sim_agent agent_state"
  assumes "store_good sim_api sim_nvs s" "cfg s = sample_prov" "sim_responses (world s) = r # rs" "length r < 511"
    and "counter_of (records sim_nvs s) FAILED_NVS_ID = 0"
  obtains s' where "sim_responses (world s') = rs"
    "plat_heartbeat sim_api False [] 0 False (str ''health check failed'') (Some 48) s =
       (if http_status r < 0 then ((http_status r, []), s') else if http_status r \<noteq> 200 then ((-6, []), s')
        else if strstr (cstr r) decommissioned_mark \<noteq> None then ((0, []), s')
        else ((1, case json_extract_string (Some (cstr r)) (Some (str ''request_id'')) True 48 of None \<Rightarrow> [] | Some i \<Rightarrow> i), s'))"
proof -
  obtain failed s1 where fa: "plat_failed_counter sim_api s = (failed, s1)" by fastforce
  have v: "failed = 0" using read_counter_good(1) [OF assms(1), of FAILED_NVS_ID] fa assms(5) by (simp add: plat_failed_counter_def)
  have w: "world s1 = world s" using sim_read_world [of _ FAILED_NVS_ID s] fa unfolding plat_failed_counter_def by (metis snd_conv)
  have c: "cfg s1 = sample_prov"
    using more_agent(3) [OF counter_more(3) [of sim_api s]] fa assms(2) by simp
  obtain body where body: "ota_heartbeat_json False True 256 (Some SDK_AGENT_VERSION) (Some []) 0 False
      (Some (str ''health check failed'')) (Some []) = Some body"
    "length (post_request (str ''/device/heartbeat'') sample_prov body) < 512"
    using sim_body_fits by (auto simp del: str_Cons split: option.splits)
  let ?w = "(world s)\<lparr>sim_responses := rs, sim_rx := []\<rparr>"
  have "post_device sim_api sample_prov (fleet_port sample_prov) (str ''/device/heartbeat'') body 512 (world s1) = ((http_status r, r), ?w)"
    using body(2) assms(4)
    by (simp add: post_device_def w sim_tls_connect [OF assms(3)] sim_send sim_close sim_recv_all Let_def del: str_Cons)
  then show thesis
    by (intro that [of "s1\<lparr>world := ?w\<rparr>"])
      (simp_all add: plat_heartbeat_def fa v c body(1) decommissioned_mark_def Let_def del: str_Cons)
qed

definition update_world :: sim_agent where
  "update_world = (sample_agent [[], http_ok update_message, http_ok [1, 2, 3, 4]])\<lparr>sim_nvs := enrolled_nvs\<rparr>"

abbreviation update_state :: "sim_agent agent_state" where
  "update_state \<equiv> agent_start_state update_world"

lemma update_state_sel:
  "world update_state = update_world" "cfg update_state = sample_prov" "self_cfg update_state = no_callbacks"
  "pinned update_state = pin_of enrolled_identity" "version update_state = None" "records sim_nvs update_state = enrolled_nvs"
  "sim_responses update_world = [[], http_ok update_message, http_ok [1, 2, 3, 4]]"
  by (simp_all add: agent_start_state_def pin_of_def records_def update_world_def sample_agent_def)

text \<open>The start of a poll: the applied counter is read from records that have none.\<close>

lemma sim_applied_start:
  assumes "counter_of (sim_nvs w) COUNTER_NVS_ID = 0"
  obtains s2 where "plat_applied_counter sim_api (agent_start_state w) = (0, s2)" "steady sim_api sim_nvs (agent_start_state w) s2"
    "store_good sim_api sim_nvs s2" "records sim_nvs s2 = sim_nvs w" "world s2 = w" "cfg s2 = sample_prov" "version s2 = None"
proof -
  let ?s = "agent_start_state w"
  have s: "world ?s = w" "cfg ?s = sample_prov" "version ?s = None" by (simp_all add: agent_start_state_def)
  then have r: "records sim_nvs ?s = sim_nvs w" by (simp add: records_def)
  obtain ap s2 where pa: "plat_applied_counter sim_api ?s = (ap, s2)" by fastforce
  note k2 = steady_applied [OF pa, of sim_nvs]
  have ap: "ap = 0"
    using read_counter_good(1) [OF sim_agent_good, of COUNTER_NVS_ID w] pa assms r by (simp add: plat_applied_counter_def)
  have "world s2 = w" using sim_read_world [of _ COUNTER_NVS_ID ?s] pa s(1) unfolding plat_applied_counter_def by (metis snd_conv)
  with more_agent [OF counter_more(1) [of sim_api ?s, unfolded pa snd_conv]] steady_good [OF k2 sim_agent_good] s r
  show thesis by (intro that [OF pa [unfolded ap] k2]) simp_all
qed

lemma sim_tick_installs: "\<exists>t. agent_tick sim_api (-1) 0 update_state = Rebooted t"
proof (rule sim_applied_start [of update_world])
  show "counter_of (sim_nvs update_world) COUNTER_NVS_ID = 0" by (simp add: update_world_def enrolled_nvs_counters)
next
  let ?s = update_state
  fix s2
  assume s2: "plat_applied_counter sim_api ?s = (0, s2)" "steady sim_api sim_nvs ?s s2" "store_good sim_api sim_nvs s2"
    "records sim_nvs s2 = sim_nvs update_world" "world s2 = update_world" "cfg s2 = sample_prov" "version s2 = None"
  have n: "sim_nvs update_world = enrolled_nvs" by (simp add: update_world_def)
  obtain hb s3 where hb: "plat_heartbeat sim_api False [] 0 False (str ''health check failed'') (Some 48) s2 = ((hb, []), s3)" "hb < 0"
    "sim_responses (world s3) = [http_ok update_message, http_ok [1, 2, 3, 4]]"
  proof (rule sim_heartbeat_answer [OF s2(3,6)])
    show "sim_responses (world s2) = [] # [http_ok update_message, http_ok [1, 2, 3, 4]]" by (simp add: s2(5) update_state_sel)
    show "counter_of (records sim_nvs s2) FAILED_NVS_ID = 0" by (simp add: s2(4) n enrolled_nvs_counters)
  qed (use that in \<open>simp_all add: http_status_def\<close>)
  note k3 = steady_trans [OF s2(2) steady_heartbeat [OF sim_chip_frames(8) hb(1)]]
  have "cfg s3 = cfg s2"
    using more_agent(3) [OF heartbeat_more [of sim_api False "[]" 0 False "str ''health check failed''" "Some 48" s2, unfolded hb(1) snd_conv]] .
  then have "update_ready s3"
    using hb(3) k3 steady_good [OF k3 sim_agent_good] s2(6)
    by (simp add: update_ready_def steady_def update_state_sel enrolled_nvs_counters)
  then obtain t where t: "poll_once sim_api s3 = Rebooted t" using sim_poll_installs by blast
  have "agent_poll sim_api (-1) ?s = Rebooted t"
    using hb(2) by (simp add: agent_poll_def self_probe_def s2(1,7) sim_api_sel(8) hb(1) t del: str_Cons)
  then show ?thesis by (simp add: agent_tick_def sim_api_sel(3))
qed

section \<open>The next boot\<close>

lemma sim_boot_up:
  assumes "holds_identity (sim_nvs w) enrolled_identity"
  shows "\<exists>http b. dstep sim_api sim_nvs no_callbacks (Off w) (On http 0 b)"
proof -
  obtain http b where "agent_boot sim_api (started_state w) = Returned (Some http) b" using sim_boots [OF assms] by blast
  from boot_up [OF sim_cold sim_started this, of sim_nvs] show ?thesis by (auto simp: agent_start_state_def)
qed

lemma sim_boot_img: "boot_img sim_api no_callbacks sim_confirmed"
proof -
  have "dev_frame sim_api sim_confirmed" by (simp add: dev_frame_def sim_chip_sel)
  moreover have "mgmt_frame sim_api sim_confirmed" "nvs_frame sim_api sim_confirmed"
    by (simp_all add: mgmt_frame_def nvs_frame_def) (simp_all add: sim_net_def)
  ultimately show ?thesis by (simp add: boot_img_def sim_boot_sel sim_no_callbacks)
qed

text \<open>An enrolled device whose bootloader has just swapped to an image with the pending counter 7.\<close>

definition pending_world :: sim_agent where
  "pending_world = enrolled_world\<lparr>sim_nvs := enrolled_nvs(PENDING_NVS_ID \<mapsto> u64_bytes 7), sim_confirmed := False\<rparr>"

lemma sim_pending:
  "sim_nvs pending_world = enrolled_nvs(PENDING_NVS_ID \<mapsto> u64_bytes 7)" "\<not> sim_confirmed pending_world"
  "holds_identity (sim_nvs pending_world) enrolled_identity"
  by (simp_all add: pending_world_def holds_identity_def enrolled_nvs_def identity_ids counter_ids)

lemma sim_pending_counters:
  "counter_of (sim_nvs pending_world) COUNTER_NVS_ID = 0" "counter_of (sim_nvs pending_world) PENDING_NVS_ID = 7"
  by (simp_all add: sim_pending enrolled_nvs_def counter_of_def identity_ids counter_ids)

lemma sim_promotes:
  "\<exists>http s. dstep sim_api sim_nvs no_callbacks (Off pending_world) (On http 0 s) \<and> counter_of (sim_nvs (world s)) COUNTER_NVS_ID = 7"
proof -
  obtain http b where b: "agent_boot sim_api (started_state pending_world) = Returned (Some http) b" using sim_boots [OF sim_pending(3)] by blast
  have "slots_of (records sim_nvs b)
      = boot_spec (sim_confirmed (world (started_state pending_world))) (slots_of (records sim_nvs (started_state pending_world)))"
    using boot_online_slots [OF b sim_env _ sim_started_sel(3) _ sim_identity(2) _ sim_writes_ok]
    by (simp add: sim_started_sel sim_no_callbacks sim_boot_img records_def sim_pending(3))
  then have "counter_of (sim_nvs (world b)) COUNTER_NVS_ID = 7"
    by (simp add: slots_of_def records_def sim_started_sel sim_pending(2) sim_pending_counters boot_spec_def)
  then show ?thesis using boot_up [OF sim_cold sim_started b, of sim_nvs] by (auto simp: agent_start_state_def)
qed


lemma sim_running: "running sim_api sim_nvs no_callbacks enrolled_identity update_state"
  using sim_identity(1) sim_agent_good by (simp add: running_def update_state_sel enrolled_world_def)

text \<open>The world at the next boot: the bootloader has swapped the images, or put the old one back.\<close>

lemma sim_next_boot:
  assumes "agent_tick sim_api (-1) 0 update_state = Rebooted t"
  obtains http b where "sim_nvs ((world t)\<lparr>sim_confirmed := c\<rparr>) = sim_nvs (world t)" "sim_confirmed ((world t)\<lparr>sim_confirmed := c\<rparr>) = c"
    "dstep sim_api sim_nvs no_callbacks (Off ((world t)\<lparr>sim_confirmed := c\<rparr>)) (On http 0 b)"
proof -
  have "holds_identity (records sim_nvs t) enrolled_identity"
    by (rule turn_reboot_slots [OF sim_dev_env sim_writes_ok sim_running assms])
  then have "holds_identity (sim_nvs ((world t)\<lparr>sim_confirmed := c\<rparr>)) enrolled_identity" by (simp add: records_def)
  from sim_boot_up [OF this] that show thesis by auto
qed



theorem poll_installs_update_witness:
  "\<exists>s'. poll_once sim_api (agent_start_state (sample_agent [http_ok update_message, http_ok [1, 2, 3, 4]])) = Rebooted s'
    \<and> counter_of (records sim_nvs s') PENDING_NVS_ID = 7"
proof -
  let ?s = "agent_start_state (sample_agent [http_ok update_message, http_ok [1, 2, 3, 4]])"
  show ?thesis
  proof (rule sim_update_ready [OF sim_start_ready])
    fix m s1 s4
    assume m: "plat_fetch_manifest sim_api MANIFEST_BUF ?s = ((int (length update_message), update_buf), s1)"
      "0 < int (length update_message)"
      "md_verify (ED25519_verify sim_api) (pinned ?s) update_buf (nat (int (length update_message))) = Ok m"
      "counter_of (records sim_nvs ?s) COUNTER_NVS_ID < rollback_counter m"
      "rollback_counter m \<noteq> counter_of (records sim_nvs ?s) FAILED_NVS_ID"
      "plat_stage_image sim_api (Some (v_sha256 (view update_buf m) @ [0])) (size_bytes m)
        (set_state MESHANICS_STATE_UPDATING (snd (plat_failed_counter sim_api (snd (plat_applied_counter sim_api s1))))) = Some (0, s4)"
      "rollback_counter m = 7"
    from poll_installs_update [OF sim_chip_frames(8) sim_boot_nvs(2) sim_app sim_agent_good sim_writes_ok _ m(1-6)] m(7)
    show ?thesis by (simp add: sim_boot_sel)
  qed
qed

text \<open>A server that has decommissioned the device.\<close>

definition retired_answer :: "byte list" where
  "retired_answer = http_ok decommissioned_mark"

abbreviation retired_state :: "sim_agent agent_state" where
  "retired_state \<equiv> agent_start_state (sample_agent [retired_answer])"

lemma retired_answer_marks:
  "http_status retired_answer = 200 \<and> strstr (cstr retired_answer) decommissioned_mark \<noteq> None \<and> length retired_answer < 511"
  by code_simp

theorem loop_ends_decommissioned_witness:
  "\<exists>s'. agent_loop sim_api (-1) 0 1 retired_state = Returned True s' \<and> state s' = MESHANICS_STATE_OFFLINE
    \<and> (\<exists>body w. decommissioned_answer sim_api sample_prov body w)"
proof (rule sim_applied_start [of "sample_agent [retired_answer]"])
  show "counter_of (sim_nvs (sample_agent [retired_answer])) COUNTER_NVS_ID = 0" by (simp add: sample_agent_def counter_of_def)
next
  let ?s = retired_state
  fix s2
  assume s2: "plat_applied_counter sim_api ?s = (0, s2)" "store_good sim_api sim_nvs s2"
    "records sim_nvs s2 = sim_nvs (sample_agent [retired_answer])" "world s2 = sample_agent [retired_answer]"
    "cfg s2 = sample_prov" "version s2 = None"
  obtain s3 where hb: "plat_heartbeat sim_api False [] 0 False (str ''health check failed'') (Some 48) s2 = ((0, []), s3)"
  proof (rule sim_heartbeat_answer [OF s2(2,5)])
    show "sim_responses (world s2) = retired_answer # []" by (simp add: s2(4) sample_agent_def)
    show "counter_of (records sim_nvs s2) FAILED_NVS_ID = 0" by (simp add: s2(3) sample_agent_def counter_of_def)
  qed (use that retired_answer_marks in simp_all)
  have "agent_poll sim_api (-1) ?s = Returned True s3"
    by (simp add: agent_poll_def self_probe_def s2(1,6) sim_api_sel(8) hb del: str_Cons)
  then have "agent_loop sim_api (-1) 0 1 ?s = Returned True (set_state MESHANICS_STATE_OFFLINE s3)"
    by (simp add: agent_tick_def sim_api_sel(3))
  moreover have "cfg ?s = sample_prov" by (simp add: agent_start_state_def)
  ultimately show ?thesis using loop_ends_decommissioned [of sim_api "-1" 0 1 ?s] by fastforce
qed

text \<open>The same chip out of reach of any access point.\<close>

abbreviation dark_api :: "(sim_agent, byte list \<times> bool, byte list, unit, byte list) agent_api" where
  "dark_api \<equiv> sim_api\<lparr>k_msleep := \<lambda>ms w. ([], w)\<rparr>"

lemma dark_frames:
  "mgmt_frame api f \<Longrightarrow> mgmt_frame (api\<lparr>k_msleep := \<lambda>ms w. ([], w)\<rparr>) f"
  "net_frame (api\<lparr>k_msleep := g\<rparr>) f = net_frame api f" "boot_frame (api\<lparr>k_msleep := g\<rparr>) f = boot_frame api f"
  "dev_frame (api\<lparr>k_msleep := g\<rparr>) f = dev_frame api f" "key_frame (api\<lparr>k_msleep := g\<rparr>) f = key_frame api f"
  "agent_frame (api\<lparr>k_msleep := g\<rparr>) f = agent_frame api f" "nvs_frame (api\<lparr>k_msleep := g\<rparr>) f = nvs_frame api f"
  "store_good (api\<lparr>k_msleep := g\<rparr>) recs s = store_good api recs s"
  by (simp_all add: mgmt_frame_def net_frame_def boot_frame_def dev_frame_def key_frame_def agent_frame_def nvs_frame_def
      store_good_def nvs_ok_def store_geometry_def)

theorem offline_boot_ends_witness:
  "\<exists>t. (\<forall>turns. agent_main dark_api turns (agent_start_state enrolled_world) = Returned True t) \<and> state t = MESHANICS_STATE_OFFLINE
    \<and> records sim_nvs t = enrolled_nvs"
proof -
  have env: "env_frame dark_api sim_nvs" using sim_env by (simp add: env_frame_def dark_frames)
  have good: "store_good dark_api sim_nvs (agent_start_state enrolled_world)" using sim_agent_good by (simp add: dark_frames)
  have img: "boot_img dark_api (self_cfg (agent_start_state enrolled_world)) sim_confirmed"
    using sim_boot_img by (simp add: boot_img_def dark_frames sim_app)
  have psa: "fst (psa_crypto_init dark_api w) = 0" for w by (simp add: sim_chip_sel)
  have prov: "MESHANICS_PROVISIONING dark_api = Some sample_prov" by (simp add: sim_api_sel)
  have dark: "no_link dark_api" by (simp add: no_link_def) (simp add: sim_net_def)
  have off: "\<not> wifi_connected (agent_start_state enrolled_world)" by (simp add: agent_start_state_def)
  have "sim_confirmed (world (agent_start_state enrolled_world))" "records sim_nvs (agent_start_state enrolled_world) = enrolled_nvs"
    by (simp_all add: agent_start_state_def enrolled_world_def sample_agent_def records_def)
  with offline_boot_ends [OF env sim_app good img psa prov dark off] show ?thesis by auto
qed

end
