(* ===== verification/Sensor_Node.thy ===== *)
theory Sensor_Node
  imports Complex_Main Device
begin

text \<open>
  The sample application, \<^verbatim>\<open>samples/sensor-node/src/main.c\<close>: its configuration of the agent, and its main thread, which starts
  the agent and then reads its sensor, sets its fan, reports a metric and sleeps. The sensor, the fan and the callback are the stubs of the source;
  a \<open>double\<close> is a real number, and both values in the program are exact. The main thread is modelled by itself; what it shares
  with the agent's thread is the flag \<open>started\<close>, which the agent's thread never writes.
\<close>

definition read_temperature :: real where "read_temperature = 24.5"

definition fan_set :: "bool \<Rightarrow> 'w \<Rightarrow> 'w" where "fan_set on w = w"

definition sensor_on_state :: "meshanics_state \<Rightarrow> 'w \<Rightarrow> 'w" where "sensor_on_state st w = w"

definition sensor_config :: "'w meshanics_config" where
  "sensor_config = \<lparr>firmware_version = None, on_state = Some sensor_on_state, health = None\<rparr>"

text \<open>One pass of the control loop: what \<open>meshanics_report_metric\<close> answers, and the state after the sleep.\<close>

definition control_pass ::
  "('w, 'c, 'h, 'k, 'q, 'x) agent_api_scheme \<Rightarrow> ('w, 'y) agent_state_scheme \<Rightarrow> meshanics_status \<times> ('w, 'y) agent_state_scheme" where
  "control_pass api s =
     (let t = read_temperature;
          s = s\<lparr>world := fan_set (t > 30) (world s)\<rparr>
      in (meshanics_report_metric s, sleep_ms api 5000 s))"

text \<open>The loop never ends; it is watched for a number of passes.\<close>

fun control_loop ::
  "('w, 'c, 'h, 'k, 'q, 'x) agent_api_scheme \<Rightarrow> nat \<Rightarrow> ('w, 'y) agent_state_scheme
     \<Rightarrow> meshanics_status list \<times> ('w, 'y) agent_state_scheme" where
  "control_loop api 0 s = ([], s)"
| "control_loop api (Suc n) s =
     (let (st, s) = control_pass api s; (sts, s) = control_loop api n s in (st # sts, s))"

definition sensor_main ::
  "('w, 'c, 'h, 'k, 'q, 'x) agent_api_scheme \<Rightarrow> nat \<Rightarrow> ('w, 'y) agent_state_scheme
     \<Rightarrow> (meshanics_status \<times> meshanics_status list) \<times> ('w, 'y) agent_state_scheme" where
  "sensor_main api n s =
     (let (rc, s) = meshanics_agent_start api (Some sensor_config) s; (sts, s) = control_loop api n s in ((rc, sts), s))"

text \<open>The application's callback touches nothing, so the hypotheses on callbacks hold of it for every observation.\<close>

lemma sensor_app_frame: "app_frame sensor_config f"
  by (simp add: app_frame_def sensor_config_def sensor_on_state_def)

lemma sleep_started: "started (sleep_ms api ms s) = started s"
proof -
  have "started (fold wifi_evt evs t) = started t" for evs and t :: "('a, 'b) agent_state_scheme"
    by (induction evs arbitrary: t) (simp_all add: wifi_evt_def)
  then show ?thesis by (simp add: sleep_ms_def split_beta)
qed

lemma control_loop_accepted:
  "started s \<Longrightarrow> length (fst (control_loop api n s)) = n \<and> set (fst (control_loop api n s)) \<subseteq> {MESHANICS_OK}"
  by (induction n arbitrary: s)
    (auto simp: control_pass_def meshanics_report_metric_def sleep_started Let_def split_beta)

text \<open>From a cold start the agent starts, with the build's version, and every metric the loop reports is accepted.\<close>

lemma sensor_main_reports:
  assumes "\<not> started s"
  shows "fst (fst (sensor_main api n s)) = MESHANICS_OK
    \<and> length (snd (fst (sensor_main api n s))) = n \<and> set (snd (fst (sensor_main api n s))) \<subseteq> {MESHANICS_OK}"
proof -
  obtain s1 where s1: "meshanics_agent_start api (Some sensor_config) s = (MESHANICS_OK, s1)" "started s1"
    using assms by (simp add: meshanics_agent_start_def Let_def)
  show ?thesis using control_loop_accepted [OF s1(2), of api n] by (simp add: sensor_main_def s1(1) split_beta)
qed

end
