(* ===== verification/Sha512.thy ===== *)
theory Sha512
  imports Mcu_Prelude
begin

text \<open>
  SHA-512 as the vendored tinycrypt computes it, \<^verbatim>\<open>third_party/tinycrypt/source/sha512.c\<close>: the compression function on a circular
  buffer of sixteen words, and a state that absorbs a message byte by byte and pads it in place. The reference is the hash of
  the standard: the whole message padded first, cut into blocks, each with its schedule of eighty words. The two agree on
  every message however it is cut into updates.
\<close>

section \<open>The constants and the bit functions\<close>

definition TC_SHA512_BLOCK_SIZE :: nat where "TC_SHA512_BLOCK_SIZE = 128"
definition TC_CRYPTO_SUCCESS :: int where "TC_CRYPTO_SUCCESS = 1"
definition TC_CRYPTO_FAIL :: int where "TC_CRYPTO_FAIL = 0"

definition k512 :: "u64 list" where
  "k512 =
     [0x428a2f98d728ae22, 0x7137449123ef65cd, 0xb5c0fbcfec4d3b2f, 0xe9b5dba58189dbbc, 0x3956c25bf348b538] @
     [0x59f111f1b605d019, 0x923f82a4af194f9b, 0xab1c5ed5da6d8118, 0xd807aa98a3030242, 0x12835b0145706fbe] @
     [0x243185be4ee4b28c, 0x550c7dc3d5ffb4e2, 0x72be5d74f27b896f, 0x80deb1fe3b1696b1, 0x9bdc06a725c71235] @
     [0xc19bf174cf692694, 0xe49b69c19ef14ad2, 0xefbe4786384f25e3, 0x0fc19dc68b8cd5b5, 0x240ca1cc77ac9c65] @
     [0x2de92c6f592b0275, 0x4a7484aa6ea6e483, 0x5cb0a9dcbd41fbd4, 0x76f988da831153b5, 0x983e5152ee66dfab] @
     [0xa831c66d2db43210, 0xb00327c898fb213f, 0xbf597fc7beef0ee4, 0xc6e00bf33da88fc2, 0xd5a79147930aa725] @
     [0x06ca6351e003826f, 0x142929670a0e6e70, 0x27b70a8546d22ffc, 0x2e1b21385c26c926, 0x4d2c6dfc5ac42aed] @
     [0x53380d139d95b3df, 0x650a73548baf63de, 0x766a0abb3c77b2a8, 0x81c2c92e47edaee6, 0x92722c851482353b] @
     [0xa2bfe8a14cf10364, 0xa81a664bbc423001, 0xc24b8b70d0f89791, 0xc76c51a30654be30, 0xd192e819d6ef5218] @
     [0xd69906245565a910, 0xf40e35855771202a, 0x106aa07032bbd1b8, 0x19a4c116b8d2d0c8, 0x1e376c085141ab53] @
     [0x2748774cdf8eeb99, 0x34b0bcb5e19b48a8, 0x391c0cb3c5c95a63, 0x4ed8aa4ae3418acb, 0x5b9cca4f7763e373] @
     [0x682e6ff3d6b2b8a3, 0x748f82ee5defb2fc, 0x78a5636f43172f60, 0x84c87814a1f0ab72, 0x8cc702081a6439ec] @
     [0x90befffa23631e28, 0xa4506cebde82bde9, 0xbef9a3f7b2c67915, 0xc67178f2e372532b, 0xca273eceea26619c] @
     [0xd186b8c721c0c207, 0xeada7dd6cde0eb1e, 0xf57d4f7fee6ed178, 0x06f067aa72176fba, 0x0a637dc5a2c898a6] @
     [0x113f9804bef90dae, 0x1b710b35131c471b, 0x28db77f523047d84, 0x32caab7b40c72493, 0x3c9ebe0a15c9bebc] @
     [0x431d67c49c100d4c, 0x4cc5d4becb3e42b6, 0x597f299cfc657e2a, 0x5fcb6fab3ad6faec, 0x6c44198c4a475817]"

definition ROTR :: "u64 \<Rightarrow> nat \<Rightarrow> u64" where
  "ROTR a n = drop_bit n a OR push_bit (64 - n) a"

definition Sigma0 :: "u64 \<Rightarrow> u64" where "Sigma0 a = ROTR a 28 XOR ROTR a 34 XOR ROTR a 39"
definition Sigma1 :: "u64 \<Rightarrow> u64" where "Sigma1 a = ROTR a 14 XOR ROTR a 18 XOR ROTR a 41"
definition sigma0 :: "u64 \<Rightarrow> u64" where "sigma0 a = ROTR a 1 XOR ROTR a 8 XOR drop_bit 7 a"
definition sigma1 :: "u64 \<Rightarrow> u64" where "sigma1 a = ROTR a 19 XOR ROTR a 61 XOR drop_bit 6 a"

definition Ch :: "u64 \<Rightarrow> u64 \<Rightarrow> u64 \<Rightarrow> u64" where "Ch a b c = (a AND b) XOR (NOT a AND c)"
definition Maj :: "u64 \<Rightarrow> u64 \<Rightarrow> u64 \<Rightarrow> u64" where "Maj a b c = (a AND b) XOR (a AND c) XOR (b AND c)"

text \<open>Reads a word and advances the pointer, which is the list of the bytes still to come.\<close>

definition BigEndian :: "byte list \<Rightarrow> u64 \<times> byte list" where
  "BigEndian c =
     (let n = push_bit 56 (ucast (c ! 0));
          n = n OR push_bit 48 (ucast (c ! 1));
          n = n OR push_bit 40 (ucast (c ! 2));
          n = n OR push_bit 32 (ucast (c ! 3));
          n = n OR push_bit 24 (ucast (c ! 4));
          n = n OR push_bit 16 (ucast (c ! 5));
          n = n OR push_bit 8 (ucast (c ! 6));
          n = n OR ucast (c ! 7)
      in (n, drop 8 c))"

section \<open>The compression function\<close>

text \<open>The eight working variables.\<close>

type_synonym sha_vars = "u64 \<times> u64 \<times> u64 \<times> u64 \<times> u64 \<times> u64 \<times> u64 \<times> u64"

text \<open>The common body of both loops, for the schedule word \<open>w\<close> and the constant \<open>k\<close>.\<close>

fun sha_round :: "u64 \<Rightarrow> u64 \<Rightarrow> sha_vars \<Rightarrow> sha_vars" where
  "sha_round w k (a, b, c, d, e, f, g, h) =
     (let t1 = w + (h + Sigma1 e + Ch e f g + k);
          t2 = Sigma0 a + Maj a b c
      in (t1 + t2, a, b, c, d + t1, e, f, g))"

definition load_round :: "nat \<Rightarrow> sha_vars \<times> u64 list \<times> byte list \<Rightarrow> sha_vars \<times> u64 list \<times> byte list" where
  "load_round i = (\<lambda>(v, work_space, data).
     let (n, data) = BigEndian data
     in (sha_round n (k512 ! i) v, work_space[i := n], data))"

definition mix_round :: "nat \<Rightarrow> sha_vars \<times> u64 list \<Rightarrow> sha_vars \<times> u64 list" where
  "mix_round i = (\<lambda>(v, work_space).
     let s0 = sigma0 (work_space ! ((i + 1) AND 0x0f));
         s1 = sigma1 (work_space ! ((i + 14) AND 0x0f));
         t1 = work_space ! (i AND 0xf) + (s0 + s1 + work_space ! ((i + 9) AND 0xf))
     in (sha_round t1 (k512 ! i) v, work_space[i AND 0xf := t1]))"

text \<open>The first loop writes every word of \<open>work_space\<close> before the second reads one; the zeros stand for its undefined contents.\<close>

definition compress :: "u64 list \<Rightarrow> byte list \<Rightarrow> u64 list" where
  "compress iv data =
     (let v = (iv ! 0, iv ! 1, iv ! 2, iv ! 3, iv ! 4, iv ! 5, iv ! 6, iv ! 7);
          (v, work_space, data) = fold load_round [0..<16] (v, replicate 16 0, data);
          ((a, b, c, d, e, f, g, h), work_space) = fold mix_round [16..<80] (v, work_space)
      in [iv ! 0 + a, iv ! 1 + b, iv ! 2 + c, iv ! 3 + d, iv ! 4 + e, iv ! 5 + f, iv ! 6 + g, iv ! 7 + h])"

section \<open>The state\<close>

record tc_sha512_state =
  iv :: "u64 list"
  bits_hashed :: u64
  leftover :: "byte list"
  leftover_offset :: nat

text \<open>\<open>_set\<close> of the whole struct.\<close>

definition zero_state :: tc_sha512_state where
  "zero_state = \<lparr>iv = replicate 8 0, bits_hashed = 0, leftover = replicate 128 0, leftover_offset = 0\<rparr>"

definition sha512_iv :: "u64 list" where
  "sha512_iv = [0x6a09e667f3bcc908, 0xbb67ae8584caa73b, 0x3c6ef372fe94f82b, 0xa54ff53a5f1d36f1] @ [0x510e527fade682d1, 0x9b05688c2b3e6c1f, 0x1f83d9abfb41bd6b, 0x5be0cd19137e2179]"

text \<open>A NULL pointer is \<open>None\<close>.\<close>

definition tc_sha512_init :: "tc_sha512_state option \<Rightarrow> int \<times> tc_sha512_state option" where
  "tc_sha512_init s = (case s of None \<Rightarrow> (TC_CRYPTO_FAIL, None)
     | Some s \<Rightarrow> (TC_CRYPTO_SUCCESS, Some (zero_state\<lparr>iv := sha512_iv\<rparr>)))"

definition update_byte :: "byte \<Rightarrow> tc_sha512_state \<Rightarrow> tc_sha512_state" where
  "update_byte b s =
     (let s = s\<lparr>leftover := (leftover s)[leftover_offset s := b], leftover_offset := leftover_offset s + 1\<rparr>
      in if leftover_offset s \<ge> TC_SHA512_BLOCK_SIZE
         then s\<lparr>iv := compress (iv s) (leftover s), leftover_offset := 0,
                bits_hashed := bits_hashed s + of_nat (TC_SHA512_BLOCK_SIZE * 2 ^ 3)\<rparr>
         else s)"

definition tc_sha512_update :: "tc_sha512_state option \<Rightarrow> byte list option \<Rightarrow> int \<times> tc_sha512_state option" where
  "tc_sha512_update s data = (case (s, data) of
       (Some s, Some data) \<Rightarrow> if data = [] then (TC_CRYPTO_SUCCESS, Some s) else (TC_CRYPTO_SUCCESS, Some (fold update_byte data s))
     | _ \<Rightarrow> (TC_CRYPTO_FAIL, s))"

text \<open>\<open>_set(buf + at, 0x00, n)\<close>.\<close>

definition zero_at :: "nat \<Rightarrow> nat \<Rightarrow> byte list \<Rightarrow> byte list" where
  "zero_at at n buf = take at buf @ replicate n 0 @ drop (at + n) buf"

definition digest_word :: "u64 \<Rightarrow> byte list" where
  "digest_word t = [ucast (drop_bit 56 t), ucast (drop_bit 48 t), ucast (drop_bit 40 t), ucast (drop_bit 32 t),
     ucast (drop_bit 24 t), ucast (drop_bit 16 t), ucast (drop_bit 8 t), ucast t]"

text \<open>The digest written, when the call succeeds.\<close>

definition tc_sha512_final :: "bool \<Rightarrow> tc_sha512_state option \<Rightarrow> int \<times> byte list option \<times> tc_sha512_state option" where
  "tc_sha512_final digest_nonnull s = (case s of None \<Rightarrow> (TC_CRYPTO_FAIL, None, None)
     | Some s \<Rightarrow> if \<not> digest_nonnull then (TC_CRYPTO_FAIL, None, Some s) else
      let s = s\<lparr>bits_hashed := bits_hashed s + of_nat (leftover_offset s * 2 ^ 3)\<rparr>;
          s = s\<lparr>leftover := (leftover s)[leftover_offset s := 0x80], leftover_offset := leftover_offset s + 1\<rparr>;
          s = (if leftover_offset s > TC_SHA512_BLOCK_SIZE - 16
               then let s = s\<lparr>leftover := zero_at (leftover_offset s) (TC_SHA512_BLOCK_SIZE - leftover_offset s) (leftover s)\<rparr>
                    in s\<lparr>iv := compress (iv s) (leftover s), leftover_offset := 0\<rparr>
               else s);
          l = zero_at (leftover_offset s) (TC_SHA512_BLOCK_SIZE - 8 - leftover_offset s) (leftover s);
          l = l[TC_SHA512_BLOCK_SIZE - 1 := ucast (bits_hashed s)];
          l = l[TC_SHA512_BLOCK_SIZE - 2 := ucast (drop_bit 8 (bits_hashed s))];
          l = l[TC_SHA512_BLOCK_SIZE - 3 := ucast (drop_bit 16 (bits_hashed s))];
          l = l[TC_SHA512_BLOCK_SIZE - 4 := ucast (drop_bit 24 (bits_hashed s))];
          l = l[TC_SHA512_BLOCK_SIZE - 5 := ucast (drop_bit 32 (bits_hashed s))];
          l = l[TC_SHA512_BLOCK_SIZE - 6 := ucast (drop_bit 40 (bits_hashed s))];
          l = l[TC_SHA512_BLOCK_SIZE - 7 := ucast (drop_bit 48 (bits_hashed s))];
          l = l[TC_SHA512_BLOCK_SIZE - 8 := ucast (drop_bit 56 (bits_hashed s))]
      in (TC_CRYPTO_SUCCESS, Some (concat (map digest_word (compress (iv s) l))), Some zero_state))"

section \<open>The hash of the standard\<close>

text \<open>Big-endian numbers.\<close>

definition be_word :: "byte list \<Rightarrow> u64" where
  "be_word bs = foldl (\<lambda>n b. 256 * n + ucast b) 0 bs"

definition be_bytes :: "nat \<Rightarrow> nat \<Rightarrow> byte list" where
  "be_bytes n x = rev (map (\<lambda>i. of_nat (x div 256 ^ i)) [0..<n])"

text \<open>The message schedule of a block: its sixteen words, and each further word from the ones before it.\<close>

definition sha_extend :: "nat \<Rightarrow> u64 list \<Rightarrow> u64 list" where
  "sha_extend t W = W @ [sigma1 (W ! (t - 2)) + W ! (t - 7) + sigma0 (W ! (t - 15)) + W ! (t - 16)]"

definition sha_words :: "byte list \<Rightarrow> nat \<Rightarrow> u64 list" where
  "sha_words blk n = fold sha_extend [16..<n] (map (\<lambda>t. be_word (take 8 (drop (8 * t) blk))) [0..<16])"

definition sha_rounds :: "byte list \<Rightarrow> nat list \<Rightarrow> sha_vars \<Rightarrow> sha_vars" where
  "sha_rounds blk ts v = (let W = sha_words blk 80 in fold (\<lambda>t. sha_round (W ! t) (k512 ! t)) ts v)"

fun vars_list :: "sha_vars \<Rightarrow> u64 list" where
  "vars_list (a, b, c, d, e, f, g, h) = [a, b, c, d, e, f, g, h]"

definition sha_block :: "u64 list \<Rightarrow> byte list \<Rightarrow> u64 list" where
  "sha_block H blk = map2 (+) H
     (vars_list (sha_rounds blk [0..<80] (H ! 0, H ! 1, H ! 2, H ! 3, H ! 4, H ! 5, H ! 6, H ! 7)))"

text \<open>A one bit, zeros up to sixteen bytes before the end of a block, and the length in bits.\<close>

definition sha_pad :: "byte list \<Rightarrow> byte list" where
  "sha_pad m = m @ [0x80] @ replicate ((239 - length m mod 128) mod 128) 0 @ be_bytes 16 (8 * length m)"

fun sha_blocks :: "byte list \<Rightarrow> byte list list" where
  "sha_blocks m = (if m = [] then [] else take 128 m # sha_blocks (drop 128 m))"

declare sha_blocks.simps [simp del]

definition sha512_spec :: "byte list \<Rightarrow> byte list" where
  "sha512_spec m = concat (map (\<lambda>w. be_bytes 8 (unat w)) (foldl sha_block sha512_iv (sha_blocks (sha_pad m))))"

section \<open>The compression function is the block function of the standard\<close>

lemma shift_in_byte: "256 * n + ucast (b :: byte) = push_bit 8 n OR (ucast b :: u64)"
proof -
  have "push_bit 8 n + (ucast b :: u64) = push_bit 8 n OR ucast b"
    by (rule disjunctive_add) (auto simp: bit_simps dest: bit_imp_le_length)
  then show ?thesis by (simp add: push_bit_eq_mult mult.commute)
qed

lemma BigEndian_word:
  assumes "8 \<le> length c"
  shows "BigEndian c = (be_word (take 8 c), drop 8 c)"
proof -
  have "take 8 c = map ((!) c) [0..<8]" using assms by (intro nth_equalityI) auto
  also have "\<dots> = [c ! 0, c ! 1, c ! 2, c ! 3, c ! 4, c ! 5, c ! 6, c ! 7]" by (simp add: upt_rec eval_nat_numeral)
  finally have t: "take 8 c = [c ! 0, c ! 1, c ! 2, c ! 3, c ! 4, c ! 5, c ! 6, c ! 7]" .
  show ?thesis
    unfolding t by (simp add: BigEndian_def be_word_def shift_in_byte push_bit_or or.assoc)
qed

lemma sha_words_Suc: "16 \<le> n \<Longrightarrow> sha_words blk (Suc n) = sha_extend n (sha_words blk n)"
  by (simp add: sha_words_def)

lemma length_sha_words: "16 \<le> n \<Longrightarrow> length (sha_words blk n) = n"
proof (induction n rule: dec_induct)
  case base
  show ?case by (simp add: sha_words_def)
next
  case (step n)
  then show ?case by (simp add: sha_words_Suc sha_extend_def)
qed

lemma sha_words_prefix: "16 \<le> n \<Longrightarrow> t < n \<Longrightarrow> n \<le> m \<Longrightarrow> sha_words blk m ! t = sha_words blk n ! t"
proof (induction m)
  case (Suc m)
  then show ?case by (cases "n = Suc m") (simp_all add: sha_words_Suc sha_extend_def nth_append length_sha_words)
qed simp

lemma sha_words_first: "t < 16 \<Longrightarrow> 16 \<le> n \<Longrightarrow> sha_words blk n ! t = be_word (take 8 (drop (8 * t) blk))"
  using sha_words_prefix [of 16 t n blk] by (simp add: sha_words_def)

lemma sha_words_next:
  assumes "16 \<le> t" "t < 80"
  shows "sha_words blk 80 ! t = sigma1 (sha_words blk 80 ! (t - 2)) + sha_words blk 80 ! (t - 7)
    + sigma0 (sha_words blk 80 ! (t - 15)) + sha_words blk 80 ! (t - 16)"
proof -
  have "sha_words blk 80 ! j = sha_words blk t ! j" if "j < t" for j using sha_words_prefix [of t j 80] assms that by simp
  moreover have "sha_words blk 80 ! t = sha_words blk (Suc t) ! t" using sha_words_prefix [of "Suc t" t 80] assms by simp
  ultimately show ?thesis using assms by (simp add: sha_words_Suc sha_extend_def nth_append length_sha_words)
qed

lemma fold_upt_Suc: "i \<le> n \<Longrightarrow> fold f [i..<Suc n] v = f n (fold f [i..<n] v)"
  by simp

lemma sha_rounds_Suc: "i \<le> n \<Longrightarrow> sha_rounds blk [i..<Suc n] v = sha_round (sha_words blk 80 ! n) (k512 ! n) (sha_rounds blk [i..<n] v)"
  by (simp add: sha_rounds_def Let_def)

lemma load_rounds:
  assumes "length blk = 128" "n \<le> 16"
  shows "fold load_round [0..<n] (v, replicate 16 0, blk)
    = (sha_rounds blk [0..<n] v, take n (sha_words blk 16) @ replicate (16 - n) 0, drop (8 * n) blk)"
  using assms(2)
proof (induction n)
  case 0
  then show ?case by (simp add: sha_rounds_def)
next
  case (Suc n)
  have w: "be_word (take 8 (drop (8 * n) blk)) = sha_words blk 80 ! n" "sha_words blk 16 ! n = sha_words blk 80 ! n"
    using Suc.prems sha_words_first [of n 80] sha_words_first [of n 16] by simp_all
  have be: "BigEndian (drop (8 * n) blk) = (sha_words blk 80 ! n, drop (8 * Suc n) blk)"
    using BigEndian_word [of "drop (8 * n) blk"] assms(1) Suc.prems w(1) by (simp add: add.commute)
  have "(take n (sha_words blk 16) @ replicate (16 - n) 0)[n := sha_words blk 80 ! n]
      = take (Suc n) (sha_words blk 16) @ replicate (16 - Suc n) 0"
    using Suc.prems w(2) by (intro nth_equalityI) (auto simp: length_sha_words nth_list_update nth_append less_Suc_eq)
  then show ?case using Suc be by (simp add: fold_upt_Suc sha_rounds_Suc load_round_def del: upt_Suc)
qed

lemma mask_16: "(n :: nat) AND 0xf = n mod 16"
proof -
  have m: "(0xf :: nat) = mask 4" by (simp add: mask_eq_exp_minus_1)
  have "n AND 0xf = take_bit 4 n" by (simp only: m take_bit_eq_mask)
  then show ?thesis by (simp add: take_bit_eq_mod)
qed

definition ring_holds :: "byte list \<Rightarrow> nat \<Rightarrow> u64 list \<Rightarrow> bool" where
  "ring_holds blk n ws \<longleftrightarrow> length ws = 16 \<and> (\<forall>j < n. n \<le> j + 16 \<longrightarrow> ws ! (j mod 16) = sha_words blk 80 ! j)"

lemma ring_next:
  assumes "ring_holds blk n ws" "16 \<le> n" "n < 80"
  shows "ws ! (n mod 16) + (sigma0 (ws ! ((n + 1) mod 16)) + sigma1 (ws ! ((n + 14) mod 16)) + ws ! ((n + 9) mod 16)) = sha_words blk 80 ! n"
    "ring_holds blk (Suc n) (ws[n mod 16 := sha_words blk 80 ! n])"
proof -
  have m: "(n + 1) mod 16 = (n - 15) mod 16" "(n + 14) mod 16 = (n - 2) mod 16" "(n + 9) mod 16 = (n - 7) mod 16"
    "n mod 16 = (n - 16) mod 16"
    using assms(2) mod_add_self2 [of "n - 15" 16] mod_add_self2 [of "n - 2" 16] mod_add_self2 [of "n - 7" 16] mod_add_self2 [of "n - 16" 16]
    by (simp_all add: add.commute)
  have h: "ws ! (j mod 16) = sha_words blk 80 ! j" if "j < n" "n \<le> j + 16" for j using assms(1) that by (simp add: ring_holds_def)
  show "ws ! (n mod 16) + (sigma0 (ws ! ((n + 1) mod 16)) + sigma1 (ws ! ((n + 14) mod 16)) + ws ! ((n + 9) mod 16)) = sha_words blk 80 ! n"
    unfolding m using h [of "n - 15"] h [of "n - 2"] h [of "n - 7"] h [of "n - 16"] sha_words_next [OF assms(2,3), of blk] assms(2)
    by (simp add: ac_simps)
  have ne: "j mod 16 \<noteq> n mod 16" if "j < n" "Suc n \<le> j + 16" for j
    using that mod_eq_dvd_iff_nat [of j n 16] dvd_imp_le [of 16 "n - j"] by auto
  show "ring_holds blk (Suc n) (ws[n mod 16 := sha_words blk 80 ! n])"
    unfolding ring_holds_def
  proof (intro conjI allI impI)
    fix j
    assume j: "j < Suc n" "Suc n \<le> j + 16"
    show "(ws[n mod 16 := sha_words blk 80 ! n]) ! (j mod 16) = sha_words blk 80 ! j"
      by (cases "j = n") (use assms(1) j ne [of j] h [of j] in \<open>simp_all add: ring_holds_def\<close>)
  qed (use assms(1) in \<open>simp add: ring_holds_def\<close>)
qed

lemma mix_rounds:
  assumes "ring_holds blk 16 ws" "16 \<le> n" "n \<le> 80"
  shows "\<exists>ws'. fold mix_round [16..<n] (v, ws) = (sha_rounds blk [16..<n] v, ws') \<and> ring_holds blk n ws'"
  using assms(2,3)
proof (induction n rule: dec_induct)
  case base
  then show ?case using assms(1) by (simp add: sha_rounds_def)
next
  case (step n)
  then obtain ws' where f: "fold mix_round [16..<n] (v, ws) = (sha_rounds blk [16..<n] v, ws')" and h: "ring_holds blk n ws'" by auto
  have r: "mix_round n (sha_rounds blk [16..<n] v, ws') = (sha_rounds blk [16..<Suc n] v, ws'[n mod 16 := sha_words blk 80 ! n])"
    using ring_next(1) [OF h] step.hyps step.prems by (simp add: sha_rounds_Suc mix_round_def Let_def mask_16 del: upt_Suc)
  have "fold mix_round [16..<Suc n] (v, ws) = mix_round n (fold mix_round [16..<n] (v, ws))" using step.hyps(1) by (rule fold_upt_Suc)
  then show ?case using ring_next(2) [OF h] step.hyps step.prems unfolding f r by auto
qed

lemma compress_block:
  assumes "length blk = 128" "length H = 8"
  shows "compress H blk = sha_block H blk"
proof -
  let ?v = "(H ! 0, H ! 1, H ! 2, H ! 3, H ! 4, H ! 5, H ! 6, H ! 7)"
  have r16: "ring_holds blk 16 (sha_words blk 16)"
    using sha_words_prefix [of 16 _ 80 blk] by (simp add: ring_holds_def length_sha_words)
  obtain ws where m: "fold mix_round [16..<80] (sha_rounds blk [0..<16] ?v, sha_words blk 16)
      = (sha_rounds blk [16..<80] (sha_rounds blk [0..<16] ?v), ws)"
    using mix_rounds [OF r16, of 80 "sha_rounds blk [0..<16] ?v"] by auto
  have "[0..<80] = [0..<16] @ [16..<80]" using upt_add_eq_append [of 0 16 64] by simp
  then have s: "sha_rounds blk [16..<80] (sha_rounds blk [0..<16] ?v) = sha_rounds blk [0..<80] ?v"
    by (simp add: sha_rounds_def Let_def)
  have l: "fold load_round [0..<16] (?v, replicate 16 0, blk) = (sha_rounds blk [0..<16] ?v, sha_words blk 16, drop 128 blk)"
    using load_rounds [OF assms(1), of 16 ?v] by (simp add: length_sha_words)
  have H: "H = [H ! 0, H ! 1, H ! 2, H ! 3, H ! 4, H ! 5, H ! 6, H ! 7]"
    using assms(2) by (intro nth_equalityI) (auto simp: less_Suc_eq numeral_eq_Suc)
  obtain a b c d e f g h where v: "sha_rounds blk [0..<80] ?v = (a, b, c, d, e, f, g, h)" by (metis prod.collapse)
  show ?thesis
    unfolding compress_def Let_def l prod.case m s v sha_block_def vars_list.simps
    by (subst (9) H) simp
qed

section \<open>Absorbing a message\<close>

lemma length_vars_list [simp]: "length (vars_list v) = 8"
  by (cases v rule: vars_list.cases) simp

lemma length_sha_block: "length H = 8 \<Longrightarrow> length (sha_block H blk) = 8"
  by (simp add: sha_block_def)

lemma length_sha_fold: "length H = 8 \<Longrightarrow> length (foldl sha_block H blks) = 8"
  by (induction blks arbitrary: H) (simp_all add: length_sha_block)

lemma sha_blocks_append:
  assumes "128 dvd length a"
  shows "sha_blocks (a @ b) = sha_blocks a @ sha_blocks b"
  using assms
proof (induction a rule: sha_blocks.induct)
  case (1 a)
  show ?case
  proof (cases "a = []")
    case True
    then show ?thesis by (simp add: sha_blocks.simps [of "[]"])
  next
    case False
    then have l: "128 \<le> length a" using 1(2) by (auto intro: dvd_imp_le)
    have "128 dvd length (drop 128 a)" using 1(2) l by (simp add: dvd_diff_nat)
    from 1(1) [OF False this] show ?thesis
      using False l by (subst sha_blocks.simps, subst (2) sha_blocks.simps) simp
  qed
qed

lemma sha_blocks_one: "length b = 128 \<Longrightarrow> sha_blocks b = [b]"
  by (subst sha_blocks.simps) (auto simp: sha_blocks.simps [of "[]"])

definition whole_blocks :: "byte list \<Rightarrow> byte list" where
  "whole_blocks m = take (128 * (length m div 128)) m"

lemma length_whole_blocks: "length (whole_blocks m) = 128 * (length m div 128)"
  by (simp add: whole_blocks_def)

definition absorbed :: "byte list \<Rightarrow> tc_sha512_state \<Rightarrow> bool" where
  "absorbed m s \<longleftrightarrow> iv s = foldl sha_block sha512_iv (sha_blocks (whole_blocks m))
     \<and> leftover_offset s = length m mod 128 \<and> length (leftover s) = 128
     \<and> take (length m mod 128) (leftover s) = drop (128 * (length m div 128)) m
     \<and> bits_hashed s = of_nat (1024 * (length m div 128))"

lemma absorbed_length_iv: "absorbed m s \<Longrightarrow> length (iv s) = 8"
  by (simp add: absorbed_def length_sha_fold sha512_iv_def)

lemma absorbed_start: "absorbed [] (zero_state\<lparr>iv := sha512_iv\<rparr>)"
  by (simp add: absorbed_def zero_state_def whole_blocks_def sha_blocks.simps [of "[]"])

lemma absorb_byte:
  assumes "absorbed m s"
  shows "absorbed (m @ [b]) (update_byte b s)"
proof -
  let ?q = "length m div 128" and ?r = "length m mod 128"
  note a = assms [unfolded absorbed_def]
  have r: "?r < 128" by simp
  have len: "128 * ?q + ?r = length m" by simp
  have t: "take (Suc ?r) ((leftover s)[?r := b]) = drop (128 * ?q) m @ [b]"
    using a r by (simp add: take_Suc_conv_app_nth)
  show ?thesis
  proof (cases "?r = 127")
    case False
    then have n: "length (m @ [b]) div 128 = ?q" "length (m @ [b]) mod 128 = Suc ?r" using r by (simp_all add: div_Suc mod_Suc)
    have "128 * ?q \<le> length m" using len by linarith
    then have w: "whole_blocks (m @ [b]) = whole_blocks m" unfolding whole_blocks_def n(1) by simp
    have "Suc ?r < 128" using False r by simp
    then show ?thesis
      using a t len unfolding absorbed_def n w by (simp add: update_byte_def Let_def TC_SHA512_BLOCK_SIZE_def)
  next
    case True
    then have n: "length (m @ [b]) div 128 = Suc ?q" "length (m @ [b]) mod 128 = 0" by (simp_all add: div_Suc mod_Suc)
    have blk: "(leftover s)[?r := b] = drop (128 * ?q) m @ [b]" using t a True by simp
    have lb: "length (drop (128 * ?q) m @ [b]) = 128" using len True by simp
    have "128 * Suc ?q = Suc (length m)" using len True by simp
    then have w: "whole_blocks (m @ [b]) = whole_blocks m @ drop (128 * ?q) m @ [b]" unfolding whole_blocks_def n(1) by simp
    have "sha_blocks (whole_blocks (m @ [b])) = sha_blocks (whole_blocks m) @ [drop (128 * ?q) m @ [b]]"
      unfolding w using sha_blocks_append [of "whole_blocks m" "drop (128 * ?q) m @ [b]"] sha_blocks_one [OF lb]
      by (simp add: length_whole_blocks)
    then show ?thesis
      using a blk lb compress_block [OF lb absorbed_length_iv [OF assms]] unfolding absorbed_def n
      by (simp add: update_byte_def Let_def TC_SHA512_BLOCK_SIZE_def True algebra_simps)
  qed
qed

lemma absorb_bytes: "absorbed m s \<Longrightarrow> absorbed (m @ d) (fold update_byte d s)"
proof (induction d arbitrary: m s)
  case (Cons b d)
  from Cons.IH [OF absorb_byte [OF Cons.prems]] show ?case by simp
qed simp

section \<open>Padding in place\<close>

lemma digest_word_bytes: "digest_word t = be_bytes 8 (unat t)"
proof -
  have u: "(of_nat (unat t div 256 ^ i) :: byte) = ucast (drop_bit (8 * i) t)" for i
  proof -
    have "unat (drop_bit (8 * i) t) = unat t div 256 ^ i" by (subst unat_drop_bit_eq) (simp add: drop_bit_eq_div power_mult)
    then show ?thesis by (metis of_nat_unat)
  qed
  have "[0..<8] = [0, 1, 2, 3, 4, 5, 6, 7 :: nat]" by (simp add: upt_rec eval_nat_numeral)
  then show ?thesis using u [of 0] by (simp add: be_bytes_def digest_word_def u [of 1, simplified] u [of 2, simplified] u [of 3, simplified]
      u [of 4, simplified] u [of 5, simplified] u [of 6, simplified] u [of 7, simplified])
qed

lemma digest_word_eq: "digest_word = (\<lambda>w. be_bytes 8 (unat w))"
  by (rule ext) (rule digest_word_bytes)

lemma be_bytes_16: "x < 2 ^ 64 \<Longrightarrow> be_bytes 16 x = replicate 8 0 @ be_bytes 8 x"
proof -
  assume x: "x < 2 ^ 64"
  have z: "x div 256 ^ i = 0" if "8 \<le> i" for i
  proof -
    have "(256 :: nat) ^ 8 \<le> 256 ^ i" by (rule power_increasing) (use that in simp_all)
    then show ?thesis using x by simp
  qed
  have "[0..<16] = [0..<8] @ [8..<16 :: nat]" using upt_add_eq_append [of 0 8 8] by simp
  moreover have "map (\<lambda>i. (of_nat (x div 256 ^ i) :: byte)) [8..<16] = replicate 8 0"
    using map_cong [OF refl, of "[8..<16]" "\<lambda>i. (of_nat (x div 256 ^ i) :: byte)" "\<lambda>_. 0"] z by (simp add: map_replicate_const del: upt_rec_numeral)
  ultimately show ?thesis by (simp add: be_bytes_def)
qed

lemma length_be_bytes [simp]: "length (be_bytes n x) = n"
  by (simp add: be_bytes_def)

text \<open>The eight stores of the length.\<close>

lemma store_length:
  assumes "length l = 128"
  shows "l[128 - 1 := b1, 128 - 2 := b2, 128 - 3 := b3, 128 - 4 := b4, 128 - 5 := b5, 128 - 6 := b6, 128 - 7 := b7, 128 - 8 := b8]
    = take 120 l @ [b8, b7, b6, b5, b4, b3, b2, b1]"
proof -
  have "length (drop 120 l) = 8" using assms by simp
  then obtain x where "drop 120 l = x" "length x = 8" by simp
  then obtain a b c d e f g h where x: "drop 120 l = [a, b, c, d, e, f, g, h]" by (auto simp: length_Suc_conv eval_nat_numeral)
  define p where "p = take 120 l"
  have p: "length p = 120" "l = p @ [a, b, c, d, e, f, g, h]" using assms append_take_drop_id [of 120 l] x by (simp_all add: p_def)
  show ?thesis unfolding p_def [symmetric] p(2) by (simp add: list_update_append p(1))
qed

lemma length_zero_at: "length buf = 128 \<Longrightarrow> at + n \<le> 128 \<Longrightarrow> length (zero_at at n buf) = 128"
  by (simp add: zero_at_def)

lemma take_zero_at: "at + n \<le> length buf \<Longrightarrow> k = at + n \<Longrightarrow> take k (zero_at at n buf) = take at buf @ replicate n 0"
  by (simp add: zero_at_def)

lemma pad_zeros: "r \<le> 111 \<Longrightarrow> (239 - r) mod 128 = 111 - (r :: nat)" "111 < r \<Longrightarrow> r < 128 \<Longrightarrow> (239 - r) mod 128 = (127 - r) + 112"
proof -
  assume "r \<le> 111"
  then have "239 - r = (111 - r) + 128" by simp
  then show "(239 - r) mod 128 = 111 - r" by (simp only: mod_add_self2) simp
qed simp

text \<open>The final call when the length fits into the open block, and when it needs another one.\<close>

lemma store_digest_length:
  assumes "length x = 128"
  shows "x[TC_SHA512_BLOCK_SIZE - 1 := ucast b, TC_SHA512_BLOCK_SIZE - 2 := ucast (drop_bit 8 b), TC_SHA512_BLOCK_SIZE - 3 := ucast (drop_bit 16 b),
      TC_SHA512_BLOCK_SIZE - 4 := ucast (drop_bit 24 b), TC_SHA512_BLOCK_SIZE - 5 := ucast (drop_bit 32 b), TC_SHA512_BLOCK_SIZE - 6 := ucast (drop_bit 40 b),
      TC_SHA512_BLOCK_SIZE - 7 := ucast (drop_bit 48 b), TC_SHA512_BLOCK_SIZE - 8 := ucast (drop_bit 56 b)] = take 120 x @ digest_word b"
  unfolding TC_SHA512_BLOCK_SIZE_def digest_word_def by (rule store_length [OF assms])

definition open_block :: "tc_sha512_state \<Rightarrow> byte list \<Rightarrow> bool" where
  "open_block s tail \<longleftrightarrow> leftover_offset s = length tail \<and> length tail < 128 \<and> length (leftover s) = 128
     \<and> take (length tail) (leftover s) = tail \<and> length (iv s) = 8"

lemma open_block_marked:
  assumes "open_block s tail"
  shows "length ((leftover s)[length tail := 0x80]) = 128" "take (Suc (length tail)) ((leftover s)[length tail := 0x80]) = tail @ [0x80]"
  using assms by (simp_all add: open_block_def take_Suc_conv_app_nth)

lemma final_one_block:
  assumes s: "open_block s tail" "length tail \<le> 111"
  defines "b \<equiv> tail @ [0x80] @ replicate (119 - length tail) 0 @ digest_word (bits_hashed s + of_nat (length tail * 2 ^ 3))"
  shows "tc_sha512_final True (Some s)
    = (TC_CRYPTO_SUCCESS, Some (concat (map digest_word (foldl sha_block (iv s) (sha_blocks b)))), Some zero_state)"
proof -
  define l1 where "l1 = (leftover s)[length tail := 0x80]"
  define r where "r = length tail"
  note l1 = open_block_marked [OF s(1), folded l1_def r_def]
  have r: "r \<le> 111" using s(2) by (simp add: r_def)
  have b: "length b = 128" using r by (simp add: b_def digest_word_def r_def)
  have n: "128 - 8 - Suc r = 119 - r" by simp
  have x: "take 120 (zero_at (Suc r) (119 - r) l1) = take (Suc r) l1 @ replicate (119 - r) 0"
    by (rule take_zero_at) (use r l1(1) in linarith)+
  have y: "length (zero_at (Suc r) (119 - r) l1) = 128" using l1(1) r by (intro length_zero_at) simp_all
  have c: "compress (iv s) b = foldl sha_block (iv s) (sha_blocks b)"
    using compress_block [OF b] sha_blocks_one [OF b] s(1) by (simp add: open_block_def)
  show ?thesis
    using s(1) r c [unfolded b_def] store_digest_length [OF y] x n l1(2)
    unfolding b_def by (simp add: tc_sha512_final_def Let_def TC_SHA512_BLOCK_SIZE_def open_block_def l1_def [symmetric] r_def)
qed

lemma final_two_blocks:
  assumes s: "open_block s tail" "111 < length tail"
  defines "b1 \<equiv> tail @ [0x80] @ replicate (127 - length tail) 0"
    and "b2 \<equiv> replicate 120 0 @ digest_word (bits_hashed s + of_nat (length tail * 2 ^ 3))"
  shows "tc_sha512_final True (Some s)
    = (TC_CRYPTO_SUCCESS, Some (concat (map digest_word (foldl sha_block (iv s) (sha_blocks (b1 @ b2))))), Some zero_state)"
proof -
  define l1 where "l1 = (leftover s)[length tail := 0x80]"
  define r where "r = length tail"
  note l1 = open_block_marked [OF s(1), folded l1_def r_def]
  have r: "111 < r" "r < 128" using s by (simp_all add: r_def open_block_def)
  have b: "length b1 = 128" "length b2 = 128" using r by (simp_all add: b1_def b2_def digest_word_def r_def)
  have x: "zero_at (Suc r) (128 - Suc r) l1 = b1" using r l1 by (simp add: zero_at_def b1_def r_def)
  have y: "length (zero_at 0 120 b1) = 128" using b(1) by (intro length_zero_at) simp_all
  have w: "take 120 (zero_at 0 120 b1) = replicate 120 0" by (simp add: zero_at_def)
  have h: "length (iv s) = 8" using s(1) by (simp add: open_block_def)
  have c: "compress (compress (iv s) b1) b2 = foldl sha_block (iv s) (sha_blocks (b1 @ b2))"
    using compress_block [OF b(1) h] compress_block [OF b(2) length_sha_block [OF h]]
      sha_blocks_append [of b1 b2] sha_blocks_one [OF b(1)] sha_blocks_one [OF b(2)] b(1) by simp
  show ?thesis
    using s(1) r c [unfolded b2_def] store_digest_length [OF y] x w
    unfolding b2_def by (simp add: tc_sha512_final_def Let_def TC_SHA512_BLOCK_SIZE_def open_block_def l1_def [symmetric] r_def)
qed

text \<open>What the padding adds to the whole blocks of the message.\<close>

lemma sha_pad_split:
  assumes "8 * length m < 2 ^ 64"
  defines "tail \<equiv> drop (128 * (length m div 128)) m"
  shows "sha_pad m = whole_blocks m @ tail @ [0x80] @ replicate ((239 - length tail) mod 128) 0 @ replicate 8 0 @ be_bytes 8 (8 * length m)"
    "length tail = length m mod 128"
proof -
  show t: "length tail = length m mod 128" unfolding tail_def length_drop by (simp add: minus_mult_div_eq_mod)
  have m: "m @ x = whole_blocks m @ tail @ x" for x
    using append_take_drop_id [of "128 * (length m div 128)" m] unfolding whole_blocks_def tail_def append_assoc [symmetric] by simp
  show "sha_pad m = whole_blocks m @ tail @ [0x80] @ replicate ((239 - length tail) mod 128) 0 @ replicate 8 0 @ be_bytes 8 (8 * length m)"
    unfolding sha_pad_def be_bytes_16 [OF assms(1)] m t by simp
qed

lemma absorbed_bits:
  assumes "absorbed m s" "8 * length m < 2 ^ 64"
  shows "digest_word (bits_hashed s + of_nat (length m mod 128 * 2 ^ 3)) = be_bytes 8 (8 * length m)"
proof -
  have "128 * (length m div 128) + length m mod 128 = length m" by simp
  then have n: "1024 * (length m div 128) + length m mod 128 * 2 ^ 3 = 8 * length m" unfolding power3_eq_cube by linarith
  have "bits_hashed s = of_nat (1024 * (length m div 128))" using assms(1) by (simp add: absorbed_def)
  then have e: "bits_hashed s + of_nat (length m mod 128 * 2 ^ 3) = of_nat (8 * length m)" unfolding n [symmetric] by (simp only: of_nat_add)
  have u: "unat (of_nat (8 * length m) :: u64) = 8 * length m" using assms(2) by (simp add: unat_of_nat del: of_nat_mult)
  show ?thesis by (simp only: e digest_word_bytes u)
qed

lemma final_digest:
  assumes a: "absorbed m s" and len: "8 * length m < 2 ^ 64"
  shows "tc_sha512_final True (Some s) = (TC_CRYPTO_SUCCESS, Some (sha512_spec m), Some zero_state)"
proof -
  define tail where "tail = drop (128 * (length m div 128)) m"
  note pad = sha_pad_split [OF len, folded tail_def]
  note bits = absorbed_bits [OF a len, folded pad(2)]
  have o: "open_block s tail" using a [unfolded absorbed_def, folded tail_def] absorbed_length_iv [OF a] by (simp add: open_block_def pad(2))
  have out: "foldl sha_block sha512_iv (sha_blocks (sha_pad m)) = foldl sha_block (iv s) (sha_blocks rest)"
    if "sha_pad m = whole_blocks m @ rest" for rest
    using sha_blocks_append [of "whole_blocks m" rest] that a by (simp add: length_whole_blocks absorbed_def)
  show ?thesis
  proof (cases "length tail \<le> 111")
    case True
    have "replicate (119 - length tail) (0 :: byte) = replicate (111 - length tail) 0 @ replicate 8 0" using True by (simp flip: replicate_add)
    then have "sha_pad m = whole_blocks m @ tail @ [0x80] @ replicate (119 - length tail) 0 @ be_bytes 8 (8 * length m)"
      unfolding pad(1) pad_zeros(1) [OF True] by simp
    from out [OF this] show ?thesis using final_one_block [OF o True, unfolded bits] by (simp add: sha512_spec_def digest_word_eq)
  next
    case False
    then have r: "111 < length tail" "length tail < 128" using o by (simp_all add: open_block_def)
    have "replicate 120 (0 :: byte) = replicate 112 0 @ replicate 8 0" by (simp flip: replicate_add)
    then have "sha_pad m = whole_blocks m @ (tail @ [0x80] @ replicate (127 - length tail) 0) @ replicate 120 0 @ be_bytes 8 (8 * length m)"
      unfolding pad(1) pad_zeros(2) [OF r] by (simp add: replicate_add)
    from out [OF this] show ?thesis using final_two_blocks [OF o r(1), unfolded bits] by (simp add: sha512_spec_def digest_word_eq)
  qed
qed

section \<open>Properties\<close>

text \<open>The calls of a client: a fresh state, one update for each chunk, and the digest.\<close>

definition sha512_run :: "byte list list \<Rightarrow> byte list option" where
  "sha512_run chunks = (let s = snd (tc_sha512_init (Some zero_state));
     s = fold (\<lambda>c s. snd (tc_sha512_update s (Some c))) chunks s
   in fst (snd (tc_sha512_final True s)))"

lemma absorb_chunks:
  "absorbed m s \<Longrightarrow> \<exists>t. fold (\<lambda>c s. snd (tc_sha512_update s (Some c))) chunks (Some s) = Some t \<and> absorbed (m @ concat chunks) t"
proof (induction chunks arbitrary: m s)
  case (Cons c chunks)
  have "snd (tc_sha512_update (Some s) (Some c)) = Some (fold update_byte c s)" by (simp add: tc_sha512_update_def)
  with Cons.IH [OF absorb_bytes [OF Cons.prems, of c]] show ?case by simp
qed simp

text \<open>
  C14. The digest is SHA-512: whatever the message, below the 2^61 bytes the state can count, and however it is cut into updates,
  empty ones included, the calls yield the hash of the standard of the whole message.
\<close>

theorem sha512_streaming:
  assumes "8 * length (concat chunks) < 2 ^ 64"
  shows "sha512_run chunks = Some (sha512_spec (concat chunks))"
proof -
  obtain t where t: "fold (\<lambda>c s. snd (tc_sha512_update s (Some c))) chunks (Some (zero_state\<lparr>iv := sha512_iv\<rparr>)) = Some t"
    "absorbed (concat chunks) t" using absorb_chunks [OF absorbed_start, of chunks] by auto
  then show ?thesis using final_digest [OF t(2) assms] by (simp add: sha512_run_def tc_sha512_init_def)
qed

theorem sha512_streaming_witness:
  "sha512_run [str ''ab'', [], str ''c''] = sha512_run [str ''abc'']"
  using sha512_streaming [of "[str ''ab'', [], str ''c'']"] sha512_streaming [of "[str ''abc'']"] by simp

end
