(* ===== verification/Ed25519.thy ===== *)
theory Ed25519
  imports Sha512 Manifest_Wire
begin

text \<open>
  The glue of the vendored Ed25519 verification, \<open>ED25519_verify\<close> of \<^verbatim>\<open>third_party/fiat/curve25519.c\<close>: the range check of the
  scalar, the hash over the signature's point, the key and the message, and the final comparison. The curve and scalar
  arithmetic it calls, machine-generated and verified where it comes from, is a parameter.
\<close>

section \<open>The verification\<close>

text \<open>
  A decoded point and a computed one are opaque. \<open>ge_neg\<close> is the negation of the X and T coordinates in place.
\<close>

record ('p, 'r) curve =
  x25519_ge_frombytes_vartime :: "byte list \<Rightarrow> 'p option"
  ge_neg :: "'p \<Rightarrow> 'p"
  x25519_sc_reduce :: "byte list \<Rightarrow> byte list"
  ge_double_scalarmult_vartime :: "byte list \<Rightarrow> 'p \<Rightarrow> byte list \<Rightarrow> 'r"
  x25519_ge_tobytes :: "'r \<Rightarrow> byte list"

definition CRYPTO_memcmp :: "byte list \<Rightarrow> byte list \<Rightarrow> nat \<Rightarrow> byte" where
  "CRYPTO_memcmp a b n = fold (\<lambda>i x. x OR (a ! i XOR b ! i)) [0..<n] 0"

definition kOrder :: "u64 list" where
  "kOrder = [0x5812631a5cf5d3ed, 0x14def9dea2f79cd6, 0, 0x1000000000000000]"

text \<open>The loop over the words of the scalar, from the top: \<open>False\<close> where the source returns 0.\<close>

fun below_order :: "u64 list \<Rightarrow> nat \<Rightarrow> bool" where
  "below_order s i =
     (if s ! i > kOrder ! i then False
      else if s ! i < kOrder ! i then True
      else (case i of 0 \<Rightarrow> False | Suc j \<Rightarrow> below_order s j))"

declare below_order.simps [simp del]

text \<open>The union of four words and thirty-two bytes, little endian.\<close>

definition u64_of_u8 :: "byte list \<Rightarrow> u64 list" where
  "u64_of_u8 u8 = map (\<lambda>i. bytes_u64 (take 8 (drop (8 * i) u8))) [0..<4]"

text \<open>A failed assertion is \<open>None\<close>.\<close>

definition ED25519_verify_fiat ::
  "('p, 'r) curve \<Rightarrow> byte list \<Rightarrow> byte list \<Rightarrow> byte list \<Rightarrow> int option" where
  "ED25519_verify_fiat cv message signature public_key =
     (if signature ! 63 AND 224 \<noteq> 0 then Some 0 else
      case x25519_ge_frombytes_vartime cv public_key of None \<Rightarrow> Some 0 | Some A \<Rightarrow>
      let A = ge_neg cv A;
          rcopy = take 32 signature;
          scopy = take 32 (drop 32 signature)
      in if \<not> below_order (u64_of_u8 scopy) 3 then Some 0 else
      let (rc, s) = tc_sha512_init (Some zero_state) in if rc \<noteq> TC_CRYPTO_SUCCESS then None else
      let (rc, s) = tc_sha512_update s (Some (take 32 signature)) in if rc \<noteq> TC_CRYPTO_SUCCESS then None else
      let (rc, s) = tc_sha512_update s (Some (take 32 public_key)) in if rc \<noteq> TC_CRYPTO_SUCCESS then None else
      let (rc, s) = tc_sha512_update s (Some message) in if rc \<noteq> TC_CRYPTO_SUCCESS then None else
      let (rc, h, s) = tc_sha512_final True s in if rc \<noteq> TC_CRYPTO_SUCCESS then None else
      let h = x25519_sc_reduce cv (the h);
          R = ge_double_scalarmult_vartime cv h A scopy;
          rcheck = x25519_ge_tobytes cv R
      in Some (if CRYPTO_memcmp rcheck rcopy 32 = 0 then 1 else 0))"

section \<open>The comparison and the range check\<close>

lemma memcmp_zero:
  "CRYPTO_memcmp a b n = 0 \<longleftrightarrow> (\<forall>i < n. a ! i = b ! i)"
proof -
  have "fold (\<lambda>i x. x OR (a ! i XOR b ! i)) [0..<n] 0 = 0 \<longleftrightarrow> (\<forall>i < n. a ! i = b ! i)"
  proof (induction n)
    case (Suc n)
    have "x OR y = 0 \<longleftrightarrow> x = 0 \<and> y = 0" for x y :: byte by (auto simp: bit_eq_iff bit_simps)
    moreover have "x XOR y = 0 \<longleftrightarrow> x = y" for x y :: byte by (auto simp: bit_eq_iff bit_simps)
    ultimately show ?case using Suc by (auto simp: less_Suc_eq)
  qed simp
  then show ?thesis by (simp add: CRYPTO_memcmp_def)
qed

lemma memcmp_eq: "length a = n \<Longrightarrow> length b = n \<Longrightarrow> CRYPTO_memcmp a b n = 0 \<longleftrightarrow> a = b"
  by (simp add: memcmp_zero list_eq_iff_nth_eq)

text \<open>A byte string as a little-endian number, and the order of the curve.\<close>

definition le_number :: "byte list \<Rightarrow> nat" where
  "le_number bs = foldr (\<lambda>b n. unat b + 256 * n) bs 0"

definition curve_order :: nat where
  "curve_order = 2 ^ 252 + 27742317777372353535851937790883648493"

definition words_number :: "u64 list \<Rightarrow> nat" where
  "words_number ws = foldr (\<lambda>w n. unat w + 2 ^ 64 * n) ws 0"

lemma kOrder_number: "words_number kOrder = curve_order"
  by (simp add: words_number_def kOrder_def curve_order_def)

lemma below_order_number: "below_order [a, b, c, d] 3 \<longleftrightarrow> words_number [a, b, c, d] < curve_order"
proof -
  have "below_order [a, b, c, d] 3 \<longleftrightarrow> d < kOrder ! 3 \<or> d = kOrder ! 3 \<and> (c < kOrder ! 2 \<or> c = kOrder ! 2
      \<and> (b < kOrder ! 1 \<or> b = kOrder ! 1 \<and> a < kOrder ! 0))"
    by (auto simp: below_order.simps eval_nat_numeral)
  also have "\<dots> \<longleftrightarrow> words_number [a, b, c, d] < curve_order"
    using unsigned_less [of a, where 'a = nat] unsigned_less [of b, where 'a = nat] unsigned_less [of c, where 'a = nat]
    by (auto simp: words_number_def kOrder_def curve_order_def word_less_nat_alt word_eq_iff_unsigned [where 'a = nat])
  finally show ?thesis .
qed

lemma le_number_less: "le_number bs < 256 ^ length bs"
proof (induction bs)
  case (Cons b bs)
  have "unat b < 256" using unsigned_less [of b, where 'a = nat] by simp
  with Cons show ?case by (simp add: le_number_def)
qed (simp add: le_number_def)

lemma unat_bytes_u64: "length bs \<le> 8 \<Longrightarrow> unat (bytes_u64 bs) = le_number bs"
proof (induction bs)
  case (Cons b bs)
  let ?x = "bytes_u64 bs"
  have x: "unat ?x = le_number bs" using Cons by simp
  have "(256 :: nat) ^ length bs \<le> 256 ^ 7" by (rule power_increasing) (use Cons.prems in simp_all)
  then have l: "le_number bs < 2 ^ 56" using le_number_less [of bs] by simp
  have b: "unat b < 256" using unsigned_less [of b, where 'a = nat] by simp
  then have u: "unat (ucast b :: u64) = unat b" by (simp add: unsigned_ucast_eq take_bit_nat_eq_self)
  have "bytes_u64 (b # bs) = push_bit 8 ?x OR ucast b" by (simp add: or.commute)
  also have "\<dots> = 256 * ?x + ucast b" by (rule shift_in_byte [symmetric])
  finally have "unat (bytes_u64 (b # bs)) = (256 * unat ?x + unat b) mod 2 ^ 64" by (simp add: unat_word_ariths u mod_simps)
  also have "\<dots> = 256 * le_number bs + unat b" using l b x by simp
  finally show ?case by (simp add: le_number_def)
qed (simp add: le_number_def)

lemma le_number_append: "le_number (a @ b) = le_number a + 256 ^ length a * le_number b"
  by (induction a) (simp_all add: le_number_def algebra_simps)

lemma le_number_words:
  assumes "length s = 32"
  shows "words_number (u64_of_u8 s) = le_number s"
proof -
  let ?w = "\<lambda>i. take 8 (drop (8 * i) s)"
  have d: "s = ?w 0 @ ?w 1 @ ?w 2 @ ?w 3"
  proof -
    have "drop (8 * i) s = ?w i @ drop (8 * Suc i) s" for i using append_take_drop_id [of 8 "drop (8 * i) s"] by (simp add: add.commute)
    from this [of 0] this [of 1] this [of 2] this [of 3] show ?thesis using assms by simp
  qed
  have u: "unat (bytes_u64 (?w i)) = le_number (?w i)" for i by (rule unat_bytes_u64) simp
  have "le_number s = le_number (?w 0 @ ?w 1 @ ?w 2 @ ?w 3)" using d by simp
  also have "\<dots> = words_number (u64_of_u8 s)"
    using assms u [of 0] u [of 1] u [of 2] u [of 3]
    by (simp add: words_number_def u64_of_u8_def le_number_append upt_rec algebra_simps)
  finally show ?thesis by simp
qed

lemma below_order_bytes: "length s = 32 \<Longrightarrow> below_order (u64_of_u8 s) 3 \<longleftrightarrow> le_number s < curve_order"
  using below_order_number le_number_words [of s] by (simp add: u64_of_u8_def upt_rec)

section \<open>What a verdict says\<close>

text \<open>The check of the three top bits, before anything else, is implied by the range check.\<close>

lemma small_top:
  assumes "length s = 32" "le_number s < curve_order"
  shows "s ! 31 AND 224 = 0"
proof -
  have "s = take 31 s @ [s ! 31]" using assms(1) take_Suc_conv_app_nth [of 31 s] by simp
  then have "le_number s = le_number (take 31 s @ [s ! 31])" by simp
  also have "\<dots> = le_number (take 31 s) + 256 ^ 31 * unat (s ! 31)"
    using assms(1) by (simp only: le_number_append) (simp add: le_number_def)
  finally have "256 ^ 31 * unat (s ! 31) < curve_order" using assms(2) by linarith
  then have "unat (s ! 31) < 32" by (simp add: curve_order_def)
  then have "s ! 31 < 2 ^ 5" by (simp add: word_less_nat_alt)
  note small = bit_lt_exp [OF this]
  show ?thesis
  proof (rule bit_eqI)
    fix n
    have "bit (224 :: byte) n \<Longrightarrow> 5 \<le> n"
      by (rule ccontr) (auto simp: eval_nat_numeral less_Suc_eq)
    then show "bit (s ! 31 AND 224) n = bit (0 :: byte) n" using small [of n] by (auto simp: bit_simps)
  qed
qed

definition curve_ok :: "('p, 'r) curve \<Rightarrow> bool" where
  "curve_ok cv \<longleftrightarrow> (\<forall>r. length (x25519_ge_tobytes cv r) = 32)"

text \<open>The equation of the scheme: the scalar is reduced, and the recomputed point is the signature's.\<close>

definition signature_holds :: "('p, 'r) curve \<Rightarrow> byte list \<Rightarrow> byte list \<Rightarrow> byte list \<Rightarrow> bool" where
  "signature_holds cv msg sig pub \<longleftrightarrow> le_number (drop 32 sig) < curve_order
     \<and> (\<exists>A. x25519_ge_frombytes_vartime cv pub = Some A
        \<and> x25519_ge_tobytes cv (ge_double_scalarmult_vartime cv
             (x25519_sc_reduce cv (sha512_spec (take 32 sig @ pub @ msg))) (ge_neg cv A) (drop 32 sig)) = take 32 sig)"

lemma hash_calls:
  assumes "8 * length (a @ b @ c) < 2 ^ 64"
  obtains s1 s2 s3 s4 where "tc_sha512_init (Some zero_state) = (TC_CRYPTO_SUCCESS, s1)"
    "tc_sha512_update s1 (Some a) = (TC_CRYPTO_SUCCESS, s2)" "tc_sha512_update s2 (Some b) = (TC_CRYPTO_SUCCESS, s3)"
    "tc_sha512_update s3 (Some c) = (TC_CRYPTO_SUCCESS, s4)"
    "tc_sha512_final True s4 = (TC_CRYPTO_SUCCESS, Some (sha512_spec (a @ b @ c)), Some zero_state)"
proof -
  have u: "tc_sha512_update (Some s) (Some d) = (TC_CRYPTO_SUCCESS, Some (fold update_byte d s))" for s d
    by (simp add: tc_sha512_update_def)
  note d = final_digest [OF absorb_bytes [OF absorb_bytes [OF absorb_bytes [OF absorbed_start]]], of a b c]
  show thesis by (rule that [OF _ u u u]) (use d assms in \<open>simp_all add: tc_sha512_init_def\<close>)
qed

lemma ed25519_verify_holds:
  assumes "length sig = 64" "length pub = 32" "8 * (64 + length msg) < 2 ^ 64" "curve_ok cv"
  shows "ED25519_verify_fiat cv msg sig pub = Some (if signature_holds cv msg sig pub then 1 else 0)"
proof -
  let ?s = "drop 32 sig"
  have s: "length ?s = 32" "?s ! 31 = sig ! 63" "take 32 pub = pub" using assms(1,2) by simp_all
  note top = small_top [OF s(1), unfolded s(2)]
  obtain s1 s2 s3 s4 where h: "tc_sha512_init (Some zero_state) = (TC_CRYPTO_SUCCESS, s1)"
    "tc_sha512_update s1 (Some (take 32 sig)) = (TC_CRYPTO_SUCCESS, s2)" "tc_sha512_update s2 (Some pub) = (TC_CRYPTO_SUCCESS, s3)"
    "tc_sha512_update s3 (Some msg) = (TC_CRYPTO_SUCCESS, s4)"
    "tc_sha512_final True s4 = (TC_CRYPTO_SUCCESS, Some (sha512_spec (take 32 sig @ pub @ msg)), Some zero_state)"
    by (rule hash_calls [of "take 32 sig" pub msg]) (use assms in simp_all)
  have c: "CRYPTO_memcmp (x25519_ge_tobytes cv r) (take 32 sig) 32 = 0 \<longleftrightarrow> x25519_ge_tobytes cv r = take 32 sig" for r
    by (rule memcmp_eq) (use assms(1,4) in \<open>simp_all add: curve_ok_def\<close>)
  show ?thesis
    using top s(1,3) by (auto simp: ED25519_verify_fiat_def signature_holds_def below_order_bytes h c Let_def split: option.split)
qed

section \<open>Properties\<close>

text \<open>The primitive of the verifier, with this backend.\<close>

definition ed25519_of :: "('p, 'r) curve \<Rightarrow> ed25519_fn" where
  "ed25519_of cv msg sig pub = (case ED25519_verify_fiat cv msg sig pub of Some r \<Rightarrow> r | None \<Rightarrow> 0)"

text \<open>
  C13. With the vendored Ed25519, an accepted manifest carries a canonical signature of its own body: there is a 64-byte signature whose
  scalar is below the order of the curve (so it cannot be changed into another valid one by adding the order) and
  whose point is the one recomputed from SHA-512 over that point, the pinned key, the context and the body the manifest decodes.
\<close>

theorem accepted_signature_canonical:
  assumes "len \<le> length mem" "md_verify (ed25519_of cv) key mem len = Ok m" "length (pk_pub key) = 32" "curve_ok cv"
  shows "\<exists>body sig A. length sig = 64 \<and> decode_body body = Some (view mem m)
    \<and> le_number (drop 32 sig) < curve_order \<and> x25519_ge_frombytes_vartime cv (pk_pub key) = Some A
    \<and> x25519_ge_tobytes cv (ge_double_scalarmult_vartime cv
        (x25519_sc_reduce cv (sha512_spec (take 32 sig @ pk_pub key @ MD_SIGN_CONTEXT @ body))) (ge_neg cv A) (drop 32 sig)) = take 32 sig"
proof -
  obtain body sig where b: "ed25519_of cv (MD_SIGN_CONTEXT @ body) sig (pk_pub key) = 1" "length sig = 64"
    "length body \<le> MD_MAX_MANIFEST" "decode_body body = Some (view mem m)"
    using md_verify_sound(1) [OF assms(1,2)] by blast
  have "8 * (64 + length (MD_SIGN_CONTEXT @ body)) < 2 ^ 64" using b(3) by (simp add: MD_SIGN_CONTEXT_def MD_MAX_MANIFEST_def)
  from ed25519_verify_holds [OF b(2) assms(3) this assms(4)] b(1)
  have "signature_holds cv (MD_SIGN_CONTEXT @ body) sig (pk_pub key)" by (simp add: ed25519_of_def split: if_splits)
  then show ?thesis using b(2,4) unfolding signature_holds_def by blast
qed

definition sample_curve :: "(unit, byte list) curve" where
  "sample_curve = \<lparr>x25519_ge_frombytes_vartime = \<lambda>pub. if pub = replicate 32 1 then Some () else None, ge_neg = \<lambda>A. A,
     x25519_sc_reduce = \<lambda>h. take 32 h, ge_double_scalarmult_vartime = \<lambda>h A s. s,
     x25519_ge_tobytes = \<lambda>r. take 32 (r @ replicate 32 0)\<rparr>"

theorem accepted_signature_canonical_witness:
  "\<exists>m body sig. md_verify (ed25519_of sample_curve) sample_key sample_buf (length sample_buf) = Ok m
    \<and> rollback_counter m = 7 \<and> length sig = 64 \<and> decode_body body = Some (view sample_buf m) \<and> le_number (drop 32 sig) < curve_order"
proof -
  have ok: "curve_ok sample_curve" by (simp add: curve_ok_def sample_curve_def min_def)
  have "replicate 32 (2 :: byte) = replicate 31 2 @ [2]" using replicate_append_same [of 31 "2 :: byte"] by (simp add: eval_nat_numeral)
  then have "le_number (replicate 32 2) = le_number (replicate 31 2) + 256 ^ 31 * le_number [2]" by (simp only: le_number_append length_replicate)
  then have "le_number (replicate 32 2) < curve_order"
    using le_number_less [of "replicate 31 2"] by (simp add: le_number_def [of "[2]"] curve_order_def)
  then have "signature_holds sample_curve msg (replicate 64 2) (replicate 32 1)" for msg
    by (simp add: signature_holds_def sample_curve_def)
  then have e: "ed25519_of sample_curve msg (replicate 64 2) (replicate 32 1) = 1" if "8 * (64 + length msg) < 2 ^ 64" for msg
    using ed25519_verify_holds [OF _ _ that ok, of "replicate 64 2" "replicate 32 1"] by (simp add: ed25519_of_def)
  have v: "valid_view sample_view" "length (enc_manifest sample_view) \<le> MD_MAX_MANIFEST" by code_simp+
  have "8 * (64 + length (MD_SIGN_CONTEXT @ enc_manifest sample_view)) < 2 ^ 64"
    using v(2) by (simp add: MD_SIGN_CONTEXT_def MD_MAX_MANIFEST_def)
  then have s: "ed25519_of sample_curve (MD_SIGN_CONTEXT @ enc_manifest sample_view) (replicate 64 2) (pk_pub sample_key) = 1"
    using e by (simp add: sample_key_def)
  have "length sample_buf < 1000" by code_simp
  then have l: "length sample_buf < 2 ^ 64" by simp
  obtain m where m: "md_verify (ed25519_of sample_curve) sample_key sample_buf (length sample_buf) = Ok m" "view sample_buf m = sample_view"
    using md_verify_accepts [where v = sample_view and sig = "replicate 64 2" and buf = sample_buf and key = sample_key, OF v] s sample_buf_def l
    by auto
  moreover have "rollback_counter m = 7" using arg_cong [OF m(2), of v_counter] by (simp add: view_def sample_view_def)
  moreover have "length (pk_pub sample_key) = 32" by (simp add: sample_key_def)
  ultimately show ?thesis using accepted_signature_canonical [OF order.refl m(1) _ ok] by blast
qed

end
